(* ===== verification/Prelude.thy ===== *)
theory Prelude
  imports Main "HOL-Library.Word"
begin

text \<open>
  Shared vocabulary of the development: the C++ integer types, the outcome of an operation that
  can crash (the \<^verbatim>\<open>CRASH\<close>/\<^verbatim>\<open>ASSERT_CRASH\<close> macros of \<^verbatim>\<open>DhUtil/Macro.h\<close>) or run into undefined
  behaviour, the little-endian byte layout of the packed structs, and the generic lemmas on lists
  and words that the component theories use.  The collection \<open>outcome_simps\<close> carries the
  sequencing of outcomes.
\<close>

named_theorems outcome_simps

section \<open>Integer types\<close>

text \<open>\<^verbatim>\<open>DhUtil/Types.h\<close>: \<^verbatim>\<open>BYTE\<close>, \<^verbatim>\<open>uint16\<close>, \<^verbatim>\<open>uint32\<close>, \<^verbatim>\<open>uint64\<close>.  An \<^verbatim>\<open>int32\<close> is an
  \<^typ>\<open>int\<close>; where a computation can leave the 32-bit range the model says so.\<close>

type_synonym byte = "8 word"
type_synonym uint16 = "16 word"
type_synonym uint32 = "32 word"
type_synonym uint64 = "64 word"

definition int32_range :: "int \<Rightarrow> bool" where
  "int32_range x \<longleftrightarrow> - (2 ^ 31) \<le> x \<and> x < 2 ^ 31"

text \<open>The implicit conversion of an \<^verbatim>\<open>int32\<close> to \<^verbatim>\<open>size_t\<close> in a comparison with \<^verbatim>\<open>sizeof\<close>.\<close>

definition to_size_t :: "int \<Rightarrow> nat" where
  "to_size_t x = nat (x mod 2 ^ 64)"

lemma to_size_t_nonneg [simp]: "0 \<le> x \<Longrightarrow> x < 2 ^ 64 \<Longrightarrow> to_size_t x = nat x"
  by (simp add: to_size_t_def)

section \<open>Outcomes\<close>

text \<open>
  \<open>CRASH c\<close> is the deliberate fail-fast of the \<^verbatim>\<open>CRASH(cause)\<close> macro; \<open>UB c\<close> marks a place where the
  C++ code would have undefined behaviour (an out-of-range access, an overlapping \<^verbatim>\<open>memcpy\<close>, a
  null dereference).
\<close>

datatype fault = CRASH string | UB string

type_synonym 'a outcome = "fault + 'a"

definition bindR :: "'a outcome \<Rightarrow> ('a \<Rightarrow> 'b outcome) \<Rightarrow> 'b outcome" where
  "bindR m f = (case m of Inl e \<Rightarrow> Inl e | Inr x \<Rightarrow> f x)"

definition ASSERT_CRASH :: "bool \<Rightarrow> 'a outcome \<Rightarrow> 'a outcome" where
  "ASSERT_CRASH expr k = (if expr then k else Inl (CRASH ''ASSERT_CRASH''))"

lemma bindR_simps [simp, outcome_simps]:
  "bindR (Inl e) f = Inl e"
  "bindR (Inr x) f = f x"
  by (simp_all add: bindR_def)

lemma ASSERT_CRASH_simps [simp, outcome_simps]:
  "ASSERT_CRASH True k = k"
  "ASSERT_CRASH False k = Inl (CRASH ''ASSERT_CRASH'')"
  by (simp_all add: ASSERT_CRASH_def)

lemma ASSERT_CRASH_Inr [outcome_simps]: "ASSERT_CRASH b k = Inr y \<longleftrightarrow> b \<and> k = Inr y"
  by (simp add: ASSERT_CRASH_def)

lemma bindR_Inr [outcome_simps]: "bindR m f = Inr y \<longleftrightarrow> (\<exists>x. m = Inr x \<and> f x = Inr y)"
  by (cases m) auto

lemma bindR_assoc: "bindR (bindR m f) g = bindR m (\<lambda>x. bindR (f x) g)"
  by (cases m) auto

lemma bindR_cong [fundef_cong]:
  "m = m' \<Longrightarrow> (\<And>x. m' = Inr x \<Longrightarrow> f x = g x) \<Longrightarrow> bindR m f = bindR m' g"
  by (cases m') auto

text \<open>\<^verbatim>\<open>memcpy(&buf[dst], &buf[src], n)\<close> inside one buffer: undefined when a range leaves the
  buffer or when the two ranges overlap.\<close>

definition memcpy_within :: "'a list \<Rightarrow> int \<Rightarrow> int \<Rightarrow> int \<Rightarrow> 'a list outcome" where
  "memcpy_within buf dst src n =
     (if n < 0 \<or> dst < 0 \<or> src < 0 \<or> dst + n > int (length buf) \<or> src + n > int (length buf)
      then Inl (UB ''memcpy out of range'')
      else if dst < src + n \<and> src < dst + n then Inl (UB ''memcpy overlap'')
      else Inr (take (nat dst) buf @ take (nat n) (drop (nat src) buf) @ drop (nat dst + nat n) buf))"

section \<open>Lists\<close>

text \<open>Writing a run of elements over a list, in place.\<close>

definition overwrite :: "nat \<Rightarrow> 'a list \<Rightarrow> 'a list \<Rightarrow> 'a list" where
  "overwrite pos xs buf = take pos buf @ xs @ drop (pos + length xs) buf"

lemma length_overwrite [simp]:
  "pos + length xs \<le> length buf \<Longrightarrow> length (overwrite pos xs buf) = length buf"
  by (simp add: overwrite_def)

lemma take_overwrite [simp]:
  "n \<le> pos \<Longrightarrow> pos \<le> length buf \<Longrightarrow> take n (overwrite pos xs buf) = take n buf"
  by (simp add: overwrite_def min_def)

lemma bytes_at_append:
  assumes "r \<le> w" "w + length xs \<le> length buf"
  shows "take (w + length xs - r) (drop r (overwrite w xs buf)) = take (w - r) (drop r buf) @ xs"
proof -
  have "length (drop r (take w buf)) = w - r" using assms by simp
  moreover have "drop r (overwrite w xs buf) = drop r (take w buf) @ xs @ drop (w + length xs) buf"
    using assms by (simp add: overwrite_def)
  moreover have "w + length xs - r = (w - r) + length xs" using assms by simp
  ultimately show ?thesis by (simp add: drop_take)
qed

lemma take_drop_split: "n \<le> m \<Longrightarrow> take (m - n) (drop (r + n) xs) = drop n (take m (drop r xs))"
  by (simp add: drop_take add.commute)

lemma drop_eq_ConsD:
  assumes "drop k xs = y # ys"
  shows "k < length xs" "xs ! k = y" "drop (Suc k) xs = ys"
proof -
  show k: "k < length xs" using assms by (metis drop_all list.discI not_le)
  show "xs ! k = y" "drop (Suc k) xs = ys" using assms Cons_nth_drop_Suc[OF k] by simp_all
qed

text \<open>The bytes of a field of a packed struct, and how a store to a field changes the others.\<close>

definition bytes_at :: "nat \<Rightarrow> nat \<Rightarrow> 'a list \<Rightarrow> 'a list" where
  "bytes_at off n mem = take n (drop off mem)"

lemma length_bytes_at [simp]: "off + n \<le> length mem \<Longrightarrow> length (bytes_at off n mem) = n"
  by (simp add: bytes_at_def)

lemma bytes_at_overwrite_same [simp]:
  "pos + length xs \<le> length mem \<Longrightarrow> n = length xs \<Longrightarrow> bytes_at pos n (overwrite pos xs mem) = xs"
  by (simp add: bytes_at_def overwrite_def)

lemma bytes_at_overwrite_before [simp]:
  "off + n \<le> pos \<Longrightarrow> pos + length xs \<le> length mem \<Longrightarrow>
   bytes_at off n (overwrite pos xs mem) = bytes_at off n mem"
  by (simp add: bytes_at_def overwrite_def take_drop)

lemma bytes_at_overwrite_after [simp]:
  "pos + length xs \<le> off \<Longrightarrow> pos + length xs \<le> length mem \<Longrightarrow>
   bytes_at off n (overwrite pos xs mem) = bytes_at off n mem"
  by (simp add: bytes_at_def overwrite_def drop_append)

lemma bytes_at_bytes_at: "i + n \<le> m \<Longrightarrow> bytes_at i n (bytes_at off m mem) = bytes_at (off + i) n mem"
  by (simp add: bytes_at_def drop_take add.commute min_def)

section \<open>Little-endian fields\<close>

text \<open>The little-endian bytes of an unsigned field of a packed struct, and the value of such
  bytes.\<close>

definition le_bytes :: "nat \<Rightarrow> 'a::len word \<Rightarrow> byte list" where
  "le_bytes n w = map (\<lambda>i. ucast (drop_bit (8 * i) w)) [0..<n]"

fun read_le :: "byte list \<Rightarrow> 'a::len word" where
  "read_le [] = 0"
| "read_le (b # bs) = or (ucast b) (push_bit 8 (read_le bs))"

lemma length_le_bytes [simp]: "length (le_bytes n w) = n"
  by (simp add: le_bytes_def)

lemma read_le_bytes_from:
  "8 * (j + n) \<le> LENGTH('a) \<Longrightarrow>
   read_le (map (\<lambda>i. ucast (drop_bit (8 * i) (w :: 'a::len word))) [j..<j + n])
     = take_bit (8 * n) (drop_bit (8 * j) w)"
proof (induction n arbitrary: j)
  case 0
  then show ?case by simp
next
  case (Suc n)
  have IH: "read_le (map (\<lambda>i. ucast (drop_bit (8 * i) w)) [Suc j..<j + Suc n])
      = take_bit (8 * n) (drop_bit (8 * Suc j) w)"
    using Suc.IH[of "Suc j"] Suc.prems by simp
  have "[j..<j + Suc n] = j # [Suc j..<j + Suc n]" by (simp add: upt_rec)
  then have "read_le (map (\<lambda>i. ucast (drop_bit (8 * i) w)) [j..<j + Suc n])
      = or (ucast (ucast (drop_bit (8 * j) w) :: byte))
           (push_bit 8 (take_bit (8 * n) (drop_bit (8 * Suc j) w)))"
    using IH by simp
  also have "\<dots> = take_bit (8 * Suc n) (drop_bit (8 * j) w)"
  proof (rule bit_word_eqI)
    fix k assume k: "k < LENGTH('a)"
    show "bit (or (ucast (ucast (drop_bit (8 * j) w) :: byte))
        (push_bit 8 (take_bit (8 * n) (drop_bit (8 * Suc j) w)))) k
      = bit (take_bit (8 * Suc n) (drop_bit (8 * j) w)) k"
      using k by (cases "k < 8") (auto simp: bit_simps algebra_simps)
  qed
  finally show ?case .
qed

lemma read_le_bytes [simp]:
  "LENGTH('a) = 8 * n \<Longrightarrow> read_le (le_bytes n (w :: 'a::len word)) = w"
  using read_le_bytes_from[of 0 n w]
  by (simp add: le_bytes_def take_bit_word_eq_self)

section \<open>C strings\<close>

text \<open>A \<^verbatim>\<open>std::string\<close> is a byte sequence; \<open>c_str\<close> is what a reader of its \<^verbatim>\<open>c_str()\<close> sees, up to
  the first NUL.  \<open>strncpy_s old src count\<close> is \<^verbatim>\<open>strncpy_s(dst, src, count)\<close> on a destination array
  whose contents were \<open>old\<close>: at most \<open>count\<close> characters, a terminator, the rest of the array
  unchanged.\<close>

definition bytes_of :: "string \<Rightarrow> byte list" where
  "bytes_of s = map of_char s"

definition c_str :: "byte list \<Rightarrow> byte list" where
  "c_str s = takeWhile (\<lambda>b. b \<noteq> 0) s"

definition strncpy_s :: "byte list \<Rightarrow> byte list \<Rightarrow> nat \<Rightarrow> byte list" where
  "strncpy_s old src count = overwrite 0 (take count (c_str src) @ [0]) old"

lemma c_str_no_nul: "0 \<notin> set (c_str s)"
  unfolding c_str_def by (metis (mono_tags) set_takeWhileD)

lemma c_str_id: "0 \<notin> set s \<Longrightarrow> c_str s = s"
  unfolding c_str_def by (metis (mono_tags, lifting) takeWhile_eq_all_conv)

lemma c_str_append_nul: "0 \<notin> set s \<Longrightarrow> c_str (s @ 0 # t) = s"
  unfolding c_str_def by (induction s) auto

lemma length_strncpy_s [simp]: "count < length old \<Longrightarrow> length (strncpy_s old src count) = length old"
  by (simp add: strncpy_s_def)

lemma c_str_strncpy_s: "count < length old \<Longrightarrow> c_str (strncpy_s old src count) = take count (c_str src)"
proof -
  have "0 \<notin> set (take count (c_str src))" using c_str_no_nul by (metis in_set_takeD)
  then show ?thesis
    using c_str_append_nul[of "take count (c_str src)"] by (simp add: strncpy_s_def overwrite_def)
qed

section \<open>Sums over threads\<close>

text \<open>Changing the entry of one thread changes a sum over all threads by the difference.\<close>

lemma sum_upd:
  fixes w :: "'p \<Rightarrow> nat"
  assumes "finite T" "t \<in> T"
  shows "(\<Sum>u\<in>T. w ((g(t := p)) u)) + w (g t) = (\<Sum>u\<in>T. w (g u)) + w p"
proof -
  have "(\<Sum>u\<in>T - {t}. w ((g(t := p)) u)) = (\<Sum>u\<in>T - {t}. w (g u))" by (rule sum.cong) auto
  then show ?thesis using sum.remove[OF assms, of "\<lambda>u. w ((g(t := p)) u)"] sum.remove[OF assms, of "\<lambda>u. w (g u)"]
    by simp
qed

lemma sum_member: "finite T \<Longrightarrow> t \<in> T \<Longrightarrow> (w :: 'p \<Rightarrow> nat) (g t) \<le> (\<Sum>u\<in>T. w (g u))"
  by (rule member_le_sum[of t T "\<lambda>u. w (g u)"]) auto

text \<open>The total weight of all threads, where a thread at \<open>p\<close> weighs \<open>w p\<close>.\<close>

definition weight :: "'t set \<Rightarrow> ('p \<Rightarrow> nat) \<Rightarrow> ('t \<Rightarrow> 'p) \<Rightarrow> nat" where
  "weight T w g = (\<Sum>u\<in>T. w (g u))"

lemma weight_upd:
  "finite T \<Longrightarrow> t \<in> T \<Longrightarrow> weight T w (g(t := p)) + w (g t) = weight T w g + w p"
  using sum_upd[of T t w g p] by (simp add: weight_def)

lemma weight_member: "finite T \<Longrightarrow> t \<in> T \<Longrightarrow> w (g t) \<le> weight T w g"
  using sum_member[of T t w g] by (simp add: weight_def)

lemma weight_two:
  assumes "finite T" "t \<in> T" "t' \<in> T" "t \<noteq> t'"
  shows "w (g t) + w (g t') \<le> weight T w g"
  using sum_mono2[of T "{t, t'}" "\<lambda>u. w (g u)"] assms by (simp add: weight_def)

lemma weight_zero: "(\<And>t. t \<in> T \<Longrightarrow> w (g t) = 0) \<Longrightarrow> weight T w g = 0"
  by (simp add: weight_def)

section \<open>Ordered maps\<close>

text \<open>A \<^verbatim>\<open>std::map\<close> is its list of entries in key order.\<close>

fun map_insert :: "'k::linorder \<Rightarrow> 'v \<Rightarrow> ('k \<times> 'v) list \<Rightarrow> ('k \<times> 'v) list" where
  "map_insert k v [] = [(k, v)]"
| "map_insert k v ((k', v') # m) =
     (if k < k' then (k, v) # (k', v') # m else if k = k' then (k, v) # m else (k', v') # map_insert k v m)"

definition map_erase :: "'k \<Rightarrow> ('k \<times> 'v) list \<Rightarrow> ('k \<times> 'v) list" where
  "map_erase k m = filter (\<lambda>e. fst e \<noteq> k) m"

definition map_has :: "'k \<Rightarrow> ('k \<times> 'v) list \<Rightarrow> bool" where
  "map_has k m \<longleftrightarrow> map_of m k \<noteq> None"

text \<open>\<^verbatim>\<open>try_emplace\<close> and \<^verbatim>\<open>insert\<close> leave an existing entry alone.\<close>

definition try_emplace :: "'k::linorder \<Rightarrow> 'v \<Rightarrow> ('k \<times> 'v) list \<Rightarrow> bool \<times> ('k \<times> 'v) list" where
  "try_emplace k v m = (if map_has k m then (False, m) else (True, map_insert k v m))"

lemma length_map_insert: "\<not> map_has k m \<Longrightarrow> length (map_insert k v m) = Suc (length m)"
  by (induction k v m rule: map_insert.induct) (auto simp: map_has_def split: if_splits)

lemma set_map_insert: "\<not> map_has k m \<Longrightarrow> set (map_insert k v m) = insert (k, v) (set m)"
  by (induction k v m rule: map_insert.induct) (auto simp: map_has_def split: if_splits)

lemma map_has_iff: "map_has k m \<longleftrightarrow> k \<in> fst ` set m"
  by (auto simp: map_has_def map_of_eq_None_iff)

lemma sorted_map_insert:
  "sorted_wrt (<) (map fst m) \<Longrightarrow> \<not> map_has k m \<Longrightarrow> sorted_wrt (<) (map fst (map_insert k v m))"
proof (induction k v m rule: map_insert.induct)
  case (2 k v k' v' m)
  then show ?case by (auto simp: map_has_iff set_map_insert)
qed simp

lemma sorted_map_erase: "sorted_wrt (<) (map fst m) \<Longrightarrow> sorted_wrt (<) (map fst (map_erase k m))"
  by (induction m) (auto simp: map_erase_def)

lemma length_map_erase:
  "distinct (map fst m) \<Longrightarrow> map_has k m \<Longrightarrow> Suc (length (map_erase k m)) = length m"
proof (induction m)
  case (Cons e m)
  show ?case
  proof (cases "fst e = k")
    case True
    then have "map_erase k m = m" using Cons.prems(1) by (simp add: map_erase_def filter_id_conv) (metis image_eqI)
    then show ?thesis using True by (simp add: map_erase_def)
  next
    case False
    then show ?thesis using Cons by (auto simp: map_erase_def map_has_def)
  qed
qed (simp add: map_has_def)

lemma map_erase_absent: "\<not> map_has k m \<Longrightarrow> map_erase k m = m"
  by (auto simp: map_erase_def map_has_iff filter_id_conv)

lemma map_has_erase [simp]: "map_has k (map_erase j m) \<longleftrightarrow> k \<noteq> j \<and> map_has k m"
  by (auto simp: map_has_iff map_erase_def)

lemma map_erase_insert: "\<not> map_has k m \<Longrightarrow> map_erase k (map_insert k v m) = m"
  by (induction k v m rule: map_insert.induct)
    (auto simp: map_has_def map_erase_def map_of_eq_None_iff filter_id_conv image_iff split: if_splits)

lemma nth_update_if: "j < length xs \<Longrightarrow> xs[i := x] ! j = (if i = j then x else xs ! j)"
  by (simp add: nth_list_update)

lemma c_str_idem: "c_str (c_str s) = c_str s"
  by (simp add: c_str_def takeWhile_idem)

section \<open>Decimal numbers\<close>

text \<open>\<^verbatim>\<open>std::to_string\<close> on numbers that are not negative.\<close>

fun to_string :: "nat \<Rightarrow> string" where
  "to_string n = (if n < 10 then [char_of (48 + n)] else to_string (n div 10) @ [char_of (48 + n mod 10)])"

declare to_string.simps [simp del]

end
