(* ===== verification/DeadLockProfiler.thy ===== *)
theory DeadLockProfiler
  imports Prelude
begin

text \<open>
  \<^verbatim>\<open>DhUtil/DeadLockProfiler.{h,cpp}\<close>: the debug-build detector that records which lock was taken while
  which other was held and looks for a cycle by depth-first search.  Shown: the search reports a deadlock
  exactly when the recorded lock graph has a cycle, and it always ends.
\<close>

section \<open>State\<close>

text \<open>A lock name is a \<^verbatim>\<open>const char*\<close>, compared as a pointer.  \<open>m_lockHistory\<close> maps a lock to the ordered set
  of locks taken while it was the innermost one.\<close>

type_synonym history = "nat \<Rightarrow> nat list option"

record profiler =
  m_nameToId :: "(nat \<times> nat) list"
  m_lockHistory :: history

record dfs =
  m_discoveredOrder :: "int list"
  m_discoveredCount :: int
  m_finished :: "bool list"
  m_parent :: "int list"

section \<open>The search\<close>

text \<open>The loop that reports the path: it follows \<open>m_parent\<close> from \<open>now\<close> up to \<open>there\<close>, then crashes the
  program.  \<open>n\<close> bounds the length of the walk; the walk is undefined when it leaves the vector.\<close>

fun report :: "nat \<Rightarrow> int list \<Rightarrow> int \<Rightarrow> int \<Rightarrow> dfs outcome" where
  "report 0 parent now there = Inl (UB ''endless walk'')"
| "report (Suc n) parent now there =
     (if now < 0 \<or> int (length parent) \<le> now then Inl (UB ''vector subscript'')
      else if parent ! nat now = there then Inl (CRASH ''DEADLOCK_DETECTED'')
      else report n parent (parent ! nat now) there)"

text \<open>\<open>DFS\<close> and the loop over its neighbours; the first argument is the call stack that is left.\<close>

function (sequential) DFS :: "nat \<Rightarrow> history \<Rightarrow> nat \<Rightarrow> dfs \<Rightarrow> dfs outcome"
  and visit :: "nat \<Rightarrow> history \<Rightarrow> nat \<Rightarrow> nat list \<Rightarrow> dfs \<Rightarrow> dfs outcome" where
  "DFS 0 h here s = Inl (UB ''stack overflow'')"
| "DFS (Suc n) h here s =
     (if m_discoveredOrder s ! here \<noteq> -1 then Inr s
      else let s = s\<lparr>m_discoveredOrder := (m_discoveredOrder s)[here := m_discoveredCount s],
                     m_discoveredCount := m_discoveredCount s + 1\<rparr> in
      case h here of
        None \<Rightarrow> Inr (s\<lparr>m_finished := (m_finished s)[here := True]\<rparr>)
      | Some nextSet \<Rightarrow> bindR (visit n h here nextSet s)
          (\<lambda>s. Inr (s\<lparr>m_finished := (m_finished s)[here := True]\<rparr>)))"
| "visit n h here [] s = Inr s"
| "visit n h here (there # nextSet) s =
     (if m_discoveredOrder s ! there = -1
      then bindR (DFS n h there (s\<lparr>m_parent := (m_parent s)[there := int here]\<rparr>)) (visit n h here nextSet)
      else if m_discoveredOrder s ! here < m_discoveredOrder s ! there then visit n h here nextSet s
      else if \<not> m_finished s ! there
      then report (length (m_parent s)) (m_parent s) (int here) (int there)
      else visit n h here nextSet s)"
  by pat_completeness auto
termination
  by (relation "measures [\<lambda>x. case x of Inl (n, _) \<Rightarrow> n | Inr (n, _) \<Rightarrow> n,
      \<lambda>x. case x of Inl _ \<Rightarrow> 0 | Inr (_, _, _, ts, _) \<Rightarrow> Suc (length ts)]") auto

fun CheckCycle_loop :: "history \<Rightarrow> nat list \<Rightarrow> nat \<Rightarrow> dfs \<Rightarrow> dfs outcome" where
  "CheckCycle_loop h [] lockCount s = Inr s"
| "CheckCycle_loop h (lockId # ids) lockCount s =
     bindR (DFS (Suc lockCount) h lockId s) (CheckCycle_loop h ids lockCount)"

definition CheckCycle :: "profiler \<Rightarrow> unit outcome" where
  "CheckCycle p =
     (let lockCount = length (m_nameToId p) in
      bindR (CheckCycle_loop (m_lockHistory p) [0..<lockCount] lockCount
        \<lparr>m_discoveredOrder = replicate lockCount (-1), m_discoveredCount = 0,
         m_finished = replicate lockCount False, m_parent = replicate lockCount (-1)\<rparr>)
       (\<lambda>_. Inr ()))"

section \<open>Recording\<close>

text \<open>\<open>PushLock\<close> and \<open>PopLock\<close> work on the profiler and on the lock stack of the calling thread.\<close>

definition find_or_issue :: "nat \<Rightarrow> profiler \<Rightarrow> nat \<times> profiler" where
  "find_or_issue name p =
     (case map_of (m_nameToId p) name of
        None \<Rightarrow> (length (m_nameToId p), p\<lparr>m_nameToId := m_nameToId p @ [(name, length (m_nameToId p))]\<rparr>)
      | Some lockId \<Rightarrow> (lockId, p))"

definition PushLock :: "nat \<Rightarrow> nat list \<Rightarrow> profiler \<Rightarrow> (nat list \<times> profiler) outcome" where
  "PushLock name LLockStack p =
     (let (lockId, p) = find_or_issue name p in
      case LLockStack of
        [] \<Rightarrow> Inr ([lockId], p)
      | prevId # _ \<Rightarrow>
          if lockId = prevId then Inr (lockId # LLockStack, p)
          else let history = (case m_lockHistory p prevId of None \<Rightarrow> [] | Some l \<Rightarrow> l) in
          if lockId \<in> set history then Inr (lockId # LLockStack, p\<lparr>m_lockHistory := (m_lockHistory p)(prevId \<mapsto> history)\<rparr>)
          else let p = p\<lparr>m_lockHistory := (m_lockHistory p)(prevId \<mapsto> insort lockId history)\<rparr> in
          bindR (CheckCycle p) (\<lambda>_. Inr (lockId # LLockStack, p)))"

definition PopLock :: "nat \<Rightarrow> nat list \<Rightarrow> profiler \<Rightarrow> (nat list \<times> profiler) outcome" where
  "PopLock name LLockStack p =
     (case LLockStack of
        [] \<Rightarrow> Inl (CRASH ''MULTIPLE_UNLOCK'')
      | inner # rest \<Rightarrow>
          let (lockId, p) =
            (case map_of (m_nameToId p) name of
               None \<Rightarrow> (0, p\<lparr>m_nameToId := m_nameToId p @ [(name, 0)]\<rparr>)
             | Some lockId \<Rightarrow> (lockId, p)) in
          if inner \<noteq> lockId then Inl (CRASH ''INVALID_UNLOCK'') else Inr (rest, p))"

section \<open>The lock graph\<close>

definition edges :: "history \<Rightarrow> (nat \<times> nat) set" where
  "edges h = {(u, v). \<exists>l. h u = Some l \<and> v \<in> set l}"

text \<open>Locks are numbered below \<open>N\<close>, and no lock follows itself.\<close>

definition graph_ok :: "nat \<Rightarrow> history \<Rightarrow> bool" where
  "graph_ok N h \<longleftrightarrow> edges h \<subseteq> {..<N} \<times> {..<N} \<and> (\<forall>v. (v, v) \<notin> edges h)"

section \<open>Invariants of the search\<close>

definition disc :: "nat \<Rightarrow> dfs \<Rightarrow> nat set" where
  "disc N s = {v. v < N \<and> m_discoveredOrder s ! v \<noteq> -1}"

definition fin :: "nat \<Rightarrow> dfs \<Rightarrow> nat set" where
  "fin N s = {v. v < N \<and> m_finished s ! v}"

text \<open>Finished locks only lead to finished locks, without a cycle.\<close>

definition good :: "nat \<Rightarrow> history \<Rightarrow> dfs \<Rightarrow> bool" where
  "good N h s \<longleftrightarrow> length (m_discoveredOrder s) = N \<and> length (m_finished s) = N \<and> length (m_parent s) = N
     \<and> fin N s \<subseteq> disc N s \<and> 0 \<le> m_discoveredCount s
     \<and> (\<forall>v \<in> disc N s. 0 \<le> m_discoveredOrder s ! v \<and> m_discoveredOrder s ! v < m_discoveredCount s)
     \<and> edges h `` fin N s \<subseteq> fin N s \<and> acyclic (edges h \<inter> fin N s \<times> fin N s)"

text \<open>The locks on the recursion stack, innermost first: each was discovered through an edge from the
  next one, later than it.\<close>

fun chain :: "history \<Rightarrow> dfs \<Rightarrow> nat list \<Rightarrow> bool" where
  "chain h s [] = True"
| "chain h s [v] = True"
| "chain h s (v # u # r) = ((u, v) \<in> edges h \<and> m_parent s ! v = int u
     \<and> m_discoveredOrder s ! u < m_discoveredOrder s ! v \<and> chain h s (u # r))"

definition stack :: "nat \<Rightarrow> history \<Rightarrow> nat list \<Rightarrow> dfs \<Rightarrow> bool" where
  "stack N h stk s \<longleftrightarrow> set stk = disc N s - fin N s \<and> distinct stk \<and> chain h s stk"

text \<open>What a call leaves alone.\<close>

definition kept :: "nat \<Rightarrow> dfs \<Rightarrow> dfs \<Rightarrow> bool" where
  "kept N s s' \<longleftrightarrow> disc N s \<subseteq> disc N s' \<and> fin N s \<subseteq> fin N s' \<and> disc N s' - fin N s' = disc N s - fin N s
     \<and> (\<forall>v \<in> disc N s. m_discoveredOrder s' ! v = m_discoveredOrder s ! v \<and> m_parent s' ! v = m_parent s ! v)"

lemma kept_refl [simp]: "kept N s s"
  by (simp add: kept_def)

lemma kept_trans: "kept N a b \<Longrightarrow> kept N b c \<Longrightarrow> kept N a c"
  unfolding kept_def by (metis subset_trans subsetD)

lemma chain_cong:
  "\<forall>v \<in> set stk. m_discoveredOrder s' ! v = m_discoveredOrder s ! v \<and> m_parent s' ! v = m_parent s ! v \<Longrightarrow>
   chain h s' stk = chain h s stk"
  by (induction h s stk rule: chain.induct) auto

lemma stack_kept: "stack N h stk s \<Longrightarrow> kept N s s' \<Longrightarrow> stack N h stk s'"
  using chain_cong[of stk s' s h] by (auto simp: stack_def kept_def)

lemma chain_path:
  "chain h s (v # r) \<Longrightarrow> w \<in> set (v # r) \<Longrightarrow>
   (w, v) \<in> (edges h)\<^sup>* \<and> m_discoveredOrder s ! w \<le> m_discoveredOrder s ! v"
proof (induction r arbitrary: v)
  case Nil
  then show ?case by simp
next
  case (Cons u r)
  show ?case
  proof (cases "w = v")
    case False
    then have "(w, u) \<in> (edges h)\<^sup>* \<and> m_discoveredOrder s ! w \<le> m_discoveredOrder s ! u"
      using Cons.IH[of u] Cons.prems by simp
    then show ?thesis using Cons.prems(1) by (auto intro: rtrancl_into_rtrancl)
  qed simp
qed

lemma report_ends:
  "chain h s (v # r) \<Longrightarrow> w \<in> set r \<Longrightarrow> length r \<le> n \<Longrightarrow> set (v # r) \<subseteq> {..<length (m_parent s)} \<Longrightarrow> distinct (v # r) \<Longrightarrow>
   report n (m_parent s) (int v) (int w) = Inl (CRASH ''DEADLOCK_DETECTED'')"
proof (induction r arbitrary: v n)
  case Nil
  then show ?case by simp
next
  case (Cons u r)
  obtain m where m: "n = Suc m" using Cons.prems(3) by (cases n) auto
  show ?case
  proof (cases "u = w")
    case True
    then show ?thesis using Cons.prems m by simp
  next
    case False
    then show ?thesis using Cons.IH[of u m] Cons.prems m by simp
  qed
qed

lemma acyclic_add_source:
  assumes "acyclic R" "\<And>y. (y, x) \<notin> R" "x \<notin> A"
  shows "acyclic (R \<union> {x} \<times> A)"
proof -
  have into: "(y, x) \<notin> (R \<union> {x} \<times> A)\<^sup>+" for y
  proof
    assume "(y, x) \<in> (R \<union> {x} \<times> A)\<^sup>+"
    then show False using assms(2,3) by (cases rule: trancl.cases) auto
  qed
  have "(a, b) \<in> (R \<union> {x} \<times> A)\<^sup>+ \<Longrightarrow> a \<noteq> x \<Longrightarrow> (a, b) \<in> R\<^sup>+" for a b
  proof (induction rule: trancl_induct)
    case (base y)
    then show ?case by auto
  next
    case (step y z)
    have "y \<noteq> x" using into[of a] step.hyps(1) by auto
    then show ?case using step by (auto intro: trancl_into_trancl)
  qed
  then show ?thesis using assms(1) into unfolding acyclic_def by metis
qed

lemma goodD:
  assumes "good N h s"
  shows "length (m_discoveredOrder s) = N" "length (m_finished s) = N" "length (m_parent s) = N"
    "fin N s \<subseteq> disc N s" "0 \<le> m_discoveredCount s"
    "v \<in> disc N s \<Longrightarrow> 0 \<le> m_discoveredOrder s ! v \<and> m_discoveredOrder s ! v < m_discoveredCount s"
    "edges h `` fin N s \<subseteq> fin N s" "acyclic (edges h \<inter> fin N s \<times> fin N s)"
  using assms unfolding good_def by blast+

lemma finite_disc [simp]: "finite (disc N s)"
  by (simp add: disc_def)

definition discover :: "nat \<Rightarrow> dfs \<Rightarrow> dfs" where
  "discover here s = s\<lparr>m_discoveredOrder := (m_discoveredOrder s)[here := m_discoveredCount s],
     m_discoveredCount := m_discoveredCount s + 1\<rparr>"

definition finish :: "nat \<Rightarrow> dfs \<Rightarrow> dfs" where
  "finish here s = s\<lparr>m_finished := (m_finished s)[here := True]\<rparr>"

lemma discover_good:
  assumes good: "good N h s" and here: "here < N" "here \<notin> disc N s"
  shows "good N h (discover here s)" "disc N (discover here s) = insert here (disc N s)"
    "fin N (discover here s) = fin N s"
    "\<forall>v \<in> disc N s. m_discoveredOrder (discover here s) ! v = m_discoveredOrder s ! v"
    "m_discoveredOrder (discover here s) ! here = m_discoveredCount s"
proof -
  note g = goodD[OF good]
  show d: "disc N (discover here s) = insert here (disc N s)"
    using g(1,5) here by (auto simp: disc_def discover_def nth_list_update split: if_splits)
  show f: "fin N (discover here s) = fin N s" by (simp add: fin_def discover_def)
  show o: "\<forall>v \<in> disc N s. m_discoveredOrder (discover here s) ! v = m_discoveredOrder s ! v"
    using here(2) by (auto simp: discover_def) (metis nth_list_update_neq)
  show oh: "m_discoveredOrder (discover here s) ! here = m_discoveredCount s"
    using g(1) here(1) by (simp add: discover_def)
  have "\<forall>v \<in> insert here (disc N s). 0 \<le> m_discoveredOrder (discover here s) ! v
      \<and> m_discoveredOrder (discover here s) ! v < m_discoveredCount s + 1"
    using g(5,6) o oh by fastforce
  then show "good N h (discover here s)"
    unfolding good_def d f using g by (auto simp: discover_def)
qed

lemma discover_stack:
  assumes good: "good N h s" and here: "here < N" "here \<notin> disc N s" and stk: "stack N h stk s"
    and edge: "stk \<noteq> [] \<Longrightarrow> (hd stk, here) \<in> edges h \<and> m_parent s ! here = int (hd stk)"
  shows "stack N h (here # stk) (discover here s)"
proof -
  note dg = discover_good[OF good here]
  have sub: "set stk \<subseteq> disc N s" using stk by (auto simp: stack_def)
  have "chain h (discover here s) stk = chain h s stk"
    by (rule chain_cong) (use dg(4) sub in \<open>auto simp: discover_def\<close>)
  then have c: "chain h (discover here s) stk" using stk by (simp add: stack_def)
  have "chain h (discover here s) (here # stk)"
  proof (cases stk)
    case (Cons u r)
    have "m_discoveredOrder s ! u < m_discoveredCount s" using goodD(6)[OF good, of u] sub Cons by auto
    then show ?thesis using c edge Cons dg(4,5) sub by (simp add: discover_def)
  qed simp
  then show ?thesis using dg(2,3) stk here goodD(4)[OF good] by (auto simp: stack_def)
qed

lemma finish_good:
  assumes good: "good N h s" and here: "here \<in> disc N s" "here \<notin> fin N s" and out: "edges h `` {here} \<subseteq> fin N s"
  shows "good N h (finish here s)" "disc N (finish here s) = disc N s" "fin N (finish here s) = insert here (fin N s)"
proof -
  note g = goodD[OF good]
  have lt: "here < N" using here by (simp add: disc_def)
  show d: "disc N (finish here s) = disc N s" by (simp add: disc_def finish_def)
  show f: "fin N (finish here s) = insert here (fin N s)"
    using g(2) lt by (auto simp: fin_def finish_def nth_list_update split: if_splits)
  have eq: "edges h \<inter> insert here (fin N s) \<times> insert here (fin N s)
      = (edges h \<inter> fin N s \<times> fin N s) \<union> {here} \<times> (edges h `` {here})"
    using g(7) here(2) out by auto
  have "acyclic (edges h \<inter> insert here (fin N s) \<times> insert here (fin N s))"
    unfolding eq using g(8) here(2) out by (intro acyclic_add_source) auto
  then show "good N h (finish here s)"
    unfolding good_def d f using g here out by (auto simp: finish_def)
qed

lemma parent_update:
  fixes here :: nat
  assumes "there \<notin> disc N s"
  defines "s0 \<equiv> s\<lparr>m_parent := (m_parent s)[there := int here]\<rparr>"
  shows "good N h s0 = good N h s" "disc N s0 = disc N s" "fin N s0 = fin N s" "stack N h stk s \<Longrightarrow> stack N h stk s0"
    "kept N s s0"
proof -
  show d: "disc N s0 = disc N s" and f: "fin N s0 = fin N s" by (simp_all add: s0_def disc_def fin_def)
  show "good N h s0 = good N h s" unfolding good_def d f by (simp add: s0_def)
  have "m_parent s0 ! v = m_parent s ! v" if "v \<in> disc N s" for v
    using assms(1) that unfolding s0_def by (cases "v = there") auto
  then show k: "kept N s s0" unfolding kept_def d f by (simp add: s0_def)
  show "stack N h stk s \<Longrightarrow> stack N h stk s0" using stack_kept k by blast
qed

section \<open>The search is exact\<close>

abbreviation deadlock :: "dfs outcome" where
  "deadlock \<equiv> Inl (CRASH ''DEADLOCK_DETECTED'')"

text \<open>A visited edge that meets neither a white nor a finished lock meets the recursion stack.\<close>

lemma back_edge:
  assumes g: "graph_ok N h" and good: "good N h s" and stk: "stack N h (here # stk) s"
    and e: "(here, there) \<in> edges h" and nf: "there \<in> disc N s" "there \<notin> fin N s"
  shows "report (length (m_parent s)) (m_parent s) (int here) (int there) = deadlock" "\<not> acyclic (edges h)"
    "\<not> m_discoveredOrder s ! here < m_discoveredOrder s ! there"
proof -
  have mem: "there \<in> set (here # stk)" using stk nf by (simp add: stack_def)
  have c: "chain h s (here # stk)" "distinct (here # stk)" using stk by (simp_all add: stack_def)
  have "there \<noteq> here" using e g by (auto simp: graph_ok_def)
  then have ms: "there \<in> set stk" using mem by simp
  have sub: "set (here # stk) \<subseteq> {..<N}" using stk by (auto simp: stack_def disc_def)
  then have "length (here # stk) \<le> N" using c(2) card_mono[of "{..<N}" "set (here # stk)"] distinct_card[OF c(2)] by simp
  then show "report (length (m_parent s)) (m_parent s) (int here) (int there) = deadlock"
    using report_ends[OF c(1) ms] c(2) sub goodD(3)[OF good] by simp
  have "(there, here) \<in> (edges h)\<^sup>*" using chain_path[OF c(1) mem] by blast
  then have "(here, here) \<in> (edges h)\<^sup>+" using e by (rule rtrancl_into_trancl2[rotated])
  then show "\<not> acyclic (edges h)" by (auto simp: acyclic_def)
  show "\<not> m_discoveredOrder s ! here < m_discoveredOrder s ! there" using chain_path[OF c(1) mem] by simp
qed

lemma finish_kept:
  assumes good: "good N h s" and here: "here < N" "here \<notin> disc N s" and k: "kept N (discover here s) s2"
    and g2: "good N h s2" and out: "edges h `` {here} \<subseteq> fin N s2"
  shows "good N h (finish here s2)" "kept N s (finish here s2)" "here \<in> fin N (finish here s2)"
proof -
  note dg = discover_good[OF good here]
  have h2: "here \<in> disc N s2" "here \<notin> fin N s2"
    using k dg(2,3) here(2) goodD(4)[OF good] unfolding kept_def by blast+
  note fg = finish_good[OF g2 h2 out]
  show "good N h (finish here s2)" "here \<in> fin N (finish here s2)" using fg by simp_all
  have "disc N s2 - fin N s2 = insert here (disc N s) - fin N s" using k dg(2,3) by (simp add: kept_def)
  then have "disc N s2 - insert here (fin N s2) = disc N s - fin N s" using here(2) by blast
  moreover have "\<forall>v \<in> disc N s. m_discoveredOrder s2 ! v = m_discoveredOrder s ! v \<and> m_parent s2 ! v = m_parent s ! v"
    using k dg(2,4) by (simp add: kept_def discover_def)
  moreover have "disc N s \<subseteq> disc N s2" "fin N s \<subseteq> fin N s2" using k dg(2,3) by (auto simp: kept_def)
  ultimately show "kept N s (finish here s2)" unfolding kept_def fg by (auto simp: finish_def)
qed

lemma DFS_visit_spec:
  assumes g: "graph_ok N h"
  shows "here < N \<Longrightarrow> here \<notin> disc N s \<Longrightarrow> good N h s \<Longrightarrow> stack N h stk s \<Longrightarrow>
     (stk \<noteq> [] \<Longrightarrow> (hd stk, here) \<in> edges h \<and> m_parent s ! here = int (hd stk)) \<Longrightarrow> N - card (disc N s) < n \<Longrightarrow>
     (\<exists>s'. DFS n h here s = Inr s' \<and> good N h s' \<and> kept N s s' \<and> here \<in> fin N s')
     \<or> (DFS n h here s = deadlock \<and> \<not> acyclic (edges h))"
    and "good N h s \<Longrightarrow> stack N h (here # stk) s \<Longrightarrow> set ts \<subseteq> edges h `` {here} \<Longrightarrow> N - card (disc N s) < n \<Longrightarrow>
     (\<exists>s'. visit n h here ts s = Inr s' \<and> good N h s' \<and> kept N s s' \<and> set ts \<subseteq> fin N s')
     \<or> (visit n h here ts s = deadlock \<and> \<not> acyclic (edges h))"
  using g
proof (induction n h here s and n h here ts s arbitrary: stk and stk rule: DFS_visit.induct)
  case (1 h here s)
  then show ?case by simp
next
  case (2 n h here s)
  have white: "m_discoveredOrder s ! here = -1" using "2.prems"(1,2) by (simp add: disc_def)
  note dg = discover_good[OF "2.prems"(3,1,2)]
  have stk: "stack N h (here # stk) (discover here s)"
    using discover_stack[OF "2.prems"(3,1,2,4)] "2.prems"(5) by blast
  show ?case
  proof (cases "h here")
    case None
    have "edges h `` {here} \<subseteq> fin N (discover here s)" using None by (auto simp: edges_def)
    moreover have "DFS (Suc n) h here s = Inr (finish here (discover here s))"
      using white None by (simp add: discover_def finish_def Let_def)
    ultimately show ?thesis using finish_kept[OF "2.prems"(3,1,2) kept_refl dg(1)] by simp
  next
    case (Some ts)
    have ts: "set ts = edges h `` {here}" using Some by (auto simp: edges_def)
    have eq: "DFS (Suc n) h here s = bindR (visit n h here ts (discover here s)) (\<lambda>s. Inr (finish here s))"
      using white Some by (simp add: discover_def finish_def Let_def)
    have "card (disc N (discover here s)) = Suc (card (disc N s))" using dg(2) "2.prems"(2) by simp
    moreover have "card (disc N s) < N"
      using psubset_card_mono[of "{..<N}" "disc N s"] "2.prems"(1,2) by (auto simp: disc_def)
    ultimately have "N - card (disc N (discover here s)) < n" using "2.prems"(6) by linarith
    then have "(\<exists>s'. visit n h here ts (discover here s) = Inr s' \<and> good N h s' \<and> kept N (discover here s) s' \<and> set ts \<subseteq> fin N s')
      \<or> (visit n h here ts (discover here s) = deadlock \<and> \<not> acyclic (edges h))"
      using "2.IH"[OF _ _ Some] white dg(1) stk ts "2.prems"(7) by (simp add: discover_def)
    then show ?thesis
      using eq finish_kept[OF "2.prems"(3,1,2)] ts by auto
  qed
next
  case (3 n h here s)
  then show ?case by auto
next
  case (4 n h here there ts s)
  have e: "(here, there) \<in> edges h" "set ts \<subseteq> edges h `` {here}" "there < N"
    using "4.prems"(3,5) by (auto simp: graph_ok_def)
  show ?case
  proof (cases "there \<in> disc N s")
    case False
    let ?s0 = "s\<lparr>m_parent := (m_parent s)[there := int here]\<rparr>"
    note pu = parent_update[OF False, where here = here]
    have white: "m_discoveredOrder s ! there = -1" using False e(3) by (simp add: disc_def)
    have par: "m_parent ?s0 ! there = int here" using e(3) goodD(3)[OF "4.prems"(1)] by simp
    have "(\<exists>s'. DFS n h there ?s0 = Inr s' \<and> good N h s' \<and> kept N ?s0 s' \<and> there \<in> fin N s')
      \<or> (DFS n h there ?s0 = deadlock \<and> \<not> acyclic (edges h))"
      by (rule "4.IH"(1)[OF white, of "here # stk"]) (use e False "4.prems" pu par in simp_all)
    then show ?thesis
    proof (elim disjE exE conjE)
      fix s1 assume s1: "DFS n h there ?s0 = Inr s1" "good N h s1" "kept N ?s0 s1" "there \<in> fin N s1"
      have k1: "kept N s s1" using kept_trans[OF pu(5) s1(3)] .
      have "card (disc N s) \<le> card (disc N s1)" using k1 by (intro card_mono) (auto simp: kept_def)
      then have fuel: "N - card (disc N s1) < n" using "4.prems"(4) by linarith
      have "(\<exists>s'. visit n h here ts s1 = Inr s' \<and> good N h s' \<and> kept N s1 s' \<and> set ts \<subseteq> fin N s')
        \<or> (visit n h here ts s1 = deadlock \<and> \<not> acyclic (edges h))"
        by (rule "4.IH"(2)[OF white s1(1) s1(2) stack_kept[OF "4.prems"(2) k1] e(2) fuel "4.prems"(5)])
      moreover have eq: "visit n h here (there # ts) s = visit n h here ts s1" using white s1(1) by simp
      moreover have "there \<in> fin N s'" if "kept N s1 s'" for s' using that s1(4) by (auto simp: kept_def)
      ultimately show ?thesis unfolding eq using kept_trans[OF k1] by (simp only: list.set insert_subset) blast
    qed (use white in simp)
  next
    case True
    then have black: "m_discoveredOrder s ! there \<noteq> -1" by (simp add: disc_def)
    show ?thesis
    proof (cases "there \<in> fin N s")
      case fin: True
      then have f: "m_finished s ! there" by (simp add: fin_def)
      have rest: "(\<exists>s'. visit n h here ts s = Inr s' \<and> good N h s' \<and> kept N s s' \<and> set ts \<subseteq> fin N s')
        \<or> (visit n h here ts s = deadlock \<and> \<not> acyclic (edges h))"
        using "4.IH"(3)[OF black _ "4.prems"(1,2) e(2) "4.prems"(4,5)]
          "4.IH"(4)[OF black _ _ "4.prems"(1,2) e(2) "4.prems"(4,5)] f
        by (cases "m_discoveredOrder s ! here < m_discoveredOrder s ! there") simp_all
      have "visit n h here (there # ts) s = visit n h here ts s" using black f by simp
      moreover have "there \<in> fin N s'" if "kept N s s'" for s' using that fin by (auto simp: kept_def)
      ultimately show ?thesis using rest by (simp only: list.set insert_subset) blast
    next
      case False
      note be = back_edge[OF "4.prems"(5,1,2) e(1) True False]
      have "\<not> m_finished s ! there" using False e(3) by (simp add: fin_def)
      then show ?thesis using be black by simp
    qed
  qed
qed

text \<open>The outer loop over all locks.\<close>

lemma CheckCycle_loop_spec:
  assumes g: "graph_ok N h"
  shows "good N h s \<Longrightarrow> stack N h [] s \<Longrightarrow> set ids \<subseteq> {..<N} \<Longrightarrow>
     (\<exists>s'. CheckCycle_loop h ids N s = Inr s' \<and> good N h s' \<and> fin N s \<union> set ids \<subseteq> fin N s')
     \<or> (CheckCycle_loop h ids N s = deadlock \<and> \<not> acyclic (edges h))"
proof (induction ids arbitrary: s)
  case Nil
  then show ?case by simp
next
  case (Cons i ids)
  have "(\<exists>s'. DFS (Suc N) h i s = Inr s' \<and> good N h s' \<and> kept N s s' \<and> i \<in> fin N s')
     \<or> (DFS (Suc N) h i s = deadlock \<and> \<not> acyclic (edges h))"
  proof (cases "i \<in> disc N s")
    case True
    then have "i \<in> fin N s" using Cons.prems(2) by (auto simp: stack_def)
    then show ?thesis using True Cons.prems(1) by (simp add: disc_def)
  next
    case False
    then show ?thesis using DFS_visit_spec(1)[OF g, of i s "[]" "Suc N"] Cons.prems by simp
  qed
  then show ?case
  proof (elim disjE exE conjE)
    fix s1 assume s1: "DFS (Suc N) h i s = Inr s1" "good N h s1" "kept N s s1" "i \<in> fin N s1"
    have "(\<exists>s'. CheckCycle_loop h ids N s1 = Inr s' \<and> good N h s' \<and> fin N s1 \<union> set ids \<subseteq> fin N s')
      \<or> (CheckCycle_loop h ids N s1 = deadlock \<and> \<not> acyclic (edges h))"
      using Cons.IH[OF s1(2) stack_kept[OF Cons.prems(2) s1(3)]] Cons.prems(3) by simp
    moreover have eq: "CheckCycle_loop h (i # ids) N s = CheckCycle_loop h ids N s1"
      using s1(1) by (simp del: DFS.simps)
    moreover have "fin N s \<union> set (i # ids) \<subseteq> fin N s1 \<union> set ids" using s1(3,4) by (auto simp: kept_def)
    ultimately show ?thesis unfolding eq by (meson order_trans)
  qed (simp del: DFS.simps)
qed

lemma CheckCycle_iff:
  assumes "graph_ok (length (m_nameToId p)) (m_lockHistory p)"
  shows "CheckCycle p = (if acyclic (edges (m_lockHistory p)) then Inr () else Inl (CRASH ''DEADLOCK_DETECTED''))"
proof -
  let ?N = "length (m_nameToId p)" and ?h = "m_lockHistory p"
  let ?s = "\<lparr>m_discoveredOrder = replicate ?N (-1), m_discoveredCount = 0,
    m_finished = replicate ?N False, m_parent = replicate ?N (-1)\<rparr> :: dfs"
  have e: "disc ?N ?s = {}" "fin ?N ?s = {}" by (auto simp: disc_def fin_def)
  have "good ?N ?h ?s" "stack ?N ?h [] ?s" unfolding good_def stack_def e by (simp_all add: acyclic_def)
  moreover have "set [0..<?N] \<subseteq> {..<?N}" by auto
  ultimately have "(\<exists>s'. CheckCycle_loop ?h [0..<?N] ?N ?s = Inr s' \<and> good ?N ?h s' \<and> fin ?N ?s \<union> set [0..<?N] \<subseteq> fin ?N s')
    \<or> (CheckCycle_loop ?h [0..<?N] ?N ?s = deadlock \<and> \<not> acyclic (edges ?h))"
    by (rule CheckCycle_loop_spec[OF assms])
  then have "(\<exists>s'. CheckCycle_loop ?h [0..<?N] ?N ?s = Inr s' \<and> acyclic (edges ?h))
    \<or> (CheckCycle_loop ?h [0..<?N] ?N ?s = deadlock \<and> \<not> acyclic (edges ?h))"
  proof (elim disjE exE conjE)
    fix s' assume s': "CheckCycle_loop ?h [0..<?N] ?N ?s = Inr s'" "good ?N ?h s'"
      "fin ?N ?s \<union> set [0..<?N] \<subseteq> fin ?N s'"
    then have "fin ?N s' = {..<?N}" by (auto simp: fin_def)
    then have "edges ?h \<inter> fin ?N s' \<times> fin ?N s' = edges ?h" using assms by (auto simp: graph_ok_def)
    then show ?thesis using s'(1) goodD(8)[OF s'(2)] by simp
  qed simp_all
  then show ?thesis by (auto simp: CheckCycle_def Let_def)
qed

section \<open>Properties\<close>

text \<open>(C24) The deadlock detector is exact: on the recorded lock graph, \<open>CheckCycle\<close> crashes the program with
  \<^verbatim>\<open>DEADLOCK_DETECTED\<close> exactly when the graph has a cycle, and returns otherwise; neither the recursion nor
  the loop that reports the path runs away or leaves a vector.\<close>

theorem CheckCycle_exact:
  assumes "graph_ok (length (m_nameToId p)) (m_lockHistory p)"
  shows "CheckCycle p = (if acyclic (edges (m_lockHistory p)) then Inr () else Inl (CRASH ''DEADLOCK_DETECTED''))"
  using assms by (rule CheckCycle_iff)

theorem CheckCycle_exact_witness:
  "CheckCycle \<lparr>m_nameToId = [(100, 0), (200, 1)], m_lockHistory = [0 \<mapsto> [1], 1 \<mapsto> [0]]\<rparr>
     = Inl (CRASH ''DEADLOCK_DETECTED'')"
proof -
  let ?p = "\<lparr>m_nameToId = [(100, 0), (200, 1)], m_lockHistory = [0 \<mapsto> [1], 1 \<mapsto> [0]]\<rparr>"
  have e: "edges (m_lockHistory ?p) = {(0, 1), (1, 0)}" by (auto simp: edges_def split: if_splits)
  have "(0, 0) \<in> {(0, 1), (1, 0 :: nat)}\<^sup>+" by (meson insertCI trancl.simps)
  then have "\<not> acyclic (edges (m_lockHistory ?p))" unfolding e acyclic_def by blast
  moreover have "graph_ok (length (m_nameToId ?p)) (m_lockHistory ?p)" unfolding graph_ok_def e by auto
  ultimately show ?thesis using CheckCycle_exact[of ?p] by simp
qed

text \<open>The profiler between two calls: ids are below the number of names, and no cycle was recorded.\<close>

definition prof_inv :: "profiler \<Rightarrow> bool" where
  "prof_inv p \<longleftrightarrow> (\<forall>(name, i) \<in> set (m_nameToId p). i < length (m_nameToId p))
     \<and> graph_ok (length (m_nameToId p)) (m_lockHistory p) \<and> acyclic (edges (m_lockHistory p))"

lemma find_or_issue_inv:
  assumes "prof_inv p" "find_or_issue name p = (i, p1)"
  shows "prof_inv p1" "i < length (m_nameToId p1)" "m_lockHistory p1 = m_lockHistory p"
    "length (m_nameToId p) \<le> length (m_nameToId p1)"
proof -
  show "m_lockHistory p1 = m_lockHistory p" "length (m_nameToId p) \<le> length (m_nameToId p1)"
    using assms(2) by (auto simp: find_or_issue_def split: option.splits)
  show "i < length (m_nameToId p1)"
    using assms by (auto simp: find_or_issue_def prof_inv_def split: option.splits dest!: map_of_SomeD)
  show "prof_inv p1"
    using assms by (auto simp: find_or_issue_def prof_inv_def graph_ok_def split: option.splits) fastforce+
qed

lemma edges_insort:
  "edges (h(u \<mapsto> insort v (case h u of None \<Rightarrow> [] | Some l \<Rightarrow> l))) = insert (u, v) (edges h)"
  by (auto simp: edges_def set_insort_key split: option.splits if_splits)

lemma edges_same:
  "edges (h(u \<mapsto> (case h u of None \<Rightarrow> [] | Some l \<Rightarrow> l))) = edges h"
  by (auto simp: edges_def split: option.splits if_splits)

text \<open>The detector fires on exactly the acquisition that closes a cycle: taking lock \<open>lockId\<close> while
  \<open>prevId\<close> is the innermost lock held crashes when the recorded orders already lead from \<open>lockId\<close> to
  \<open>prevId\<close>; otherwise the new order is recorded, the lock is pushed, and the recorded graph stays free of
  cycles.\<close>

lemma PushLock_detects_inversion:
  assumes "prof_inv p" "find_or_issue name p = (lockId, p1)" "prevId < length (m_nameToId p)" "lockId \<noteq> prevId"
  shows "case PushLock name (prevId # held) p of
      Inl f \<Rightarrow> f = CRASH ''DEADLOCK_DETECTED'' \<and> (lockId, prevId) \<in> (edges (m_lockHistory p))\<^sup>*
    | Inr (locks, p') \<Rightarrow> locks = lockId # prevId # held \<and> prof_inv p'
        \<and> edges (m_lockHistory p') = insert (prevId, lockId) (edges (m_lockHistory p))
        \<and> (lockId, prevId) \<notin> (edges (m_lockHistory p))\<^sup>*"
proof -
  note fi = find_or_issue_inv[OF assms(1,2)]
  let ?h = "m_lockHistory p1" and ?l = "case m_lockHistory p1 prevId of None \<Rightarrow> [] | Some l \<Rightarrow> l"
  have inv1: "graph_ok (length (m_nameToId p1)) ?h" "acyclic (edges ?h)" using fi(1) by (simp_all add: prof_inv_def)
  show ?thesis
  proof (cases "lockId \<in> set ?l")
    case True
    let ?p2 = "p1\<lparr>m_lockHistory := ?h(prevId \<mapsto> ?l)\<rparr>"
    have e: "(prevId, lockId) \<in> edges ?h" using True by (cases "?h prevId") (auto simp: edges_def)
    then have "(lockId, prevId) \<notin> (edges ?h)\<^sup>*"
      using inv1(2) by (meson acyclic_def rtrancl_into_trancl2)
    moreover have "prof_inv ?p2" using fi(1) by (simp add: prof_inv_def graph_ok_def edges_same)
    moreover have "PushLock name (prevId # held) p = Inr (lockId # prevId # held, ?p2)"
      using True assms(2,4) by (cases "?h prevId") (simp_all add: PushLock_def Let_def)
    ultimately show ?thesis using e by (simp add: edges_same fi(3) insert_absorb)
  next
    case False
    let ?p2 = "p1\<lparr>m_lockHistory := ?h(prevId \<mapsto> insort lockId ?l)\<rparr>"
    have e2: "edges (m_lockHistory ?p2) = insert (prevId, lockId) (edges ?h)" by (simp add: edges_insort)
    have g2: "graph_ok (length (m_nameToId ?p2)) (m_lockHistory ?p2)"
      unfolding graph_ok_def e2 using inv1(1) fi(2,4) assms(3,4) by (auto simp: graph_ok_def)
    have push: "PushLock name (prevId # held) p = bindR (CheckCycle ?p2) (\<lambda>_. Inr (lockId # prevId # held, ?p2))"
      using False assms(2,4) by (cases "?h prevId") (simp_all add: PushLock_def Let_def)
    have cyc: "acyclic (edges (m_lockHistory ?p2)) \<longleftrightarrow> (lockId, prevId) \<notin> (edges ?h)\<^sup>*"
      unfolding e2 using inv1(2) by (simp add: acyclic_insert)
    have check: "CheckCycle ?p2 = (if acyclic (edges (m_lockHistory ?p2)) then Inr () else Inl (CRASH ''DEADLOCK_DETECTED''))"
      by (rule CheckCycle_iff[OF g2])
    show ?thesis
    proof (cases "acyclic (edges (m_lockHistory ?p2))")
      case True
      moreover have "prof_inv ?p2" using True g2 fi(1) by (simp add: prof_inv_def)
      ultimately show ?thesis unfolding push check using cyc e2 by (simp add: fi(3))
    next
      case False
      then show ?thesis unfolding push check using cyc by (simp add: fi(3))
    qed
  qed
qed

lemma PushLock_detects_inversion_witness:
  "PushLock 200 [0] \<lparr>m_nameToId = [(100, 0), (200, 1)], m_lockHistory = [1 \<mapsto> [0]]\<rparr> = Inl (CRASH ''DEADLOCK_DETECTED'')"
proof -
  let ?p = "\<lparr>m_nameToId = [(100, 0), (200, 1)], m_lockHistory = [1 \<mapsto> [0]]\<rparr>"
  have e: "edges (m_lockHistory ?p) = {(1, 0)}" by (auto simp: edges_def split: if_splits)
  have "acyclic ({} :: (nat \<times> nat) set)" by (simp add: acyclic_def)
  then have "acyclic {(1, 0 :: nat)}" by (simp only: acyclic_insert) simp
  then have "prof_inv ?p" unfolding prof_inv_def graph_ok_def e by auto
  moreover have "find_or_issue 200 ?p = (1, ?p)" by (simp add: find_or_issue_def)
  moreover have "(1, 0 :: nat) \<in> {(1, 0)}\<^sup>*" by auto
  ultimately show ?thesis
    using PushLock_detects_inversion[of ?p 200 1 ?p 0 "[]"] e
    by (cases "PushLock 200 [0] ?p") auto
qed

end
