(* ===== verification/Guards.thy ===== *)
theory Guards
  imports DeadLockProfiler "HOL-Library.Sublist"
begin

text \<open>
  The lock guards of \<^verbatim>\<open>DhUtil/Lock.h\<close> together with the deadlock detector of the debug build.  A guard calls the
  detector when its block is entered and when it is left; the threads share the detector and have a lock stack each.
  Shown: for blocks that nest, as the guards make them, the detector never mistakes an unlock, and over every
  interleaving of the threads it crashes exactly when the locks were taken in an order that has a cycle.
\<close>

section \<open>Guards\<close>

text \<open>A block with a guard on a lock of the given name, and the blocks inside it.\<close>

datatype scope = Scope nat "scope list"

datatype lock_call = Acquire nat | Release nat

text \<open>The calls a block makes: the guard's constructor, the body, the guard's destructor.\<close>

fun scope_calls :: "scope \<Rightarrow> lock_call list" where
  "scope_calls (Scope name body) = Acquire name # concat (map scope_calls body) @ [Release name]"

abbreviation block_calls :: "scope list \<Rightarrow> lock_call list" where
  "block_calls body \<equiv> concat (map scope_calls body)"

section \<open>The debug build\<close>

text \<open>The detector and the stack of every thread.\<close>

record debug_state =
  LLockStack :: "nat \<Rightarrow> nat list"
  GDeadLockProfiler :: profiler

definition debug0 :: debug_state where
  "debug0 = \<lparr>LLockStack = (\<lambda>_. []), GDeadLockProfiler = \<lparr>m_nameToId = [], m_lockHistory = Map.empty\<rparr>\<rparr>"

text \<open>What the lock operations do before they touch the lock word, on thread \<open>t\<close>.\<close>

fun debug_call :: "nat \<Rightarrow> lock_call \<Rightarrow> debug_state \<Rightarrow> debug_state outcome" where
  "debug_call t (Acquire name) s = bindR (PushLock name (LLockStack s t) (GDeadLockProfiler s))
     (\<lambda>(l, p). Inr (s\<lparr>LLockStack := (LLockStack s)(t := l), GDeadLockProfiler := p\<rparr>))"
| "debug_call t (Release name) s = bindR (PopLock name (LLockStack s t) (GDeadLockProfiler s))
     (\<lambda>(l, p). Inr (s\<lparr>LLockStack := (LLockStack s)(t := l), GDeadLockProfiler := p\<rparr>))"

text \<open>An interleaving of the threads; each call holds the detector's own mutex.\<close>

fun debug_run :: "(nat \<times> lock_call) list \<Rightarrow> debug_state \<Rightarrow> debug_state outcome" where
  "debug_run [] s = Inr s"
| "debug_run ((t, c) # cs) s = bindR (debug_call t c s) (debug_run cs)"

definition calls_of :: "nat \<Rightarrow> (nat \<times> lock_call) list \<Rightarrow> lock_call list" where
  "calls_of t cs = map snd (filter (\<lambda>(u, c). u = t) cs)"

section \<open>What was taken inside what\<close>

text \<open>The guards that are open after some calls, innermost first; nothing when an unlock does not match.\<close>

fun opened :: "nat list \<Rightarrow> lock_call list \<Rightarrow> nat list option" where
  "opened held [] = Some held"
| "opened held (Acquire name # cs) = opened (name # held) cs"
| "opened held (Release name # cs) =
     (case held of [] \<Rightarrow> None | inner # rest \<Rightarrow> if inner = name then opened rest cs else None)"

text \<open>The order in which a sequence of calls took the locks: the innermost lock held, then the one taken.\<close>

definition took_inside :: "(nat \<times> lock_call) list \<Rightarrow> (nat \<times> nat) set" where
  "took_inside cs = {(outer, name). outer \<noteq> name \<and> (\<exists>t pre post rest. cs = pre @ (t, Acquire name) # post
     \<and> opened [] (calls_of t pre) = Some (outer # rest))}"

lemma opened_append: "opened held (cs @ ds) = Option.bind (opened held cs) (\<lambda>h. opened h ds)"
  by (induction held cs rule: opened.induct) (auto split: list.splits)

lemma opened_blocks: "opened held (scope_calls sc) = Some held" "opened held (block_calls body) = Some held"
proof -
  show sc: "opened held (scope_calls sc) = Some held" for held sc
  proof (induction sc arbitrary: held)
    case (Scope name body)
    then have "opened h (block_calls body) = Some h" for h
      by (induction body) (auto simp: opened_append)
    then show ?case by (simp add: opened_append)
  qed
  show "opened held (block_calls body) = Some held"
    by (induction body) (auto simp: opened_append sc)
qed

lemma opened_prefix: "prefix cs (block_calls body) \<Longrightarrow> opened held cs \<noteq> None"
  using opened_blocks(2)[of held body] by (auto simp: prefix_def opened_append bind_eq_Some_conv)

lemma calls_of_simps [simp]:
  "calls_of t [] = []" "calls_of t (cs @ ds) = calls_of t cs @ calls_of t ds"
  "calls_of t ((u, c) # cs) = (if u = t then c # calls_of t cs else calls_of t cs)"
  by (simp_all add: calls_of_def)

lemma took_insideI:
  "opened [] (calls_of t pre) = Some (outer # rest) \<Longrightarrow> outer \<noteq> name \<Longrightarrow> (outer, name) \<in> took_inside (pre @ (t, Acquire name) # post)"
  by (auto simp: took_inside_def)

lemma took_inside_Nil [simp]: "took_inside [] = {}"
  by (simp add: took_inside_def)

lemma took_inside_snoc:
  "took_inside (cs @ [(t, c)]) = took_inside cs \<union>
     {(outer, name). outer \<noteq> name \<and> c = Acquire name \<and> (\<exists>rest. opened [] (calls_of t cs) = Some (outer # rest))}"
  (is "?l = ?a \<union> ?b")
proof (intro equalityI subsetI)
  fix e assume "e \<in> ?l"
  then obtain outer name u pre post rest where e: "e = (outer, name)" "outer \<noteq> name"
    "cs @ [(t, c)] = pre @ (u, Acquire name) # post" "opened [] (calls_of u pre) = Some (outer # rest)"
    by (auto simp: took_inside_def)
  show "e \<in> ?a \<union> ?b"
  proof (cases post rule: rev_cases)
    case Nil
    then show ?thesis using e by auto
  next
    case (snoc post' x)
    then have "cs = pre @ (u, Acquire name) # post'" using e(3) by simp
    then show ?thesis using e(1,2,4) by (auto simp: took_inside_def)
  qed
next
  fix e assume "e \<in> ?a \<union> ?b"
  then show "e \<in> ?l"
  proof
    assume "e \<in> ?a"
    then obtain outer name u pre post rest where e: "e = (outer, name)" "outer \<noteq> name"
      "cs = pre @ (u, Acquire name) # post" "opened [] (calls_of u pre) = Some (outer # rest)"
      by (auto simp: took_inside_def)
    then have "cs @ [(t, c)] = pre @ (u, Acquire name) # (post @ [(t, c)])" by simp
    then show ?thesis using e(1,2,4) unfolding took_inside_def by blast
  qed (auto simp: took_inside_def)
qed

section \<open>Names and numbers\<close>

text \<open>The detector numbers the names in the order it meets them.\<close>

definition lock_id :: "profiler \<Rightarrow> nat \<Rightarrow> nat" where
  "lock_id p name = the (map_of (m_nameToId p) name)"

abbreviation known :: "profiler \<Rightarrow> nat set" where
  "known p \<equiv> dom (map_of (m_nameToId p))"

definition numbered :: "profiler \<Rightarrow> bool" where
  "numbered p \<longleftrightarrow> map snd (m_nameToId p) = [0..<length (m_nameToId p)] \<and> distinct (map fst (m_nameToId p))"

lemma inj_lock_id: "numbered p \<Longrightarrow> inj_on (lock_id p) (known p)"
proof (rule inj_onI)
  fix m n assume p: "numbered p" and mn: "m \<in> known p" "n \<in> known p" "lock_id p m = lock_id p n"
  have "distinct (map snd (m_nameToId p))" using p by (simp add: numbered_def)
  moreover have "(m, lock_id p m) \<in> set (m_nameToId p)" "(n, lock_id p n) \<in> set (m_nameToId p)"
    using mn(1,2) by (auto simp: lock_id_def dest: map_of_SomeD)
  ultimately show "m = n" using mn(3) by (metis distinct_map fst_conv inj_onD snd_conv)
qed

lemma lock_id_less: "prof_inv p \<Longrightarrow> name \<in> known p \<Longrightarrow> lock_id p name < length (m_nameToId p)"
  by (fastforce simp: prof_inv_def lock_id_def dest: map_of_SomeD)

lemma find_or_issue_known:
  assumes "numbered p" "find_or_issue name p = (i, p1)"
  shows "numbered p1" "i = lock_id p1 name" "known p1 = insert name (known p)"
    "m \<in> known p \<Longrightarrow> lock_id p1 m = lock_id p m" "name \<in> known p \<Longrightarrow> p1 = p"
proof -
  have i: "(case map_of (m_nameToId p) name of
        None \<Rightarrow> (length (m_nameToId p), p\<lparr>m_nameToId := m_nameToId p @ [(name, length (m_nameToId p))]\<rparr>)
      | Some lockId \<Rightarrow> (lockId, p)) = (i, p1)"
    using assms(2) by (simp add: find_or_issue_def)
  show "numbered p1" using assms(1) i by (auto simp: numbered_def map_of_eq_None_iff split: option.splits)
  show "i = lock_id p1 name" using i by (auto simp: lock_id_def map_add_def split: option.splits)
  show "known p1 = insert name (known p)" using i by (auto simp: map_add_def split: option.splits if_splits)
  show "m \<in> known p \<Longrightarrow> lock_id p1 m = lock_id p m"
    using i by (auto simp: lock_id_def map_add_def split: option.splits if_splits)
  show "name \<in> known p \<Longrightarrow> p1 = p" using i by (auto split: option.splits)
qed

text \<open>Paths between numbers are paths between names.\<close>

lemma rtrancl_numbers:
  assumes "inj_on f A" "r \<subseteq> A \<times> A" "m \<in> A" "n \<in> A"
  shows "(f m, f n) \<in> (map_prod f f ` r)\<^sup>* \<longleftrightarrow> (m, n) \<in> r\<^sup>*"
proof
  have "x = f m \<Longrightarrow> \<exists>k \<in> A. y = f k \<and> (m, k) \<in> r\<^sup>*" if "(x, y) \<in> (map_prod f f ` r)\<^sup>*" for x y
    using that
  proof (induction rule: rtrancl_induct)
    case (step y z)
    then obtain k a b where "k \<in> A" "y = f k" "(m, k) \<in> r\<^sup>*" "(a, b) \<in> r" "f a = f k" "z = f b" by auto
    then show ?case using assms(1,2) by (metis inj_onD mem_Sigma_iff rtrancl.rtrancl_into_rtrancl subsetD)
  qed (use assms(3) in auto)
  then show "(f m, f n) \<in> (map_prod f f ` r)\<^sup>* \<Longrightarrow> (m, n) \<in> r\<^sup>*"
    using assms(1,4) by (metis inj_onD)
  assume "(m, n) \<in> r\<^sup>*"
  then show "(f m, f n) \<in> (map_prod f f ` r)\<^sup>*"
    by (induction rule: rtrancl_induct) (auto intro: rtrancl_into_rtrancl)
qed

section \<open>The detector follows the guards\<close>

text \<open>After some calls without a crash: the recorded graph is the order in which the locks were taken, which has no
  cycle, and every thread's stack holds the numbers of its open guards.\<close>

definition follows :: "(nat \<times> lock_call) list \<Rightarrow> debug_state \<Rightarrow> bool" where
  "follows cs s \<longleftrightarrow> (let p = GDeadLockProfiler s in
     prof_inv p \<and> numbered p \<and> took_inside cs \<subseteq> known p \<times> known p
   \<and> edges (m_lockHistory p) = map_prod (lock_id p) (lock_id p) ` took_inside cs \<and> acyclic (took_inside cs)
   \<and> (\<forall>t. \<exists>held. opened [] (calls_of t cs) = Some held \<and> set held \<subseteq> known p \<and> LLockStack s t = map (lock_id p) held))"

lemma followsD:
  assumes "follows cs s"
  shows "prof_inv (GDeadLockProfiler s)" "numbered (GDeadLockProfiler s)"
    "took_inside cs \<subseteq> known (GDeadLockProfiler s) \<times> known (GDeadLockProfiler s)"
    "edges (m_lockHistory (GDeadLockProfiler s)) =
       map_prod (lock_id (GDeadLockProfiler s)) (lock_id (GDeadLockProfiler s)) ` took_inside cs"
    "acyclic (took_inside cs)"
    "\<exists>held. opened [] (calls_of t cs) = Some held \<and> set held \<subseteq> known (GDeadLockProfiler s)
       \<and> LLockStack s t = map (lock_id (GDeadLockProfiler s)) held"
  using assms by (simp_all add: follows_def Let_def)

lemma follows_debug0: "follows [] debug0"
  by (simp add: follows_def debug0_def prof_inv_def graph_ok_def edges_def numbered_def acyclic_def)

lemma PushLock_names:
  "PushLock name l p = Inr (l', p') \<Longrightarrow> m_nameToId p' = m_nameToId (snd (find_or_issue name p))"
  by (auto simp: PushLock_def Let_def bindR_def split: prod.splits list.splits if_splits sum.splits)

text \<open>A push that goes through keeps the detector in step, whatever it recorded.\<close>

lemma follows_pushed:
  assumes f: "follows cs s" and fi: "find_or_issue name (GDeadLockProfiler s) = (i, p1)"
    and push: "PushLock name (LLockStack s t) (GDeadLockProfiler s) = Inr (i # LLockStack s t, p2)"
    and inv: "prof_inv p2" and ac: "acyclic (took_inside (cs @ [(t, Acquire name)]))"
    and e: "edges (m_lockHistory p2) = map_prod (lock_id p1) (lock_id p1) ` took_inside (cs @ [(t, Acquire name)])"
  shows "follows (cs @ [(t, Acquire name)]) (s\<lparr>LLockStack := (LLockStack s)(t := i # LLockStack s t), GDeadLockProfiler := p2\<rparr>)"
proof -
  let ?p = "GDeadLockProfiler s" and ?cs = "cs @ [(t, Acquire name)]"
  note num = followsD(2)[OF f] and sub = followsD(3)[OF f] and st = followsD(6)[OF f]
  note k = find_or_issue_known[OF num fi]
  have names: "m_nameToId p2 = m_nameToId p1" using PushLock_names[OF push] fi by simp
  then have id: "lock_id p2 = lock_id p1" and num2: "numbered p2" and kn: "known p2 = insert name (known ?p)"
    using k(1,3) by (auto simp: lock_id_def numbered_def)
  have "took_inside ?cs \<subseteq> known p2 \<times> known p2"
    unfolding took_inside_snoc kn using sub st[of t] by auto
  moreover have "\<exists>held. opened [] (calls_of u ?cs) = Some held \<and> set held \<subseteq> known p2
      \<and> ((LLockStack s)(t := i # LLockStack s t)) u = map (lock_id p2) held" for u
  proof -
    obtain held where h: "opened [] (calls_of u cs) = Some held" "set held \<subseteq> known ?p" "LLockStack s u = map (lock_id ?p) held"
      using st by blast
    then have "map (lock_id p1) held = map (lock_id ?p) held" using k(4) by auto
    then show ?thesis using h k(2) unfolding kn id
      by (cases "u = t") (auto simp: opened_append)
  qed
  ultimately show ?thesis using inv num2 ac e by (simp add: follows_def id Let_def)
qed

text \<open>The order on numbers after a new name was numbered.\<close>

lemma follows_issued:
  assumes "follows cs s" "find_or_issue name (GDeadLockProfiler s) = (i, p1)"
  shows "edges (m_lockHistory (GDeadLockProfiler s)) = map_prod (lock_id p1) (lock_id p1) ` took_inside cs"
proof -
  note k = find_or_issue_known(4)[OF followsD(2)[OF assms(1)] assms(2)]
  have "map_prod (lock_id (GDeadLockProfiler s)) (lock_id (GDeadLockProfiler s)) e = map_prod (lock_id p1) (lock_id p1) e"
    if "e \<in> took_inside cs" for e
    using that followsD(3)[OF assms(1)] k by (cases e) (metis map_prod_simp mem_Sigma_iff subsetD)
  then show ?thesis unfolding followsD(4)[OF assms(1)] by (rule image_cong[OF refl])
qed

lemma follows_acquire:
  assumes f: "follows cs s"
  shows "case debug_call t (Acquire name) s of
      Inr s' \<Rightarrow> follows (cs @ [(t, Acquire name)]) s'
    | Inl x \<Rightarrow> x = CRASH ''DEADLOCK_DETECTED'' \<and> \<not> acyclic (took_inside (cs @ [(t, Acquire name)]))"
proof -
  let ?p = "GDeadLockProfiler s" and ?cs = "cs @ [(t, Acquire name)]"
  obtain i p1 where fi: "find_or_issue name ?p = (i, p1)" by fastforce
  note inv = followsD(1)[OF f] and num = followsD(2)[OF f] and sub = followsD(3)[OF f] and ac = followsD(5)[OF f]
  obtain held where h: "opened [] (calls_of t cs) = Some held" "set held \<subseteq> known ?p" "LLockStack s t = map (lock_id ?p) held"
    using followsD(6)[OF f] by blast
  note k = find_or_issue_known[OF num fi] and fo = find_or_issue_inv[OF inv fi] and e = follows_issued[OF f fi]
  consider "held = []" | rest where "held = name # rest" | outer rest where "held = outer # rest" "outer \<noteq> name"
    by (cases held) auto
  then show ?thesis
  proof cases
    case 1
    then have "took_inside ?cs = took_inside cs" using h(1) by (auto simp: took_inside_snoc)
    then show ?thesis using follows_pushed[OF f fi, of t p1] 1 h(3) fi ac e fo(1,3) by (simp add: PushLock_def)
  next
    case 2
    then have "took_inside ?cs = took_inside cs" "p1 = ?p" using h(1,2) k(5) by (auto simp: took_inside_snoc)
    then show ?thesis using follows_pushed[OF f fi, of t p1] 2 h(3) fi ac e fo(1,3) k(2) by (simp add: PushLock_def)
  next
    case 3
    have ok: "outer \<in> known p1" "name \<in> known p1" "took_inside cs \<subseteq> known p1 \<times> known p1"
      using 3 h(2) k(3) sub by auto
    have top: "LLockStack s t = lock_id p1 outer # map (lock_id ?p) rest" using 3(1) h(2,3) k(4) by simp
    have ne: "i \<noteq> lock_id p1 outer" using inj_lock_id[OF k(1)] ok(1,2) 3(2) k(2) by (metis inj_onD)
    have lt: "lock_id p1 outer < length (m_nameToId ?p)" using lock_id_less[OF inv, of outer] 3(1) h(2) k(4) by simp
    have t': "took_inside ?cs = insert (outer, name) (took_inside cs)" using h(1) 3 by (auto simp: took_inside_snoc)
    have path: "(i, lock_id p1 outer) \<in> (edges (m_lockHistory ?p))\<^sup>* \<longleftrightarrow> (name, outer) \<in> (took_inside cs)\<^sup>*"
      unfolding e k(2) by (rule rtrancl_numbers[OF inj_lock_id[OF k(1)] ok(3,2,1)])
    have cyc: "acyclic (took_inside ?cs) \<longleftrightarrow> (name, outer) \<notin> (took_inside cs)\<^sup>*"
      unfolding t' using ac by (simp add: acyclic_insert)
    note spec = PushLock_detects_inversion[OF inv fi lt ne, of "map (lock_id ?p) rest", folded top]
    show ?thesis
    proof (cases "PushLock name (LLockStack s t) ?p")
      case (Inl x)
      then show ?thesis using spec path cyc by simp
    next
      case (Inr r)
      obtain l p2 where r: "r = (l, p2)" by fastforce
      have "follows ?cs (s\<lparr>LLockStack := (LLockStack s)(t := i # LLockStack s t), GDeadLockProfiler := p2\<rparr>)"
        by (rule follows_pushed[OF f fi]) (use spec Inr r path cyc e k(2) t' top in simp_all)
      then show ?thesis using spec Inr r top by simp
    qed
  qed
qed

lemma follows_release:
  assumes f: "follows cs s" and o: "opened [] (calls_of t (cs @ [(t, Release name)])) \<noteq> None"
  shows "\<exists>s'. debug_call t (Release name) s = Inr s' \<and> follows (cs @ [(t, Release name)]) s'"
proof -
  let ?p = "GDeadLockProfiler s" and ?cs = "cs @ [(t, Release name)]"
  obtain held where h: "opened [] (calls_of t cs) = Some held" "set held \<subseteq> known ?p" "LLockStack s t = map (lock_id ?p) held"
    using followsD(6)[OF f] by blast
  then obtain rest where r: "held = name # rest"
    using o by (cases held) (auto simp: opened_append split: if_splits)
  let ?s = "s\<lparr>LLockStack := (LLockStack s)(t := map (lock_id ?p) rest), GDeadLockProfiler := ?p\<rparr>"
  have "PopLock name (LLockStack s t) ?p = Inr (map (lock_id ?p) rest, ?p)"
    using h(2,3) r by (auto simp: PopLock_def lock_id_def split: option.splits)
  then have "debug_call t (Release name) s = Inr ?s" by simp
  moreover have "\<exists>held. opened [] (calls_of u ?cs) = Some held \<and> set held \<subseteq> known ?p \<and> LLockStack ?s u = map (lock_id ?p) held" for u
  proof (cases "u = t")
    case True
    then show ?thesis using h r by (simp add: opened_append)
  next
    case False
    then show ?thesis using followsD(6)[OF f, of u] by auto
  qed
  moreover have "took_inside ?cs = took_inside cs" by (auto simp: took_inside_snoc)
  ultimately show ?thesis using followsD(1-5)[OF f] by (auto simp: follows_def Let_def)
qed

lemma debug_run_append: "debug_run (cs @ ds) s = bindR (debug_run cs s) (debug_run ds)"
  by (induction cs arbitrary: s) (auto simp: bindR_def split: sum.splits)

lemma debug_run_follows:
  "(\<And>t. opened [] (calls_of t cs) \<noteq> None) \<Longrightarrow> case debug_run cs debug0 of
      Inr s \<Rightarrow> follows cs s
    | Inl x \<Rightarrow> x = CRASH ''DEADLOCK_DETECTED'' \<and> \<not> acyclic (took_inside cs)"
proof (induction cs rule: rev_induct)
  case Nil
  then show ?case by (simp add: follows_debug0)
next
  case (snoc c cs)
  obtain t k where c: "c = (t, k)" by fastforce
  have "opened [] (calls_of u cs) \<noteq> None" for u
    using snoc.prems[of u] c by (cases "opened [] (calls_of u cs)") (auto simp: opened_append)
  note IH = snoc.IH[OF this]
  have mono: "took_inside cs \<subseteq> took_inside (cs @ [c])" unfolding c took_inside_snoc by blast
  show ?case
  proof (cases "debug_run cs debug0")
    case (Inl x)
    then show ?thesis using IH acyclic_subset[OF _ mono] by (auto simp: debug_run_append)
  next
    case (Inr s)
    then have f: "follows cs s" using IH by simp
    show ?thesis
    proof (cases k)
      case (Acquire name)
      then show ?thesis using follows_acquire[OF f, of t name] Inr c
        by (cases "debug_call t (Acquire name) s") (simp_all add: debug_run_append)
    next
      case (Release name)
      then show ?thesis using follows_release[OF f, of t name] snoc.prems[of t] Inr c by (auto simp: debug_run_append)
    qed
  qed
qed

section \<open>A common order\<close>

text \<open>A block takes the locks in the order of their ranks; taking a lock of the name held last again is allowed.\<close>

fun ordered :: "(nat \<Rightarrow> nat) \<Rightarrow> nat list \<Rightarrow> scope \<Rightarrow> bool" where
  "ordered rank held (Scope name body) \<longleftrightarrow>
     (case held of [] \<Rightarrow> True | outer # _ \<Rightarrow> outer = name \<or> rank outer < rank name)
   \<and> (\<forall>b \<in> set body. ordered rank (name # held) b)"

fun in_order :: "(nat \<Rightarrow> nat) \<Rightarrow> nat list \<Rightarrow> lock_call list \<Rightarrow> bool" where
  "in_order rank held [] \<longleftrightarrow> True"
| "in_order rank held (Acquire name # cs) \<longleftrightarrow>
     (case held of [] \<Rightarrow> True | outer # _ \<Rightarrow> outer = name \<or> rank outer < rank name) \<and> in_order rank (name # held) cs"
| "in_order rank held (Release name # cs) \<longleftrightarrow> in_order rank (tl held) cs"

lemma in_order_append:
  "opened held cs = Some h \<Longrightarrow> in_order rank held (cs @ ds) \<longleftrightarrow> in_order rank held cs \<and> in_order rank h ds"
  by (induction held cs rule: opened.induct) (auto split: list.splits if_splits)

lemma in_order_blocks:
  "ordered rank held sc \<Longrightarrow> in_order rank held (scope_calls sc)"
  "\<forall>b \<in> set body. ordered rank held b \<Longrightarrow> in_order rank held (block_calls body)"
proof -
  show sc: "ordered rank held sc \<Longrightarrow> in_order rank held (scope_calls sc)" for held sc
  proof (induction sc arbitrary: held)
    case (Scope name body)
    have "\<forall>b \<in> set body'. in_order rank h (scope_calls b) \<Longrightarrow> in_order rank h (block_calls body')" for h body'
      by (induction body') (auto simp: in_order_append[OF opened_blocks(1)])
    then show ?case using Scope by (simp add: in_order_append[OF opened_blocks(2)])
  qed
  show "\<forall>b \<in> set body. ordered rank held b \<Longrightarrow> in_order rank held (block_calls body)"
    by (induction body) (auto simp: in_order_append[OF opened_blocks(1)] sc)
qed

lemma took_inside_ranked:
  assumes "\<And>t. prefix (calls_of t cs) (block_calls (prog t))" "\<And>t. \<forall>b \<in> set (prog t). ordered rank [] b"
  shows "took_inside cs \<subseteq> {(m, n). rank m < rank n}"
proof
  fix e assume "e \<in> took_inside cs"
  then obtain outer name t pre post rest where e: "e = (outer, name)" "outer \<noteq> name"
    "cs = pre @ (t, Acquire name) # post" "opened [] (calls_of t pre) = Some (outer # rest)"
    by (auto simp: took_inside_def)
  obtain more where "block_calls (prog t) = (calls_of t pre @ Acquire name # calls_of t post) @ more"
    using assms(1)[of t] e(3) by (auto simp: prefix_def)
  then have "in_order rank [] (calls_of t pre @ Acquire name # (calls_of t post @ more))"
    using in_order_blocks(2)[OF assms(2)[of t]] by simp
  then have "in_order rank (outer # rest) (Acquire name # (calls_of t post @ more))"
    by (simp only: in_order_append[OF e(4)])
  then show "e \<in> {(m, n). rank m < rank n}" using e(1,2) by simp
qed

section \<open>Properties\<close>

text \<open>(C15) Guards and the deadlock detector, over every interleaving.  Whatever blocks the threads run, and however their
  calls interleave, the detector never complains about an unlock; it crashes the program exactly when the locks were
  taken in an order with a cycle, and as long as it does not, every thread's stack lists its open guards.\<close>

theorem guards_exact:
  assumes "\<forall>t. prefix (calls_of t cs) (block_calls (prog t))"
  shows "case debug_run cs debug0 of
      Inl x \<Rightarrow> x = CRASH ''DEADLOCK_DETECTED'' \<and> \<not> acyclic (took_inside cs)
    | Inr s \<Rightarrow> acyclic (took_inside cs) \<and> (\<forall>t. \<exists>held. opened [] (calls_of t cs) = Some held
        \<and> map Some (LLockStack s t) = map (map_of (m_nameToId (GDeadLockProfiler s))) held)"
proof (cases "debug_run cs debug0")
  case (Inl x)
  then show ?thesis using debug_run_follows[of cs] opened_prefix assms by fastforce
next
  case (Inr s)
  then have f: "follows cs s" using debug_run_follows[of cs] opened_prefix assms by fastforce
  have "map Some (map (lock_id p) held) = map (map_of (m_nameToId p)) held" if "set held \<subseteq> known p" for p held
    using that by (induction held) (auto simp: lock_id_def)
  then have "\<exists>held. opened [] (calls_of t cs) = Some held
      \<and> map Some (LLockStack s t) = map (map_of (m_nameToId (GDeadLockProfiler s))) held" for t
    using followsD(6)[OF f, of t] by metis
  then show ?thesis using Inr followsD(5)[OF f] by simp
qed

theorem guards_exact_witness:
  "let cs = map (Pair 1) (scope_calls (Scope 100 [Scope 200 []])) @ map (Pair 2) [Acquire 200, Acquire 100] in
   debug_run cs debug0 = Inl (CRASH ''DEADLOCK_DETECTED'')"
proof -
  let ?cs = "map (Pair 1) (scope_calls (Scope 100 [Scope 200 []])) @ map (Pair 2) [Acquire 200, Acquire 100]"
  let ?prog = "\<lambda>t :: nat. if t = 1 then [Scope 100 [Scope 200 []]] else if t = 2 then [Scope 200 [Scope 100 []]] else []"
  have p: "\<forall>t. prefix (calls_of t ?cs) (block_calls (?prog t))" by simp
  have "(100, 200) \<in> took_inside ?cs"
    using took_insideI[of 1 "[(1, Acquire 100)]" 100 "[]" 200] by simp
  moreover have "(200, 100) \<in> took_inside ?cs"
    using took_insideI[of 2 "map (Pair 1) (scope_calls (Scope 100 [Scope 200 []])) @ [(2, Acquire 200)]" 200 "[]" 100 "[]"]
    by simp
  ultimately have "(100, 100) \<in> (took_inside ?cs)\<^sup>+" by (rule trancl.intros(2)[OF r_into_trancl])
  then have "\<not> acyclic (took_inside ?cs)" unfolding acyclic_def by blast
  then show ?thesis using guards_exact[OF p] by (cases "debug_run ?cs debug0") (simp_all add: Let_def)
qed

text \<open>A common lock order keeps the detector quiet.  When the blocks of all threads take the locks in the order of some
  rank, no interleaving crashes, and threads that have left all their blocks hold nothing.\<close>

lemma lock_order_never_crashes:
  assumes "\<forall>t. prefix (calls_of t cs) (block_calls (prog t))" "\<forall>t. \<forall>b \<in> set (prog t). ordered rank [] b"
  shows "\<exists>s. debug_run cs debug0 = Inr s \<and> (\<forall>t. calls_of t cs = block_calls (prog t) \<longrightarrow> LLockStack s t = [])"
proof -
  have "took_inside cs \<subseteq> {(m, n). rank m < rank n}" using took_inside_ranked[of cs prog rank] assms by blast
  moreover have "acyclic {(m, n). rank m < rank n}"
    by (rule acyclicI_order[of _ "\<lambda>n. - int (rank n)"]) simp
  ultimately have "acyclic (took_inside cs)" by (rule acyclic_subset[rotated])
  then obtain s where s: "debug_run cs debug0 = Inr s" "follows cs s"
    using debug_run_follows[of cs] opened_prefix assms(1) by (cases "debug_run cs debug0") fastforce+
  have "LLockStack s t = []" if "calls_of t cs = block_calls (prog t)" for t
    using followsD(6)[OF s(2), of t] that by (simp add: opened_blocks)
  then show ?thesis using s(1) by blast
qed

lemma lock_order_never_crashes_witness:
  "\<exists>s. debug_run [(1, Acquire 100), (2, Acquire 200), (1, Acquire 200), (2, Release 200), (1, Release 200), (1, Release 100)]
     debug0 = Inr s \<and> LLockStack s 1 = [] \<and> LLockStack s 2 = []"
proof -
  let ?cs = "[(1, Acquire 100), (2, Acquire 200), (1, Acquire 200), (2, Release 200), (1, Release 200), (1, Release 100)]"
  let ?prog = "\<lambda>t :: nat. if t = 1 then [Scope 100 [Scope 200 []]] else if t = 2 then [Scope 200 []] else []"
  have "\<forall>t. prefix (calls_of t ?cs) (block_calls (?prog t))" by simp
  moreover have "\<forall>t. \<forall>b \<in> set (?prog t). ordered id [] b" by simp
  ultimately show ?thesis using lock_order_never_crashes[of ?cs ?prog id] by fastforce
qed

end
