(* ===== verification/PacketList.thy ===== *)
theory PacketList
  imports Prelude
begin

text \<open>
  \<^verbatim>\<open>ServerCore/PacketHeader.h\<close> and \<^verbatim>\<open>DhNet_Protocol/{PacketEnum,PacketList}.h\<close>: the packed packet
  structs.  A packet object is the memory it occupies, a byte list that starts at its header; the
  fields of a class are laid out in declaration order without padding (\<^verbatim>\<open>#pragma pack(1)\<close>), and an
  \<open>Init\<close> writes its fields into that memory, leaving every other byte as it was.
\<close>

section \<open>Packet numbers\<close>

datatype PacketEnum =
    Test | Req_KeyExchange | Res_KeyExchange | Encrypted
  | Req_Login | Res_Login | Res_LoginFailed
  | Res_LobbyEnter | Noti_LobbyPlayerEnter | Noti_LobbyPlayerExit | Req_LobbyChat
  | Noti_LobbyChat | Req_RoomList | Res_RoomList
  | Req_RoomEnter | Res_RoomEnter | Noti_RoomEnter | Req_RoomChat | Noti_RoomChat
  | Req_RoomExit | Res_RoomExit | Noti_RoomExit

fun packetNum :: "PacketEnum \<Rightarrow> uint16" where
  "packetNum Test = 0"
| "packetNum Req_KeyExchange = 1"
| "packetNum Res_KeyExchange = 2"
| "packetNum Encrypted = 3"
| "packetNum Req_Login = 10"
| "packetNum Res_Login = 11"
| "packetNum Res_LoginFailed = 12"
| "packetNum Res_LobbyEnter = 30"
| "packetNum Noti_LobbyPlayerEnter = 31"
| "packetNum Noti_LobbyPlayerExit = 32"
| "packetNum Req_LobbyChat = 33"
| "packetNum Noti_LobbyChat = 34"
| "packetNum Req_RoomList = 35"
| "packetNum Res_RoomList = 36"
| "packetNum Req_RoomEnter = 60"
| "packetNum Res_RoomEnter = 61"
| "packetNum Noti_RoomEnter = 62"
| "packetNum Req_RoomChat = 63"
| "packetNum Noti_RoomChat = 64"
| "packetNum Req_RoomExit = 65"
| "packetNum Res_RoomExit = 66"
| "packetNum Noti_RoomExit = 67"

lemma packetNum_inject: "packetNum a = packetNum b \<Longrightarrow> a = b"
  by (cases a; cases b) simp_all

section \<open>Layout\<close>

text \<open>\<^verbatim>\<open>PacketHeader\<close>: \<open>m_packetNum\<close> at offset 0, \<open>m_dataSize\<close> at offset 2.\<close>

definition sizeof_PacketHeader :: nat where
  "sizeof_PacketHeader = 4"

definition m_packetNum :: "byte list \<Rightarrow> uint16" where
  "m_packetNum mem = read_le (bytes_at 0 2 mem)"

definition m_dataSize :: "byte list \<Rightarrow> uint16" where
  "m_dataSize mem = read_le (bytes_at 2 2 mem)"

definition PacketHeader_Init :: "uint16 \<Rightarrow> uint16 \<Rightarrow> byte list \<Rightarrow> byte list" where
  "PacketHeader_Init num sz mem = overwrite 2 (le_bytes 2 sz) (overwrite 0 (le_bytes 2 num) mem)"

definition MAX_PLAIN_PACKET_SIZE :: nat where
  "MAX_PLAIN_PACKET_SIZE = 1280"

definition MAX_LOBBY_PLAYER :: nat where
  "MAX_LOBBY_PLAYER = 50"

definition sizeof_PlayerInfo :: nat where
  "sizeof_PlayerInfo = 8 + 16"

definition sizeof_RoomInfo :: nat where
  "sizeof_RoomInfo = 4 + 4 + 4"

datatype packet_class =
    cls_ReqKeyExchange | cls_ResKeyExchange | cls_EncryptedPacket | cls_TestPacket
  | cls_ReqLogin | cls_ResLoginFailed | cls_ResLogin
  | cls_ReqRoomEnter | cls_ResRoomEnter | cls_NotiRoomEnter
  | cls_ReqRoomChat | cls_NotiRoomChat | cls_ReqRoomExit | cls_ResRoomExit | cls_NotiRoomExit
  | cls_ResLobbyEnter | cls_NotiLobbyPlayerEnter | cls_NotiLobbyPlayerExit
  | cls_ReqLobbyChat | cls_NotiLobbyChat | cls_ReqRoomList | cls_ResRoomList

text \<open>The sizes of the data members of each class, in declaration order.\<close>

fun members :: "packet_class \<Rightarrow> nat list" where
  "members cls_ReqKeyExchange = [65]"
| "members cls_ResKeyExchange = [65]"
| "members cls_EncryptedPacket = [MAX_PLAIN_PACKET_SIZE + 28]"
| "members cls_TestPacket = [256]"
| "members cls_ReqLogin = [16, 64]"
| "members cls_ResLoginFailed = []"
| "members cls_ResLogin = [8, 16]"
| "members cls_ReqRoomEnter = []"
| "members cls_ResRoomEnter = [1]"
| "members cls_NotiRoomEnter = [8, 16]"
| "members cls_ReqRoomChat = [256]"
| "members cls_NotiRoomChat = [8, 16, 256]"
| "members cls_ReqRoomExit = []"
| "members cls_ResRoomExit = [1]"
| "members cls_NotiRoomExit = [8, 16]"
| "members cls_ResLobbyEnter = [4, 4, MAX_LOBBY_PLAYER * sizeof_PlayerInfo]"
| "members cls_NotiLobbyPlayerEnter = [8, 16]"
| "members cls_NotiLobbyPlayerExit = [8, 16]"
| "members cls_ReqLobbyChat = [256]"
| "members cls_NotiLobbyChat = [8, 16, 256]"
| "members cls_ReqRoomList = []"
| "members cls_ResRoomList = [4, 20 * sizeof_RoomInfo]"

definition size_of :: "packet_class \<Rightarrow> nat" where
  "size_of c = sizeof_PacketHeader + sum_list (members c)"

definition offset :: "packet_class \<Rightarrow> nat \<Rightarrow> nat" where
  "offset c i = sizeof_PacketHeader + sum_list (take i (members c))"

abbreviation size16 :: "packet_class \<Rightarrow> uint16" where
  "size16 c \<equiv> of_nat (size_of c)"

lemmas layout_defs = size_of_def offset_def sizeof_PacketHeader_def sizeof_PlayerInfo_def
  sizeof_RoomInfo_def MAX_LOBBY_PLAYER_def MAX_PLAIN_PACKET_SIZE_def

text \<open>A character array member filled by \<^verbatim>\<open>strncpy_s(m, s, sizeof(m) - 1); m[sizeof(m) - 1] = 0\<close>.\<close>

definition put_string :: "nat \<Rightarrow> nat \<Rightarrow> byte list \<Rightarrow> byte list \<Rightarrow> byte list" where
  "put_string off n s mem =
     overwrite off ((strncpy_s (bytes_at off n mem) s (n - 1))[n - 1 := 0]) mem"

definition put64 :: "nat \<Rightarrow> uint64 \<Rightarrow> byte list \<Rightarrow> byte list" where
  "put64 off v mem = overwrite off (le_bytes 8 v) mem"

definition put_int32 :: "nat \<Rightarrow> int \<Rightarrow> byte list \<Rightarrow> byte list" where
  "put_int32 off v mem = overwrite off (le_bytes 4 (word_of_int v :: uint32)) mem"

definition get_int32 :: "nat \<Rightarrow> byte list \<Rightarrow> int" where
  "get_int32 off mem = sint (read_le (bytes_at off 4 mem) :: uint32)"

definition get64 :: "nat \<Rightarrow> byte list \<Rightarrow> uint64" where
  "get64 off mem = read_le (bytes_at off 8 mem)"

section \<open>The packet classes\<close>

definition ReqKeyExchange_Init :: "byte list \<Rightarrow> byte list" where
  "ReqKeyExchange_Init = PacketHeader_Init (packetNum Req_KeyExchange) (size16 cls_ReqKeyExchange)"

definition ResKeyExchange_Init :: "byte list \<Rightarrow> byte list" where
  "ResKeyExchange_Init = PacketHeader_Init (packetNum Res_KeyExchange) (size16 cls_ResKeyExchange)"

definition ReqLogin_Init :: "byte list \<Rightarrow> byte list \<Rightarrow> byte list \<Rightarrow> byte list" where
  "ReqLogin_Init username password mem =
     put_string (offset cls_ReqLogin 1) 64 password
       (put_string (offset cls_ReqLogin 0) 16 username
         (PacketHeader_Init (packetNum Req_Login) (size16 cls_ReqLogin) mem))"

definition ResLoginFailed_Init :: "byte list \<Rightarrow> byte list" where
  "ResLoginFailed_Init = PacketHeader_Init (packetNum Res_LoginFailed) (size16 cls_ResLoginFailed)"

definition ResLogin_Init :: "uint64 \<Rightarrow> byte list \<Rightarrow> byte list \<Rightarrow> byte list" where
  "ResLogin_Init playerId name mem =
     put_string (offset cls_ResLogin 1) 16 name
       (put64 (offset cls_ResLogin 0) playerId
         (PacketHeader_Init (packetNum Res_Login) (size16 cls_ResLogin) mem))"

definition ReqRoomEnter_Init :: "byte list \<Rightarrow> byte list" where
  "ReqRoomEnter_Init = PacketHeader_Init (packetNum Req_RoomEnter) (size16 cls_ReqRoomEnter)"

definition ResRoomEnter_Init :: "bool \<Rightarrow> byte list \<Rightarrow> byte list" where
  "ResRoomEnter_Init isSuccess mem =
     overwrite (offset cls_ResRoomEnter 0) [of_bool isSuccess]
       (PacketHeader_Init (packetNum Res_RoomEnter) (size16 cls_ResRoomEnter) mem)"

definition NotiRoomEnter_Init :: "uint64 \<Rightarrow> byte list \<Rightarrow> byte list \<Rightarrow> byte list" where
  "NotiRoomEnter_Init playerId name mem =
     put_string (offset cls_NotiRoomEnter 1) 16 name
       (put64 (offset cls_NotiRoomEnter 0) playerId
         (PacketHeader_Init (packetNum Noti_RoomEnter) (size16 cls_NotiRoomEnter) mem))"

definition ReqRoomChat_Init :: "byte list \<Rightarrow> byte list \<Rightarrow> byte list" where
  "ReqRoomChat_Init message mem =
     put_string (offset cls_ReqRoomChat 0) 256 message
       (PacketHeader_Init (packetNum Req_RoomChat) (size16 cls_ReqRoomChat) mem)"

definition NotiRoomChat_Init :: "uint64 \<Rightarrow> byte list \<Rightarrow> byte list \<Rightarrow> byte list \<Rightarrow> byte list" where
  "NotiRoomChat_Init playerId name message mem =
     put_string (offset cls_NotiRoomChat 2) 256 message
       (put_string (offset cls_NotiRoomChat 1) 16 name
         (put64 (offset cls_NotiRoomChat 0) playerId
           (PacketHeader_Init (packetNum Noti_RoomChat) (size16 cls_NotiRoomChat) mem)))"

definition ResRoomExit_Init :: "bool \<Rightarrow> byte list \<Rightarrow> byte list" where
  "ResRoomExit_Init isSuccess mem =
     overwrite (offset cls_ResRoomExit 0) [of_bool isSuccess]
       (PacketHeader_Init (packetNum Res_RoomExit) (size16 cls_ResRoomExit) mem)"

definition NotiRoomExit_Init :: "uint64 \<Rightarrow> byte list \<Rightarrow> byte list \<Rightarrow> byte list" where
  "NotiRoomExit_Init playerId name mem =
     put_string (offset cls_NotiRoomExit 1) 16 name
       (put64 (offset cls_NotiRoomExit 0) playerId
         (PacketHeader_Init (packetNum Noti_RoomExit) (size16 cls_NotiRoomExit) mem))"

definition NotiLobbyPlayerEnter_Init :: "uint64 \<Rightarrow> byte list \<Rightarrow> byte list \<Rightarrow> byte list" where
  "NotiLobbyPlayerEnter_Init playerId name mem =
     put_string (offset cls_NotiLobbyPlayerEnter 1) 16 name
       (put64 (offset cls_NotiLobbyPlayerEnter 0) playerId
         (PacketHeader_Init (packetNum Noti_LobbyPlayerEnter) (size16 cls_NotiLobbyPlayerEnter) mem))"

definition NotiLobbyPlayerExit_Init :: "uint64 \<Rightarrow> byte list \<Rightarrow> byte list \<Rightarrow> byte list" where
  "NotiLobbyPlayerExit_Init playerId name mem =
     put_string (offset cls_NotiLobbyPlayerExit 1) 16 name
       (put64 (offset cls_NotiLobbyPlayerExit 0) playerId
         (PacketHeader_Init (packetNum Noti_LobbyPlayerExit) (size16 cls_NotiLobbyPlayerExit) mem))"

definition ReqLobbyChat_Init :: "byte list \<Rightarrow> byte list \<Rightarrow> byte list" where
  "ReqLobbyChat_Init message mem =
     put_string (offset cls_ReqLobbyChat 0) 256 message
       (PacketHeader_Init (packetNum Req_LobbyChat) (size16 cls_ReqLobbyChat) mem)"

definition NotiLobbyChat_Init :: "uint64 \<Rightarrow> byte list \<Rightarrow> byte list \<Rightarrow> byte list \<Rightarrow> byte list" where
  "NotiLobbyChat_Init playerId name message mem =
     put_string (offset cls_NotiLobbyChat 2) 256 message
       (put_string (offset cls_NotiLobbyChat 1) 16 name
         (put64 (offset cls_NotiLobbyChat 0) playerId
           (PacketHeader_Init (packetNum Noti_LobbyChat) (size16 cls_NotiLobbyChat) mem)))"

subsection \<open>ResLobbyEnter and ResRoomList\<close>

definition ResLobbyEnter_Init :: "int \<Rightarrow> byte list \<Rightarrow> byte list" where
  "ResLobbyEnter_Init lobbyIndex mem =
     overwrite (offset cls_ResLobbyEnter 2) (replicate (MAX_LOBBY_PLAYER * sizeof_PlayerInfo) 0)
       (put_int32 (offset cls_ResLobbyEnter 1) 0
         (put_int32 (offset cls_ResLobbyEnter 0) lobbyIndex
           (PacketHeader_Init (packetNum Res_LobbyEnter) (size16 cls_ResLobbyEnter) mem)))"

definition ResLobbyEnter_AddPlayer :: "uint64 \<Rightarrow> byte list \<Rightarrow> byte list \<Rightarrow> byte list" where
  "ResLobbyEnter_AddPlayer playerId playerName mem =
     (let n = get_int32 (offset cls_ResLobbyEnter 1) mem in
      if n \<ge> int MAX_LOBBY_PLAYER then mem
      else let slot = offset cls_ResLobbyEnter 2 + nat n * sizeof_PlayerInfo in
        put_int32 (offset cls_ResLobbyEnter 1) (n + 1)
          (put_string (slot + 8) 16 playerName (put64 slot playerId mem)))"

definition ResRoomList_Init :: "byte list \<Rightarrow> byte list" where
  "ResRoomList_Init mem =
     overwrite (offset cls_ResRoomList 1) (replicate (20 * sizeof_RoomInfo) 0)
       (put_int32 (offset cls_ResRoomList 0) 0
         (PacketHeader_Init (packetNum Res_RoomList) (size16 cls_ResRoomList) mem))"

definition ResRoomList_AddRoom :: "int \<Rightarrow> int \<Rightarrow> int \<Rightarrow> byte list \<Rightarrow> byte list" where
  "ResRoomList_AddRoom roomIndex playerCount maxPlayers mem =
     (let n = get_int32 (offset cls_ResRoomList 0) mem in
      if n \<ge> 20 then mem
      else let slot = offset cls_ResRoomList 1 + nat n * sizeof_RoomInfo in
        put_int32 (offset cls_ResRoomList 0) (n + 1)
          (put_int32 (slot + 8) maxPlayers (put_int32 (slot + 4) playerCount (put_int32 slot roomIndex mem))))"

section \<open>Field laws\<close>

lemma length_PacketHeader_Init [simp]:
  "4 \<le> length mem \<Longrightarrow> length (PacketHeader_Init num sz mem) = length mem"
  by (simp add: PacketHeader_Init_def)

lemma header_Init [simp]:
  assumes "4 \<le> length mem"
  shows "m_packetNum (PacketHeader_Init num sz mem) = num"
    and "m_dataSize (PacketHeader_Init num sz mem) = sz"
  using assms by (simp_all add: PacketHeader_Init_def m_packetNum_def m_dataSize_def)

lemma length_put [simp]:
  "off + n \<le> length mem \<Longrightarrow> 0 < n \<Longrightarrow> length (put_string off n s mem) = length mem"
  "off + 8 \<le> length mem \<Longrightarrow> length (put64 off v mem) = length mem"
  "off + 4 \<le> length mem \<Longrightarrow> length (put_int32 off i mem) = length mem"
  by (simp_all add: put_string_def put64_def put_int32_def)

text \<open>A store to a member leaves the bytes before and after it alone.\<close>

lemma bytes_at_put_string [simp]:
  assumes "0 < n" "off + n \<le> length mem"
  shows "o' + k \<le> off \<Longrightarrow> bytes_at o' k (put_string off n s mem) = bytes_at o' k mem"
    and "off + n \<le> o' \<Longrightarrow> bytes_at o' k (put_string off n s mem) = bytes_at o' k mem"
  using assms by (simp_all add: put_string_def)

lemma bytes_at_put64 [simp]:
  assumes "off + 8 \<le> length mem"
  shows "o' + k \<le> off \<Longrightarrow> bytes_at o' k (put64 off v mem) = bytes_at o' k mem"
    and "off + 8 \<le> o' \<Longrightarrow> bytes_at o' k (put64 off v mem) = bytes_at o' k mem"
  using assms by (simp_all add: put64_def)

lemma bytes_at_put_int32 [simp]:
  assumes "off + 4 \<le> length mem"
  shows "o' + k \<le> off \<Longrightarrow> bytes_at o' k (put_int32 off i mem) = bytes_at o' k mem"
    and "off + 4 \<le> o' \<Longrightarrow> bytes_at o' k (put_int32 off i mem) = bytes_at o' k mem"
  using assms by (simp_all add: put_int32_def)

lemma get_put64 [simp]: "off + 8 \<le> length mem \<Longrightarrow> get64 off (put64 off v mem) = v"
  by (simp add: get64_def put64_def)

lemma get_put_int32 [simp]:
  "off + 4 \<le> length mem \<Longrightarrow> int32_range i \<Longrightarrow> get_int32 off (put_int32 off i mem) = i"
  by (simp add: get_int32_def put_int32_def int32_range_def signed_take_bit_int_eq_self_iff
      sint_sbintrunc')

lemma c_str_bytes_at_put_string [simp]:
  assumes "0 < n" "off + n \<le> length mem"
  shows "c_str (bytes_at off n (put_string off n s mem)) = take (n - 1) (c_str s)"
proof -
  let ?f = "strncpy_s (bytes_at off n mem) s (n - 1)"
  have len: "length ?f = n" using assms by simp
  have c: "c_str ?f = take (n - 1) (c_str s)" using assms by (simp add: c_str_strncpy_s)
  have "c_str (?f[n - 1 := 0]) = c_str ?f"
  proof -
    obtain xs x where f: "?f = xs @ [x]" "length xs = n - 1"
      using len assms by (metis append_butlast_last_id length_0_conv length_butlast not_gr_zero)
    have "takeWhile (\<lambda>b. b \<noteq> 0) (xs @ [0]) = takeWhile (\<lambda>b. b \<noteq> 0) (xs @ [x])"
      if "x \<noteq> 0 \<Longrightarrow> \<exists>y\<in>set xs. y = 0"
      using that by (cases "x = 0") (auto simp: takeWhile_append)
    moreover have "\<exists>y\<in>set xs. y = 0" if "x \<noteq> 0"
    proof (rule ccontr)
      assume no: "\<not> (\<exists>y\<in>set xs. y = 0)"
      then have "0 \<notin> set ?f" using that f by auto
      then have "length (c_str ?f) = n" using len by (metis c_str_id)
      then show False using c assms by simp
    qed
    moreover have "?f[n - 1 := 0] = xs @ [0]" using f by (metis list_update_length)
    ultimately show ?thesis using f(1) by (simp add: c_str_def)
  qed
  then show ?thesis using c len assms by (simp add: put_string_def)
qed

section \<open>Sizes\<close>

lemma size_of_simps [simp]:
  "size_of cls_ResLobbyEnter = 1212"
  "size_of cls_ResRoomList = 248"
  "size_of cls_EncryptedPacket = 1312"
  "size_of cls_ResLogin = 28"
  "size_of cls_ReqLogin = 84"
  "size_of cls_ReqKeyExchange = 69"
  "size_of cls_ResKeyExchange = 69"
  "size_of cls_NotiRoomChat = 284"
  "size_of cls_TestPacket = 260"
  by (simp_all add: layout_defs)

lemma header_le_size_of: "4 \<le> size_of c"
  by (simp add: layout_defs)

lemma size_of_lt_16: "size_of c < 2 ^ 16"
  by (cases c) (simp_all add: layout_defs)

lemma unat_size16: "unat (size16 c) = size_of c"
  using size_of_lt_16[of c] by (simp add: unat_of_nat take_bit_nat_eq_self_iff)

section \<open>The member lists\<close>

abbreviation player_slot :: "nat \<Rightarrow> nat" where
  "player_slot j \<equiv> offset cls_ResLobbyEnter 2 + j * sizeof_PlayerInfo"

text \<open>What a \<open>ResLobbyEnter\<close> holds after \<open>Init\<close> and one \<open>AddPlayer\<close> per element of \<open>ps\<close>.\<close>

definition roster_holds :: "int \<Rightarrow> (uint64 \<times> byte list) list \<Rightarrow> byte list \<Rightarrow> bool" where
  "roster_holds idx ps mem \<longleftrightarrow>
     size_of cls_ResLobbyEnter \<le> length mem
   \<and> m_packetNum mem = packetNum Res_LobbyEnter \<and> m_dataSize mem = size16 cls_ResLobbyEnter
   \<and> get_int32 (offset cls_ResLobbyEnter 0) mem = idx
   \<and> get_int32 (offset cls_ResLobbyEnter 1) mem = int (min MAX_LOBBY_PLAYER (length ps))
   \<and> (\<forall>j < min MAX_LOBBY_PLAYER (length ps).
        get64 (player_slot j) mem = fst (ps ! j)
      \<and> c_str (bytes_at (player_slot j + 8) 16 mem) = take 15 (c_str (snd (ps ! j))))"

lemma roster_Init:
  "size_of cls_ResLobbyEnter \<le> length mem \<Longrightarrow> int32_range idx \<Longrightarrow>
   roster_holds idx [] (ResLobbyEnter_Init idx mem)"
  by (simp add: roster_holds_def ResLobbyEnter_Init_def layout_defs m_packetNum_def m_dataSize_def
      get_int32_def PacketHeader_Init_def put_int32_def int32_range_def
      signed_take_bit_int_eq_self_iff sint_sbintrunc')

lemma roster_AddPlayer:
  assumes R: "roster_holds idx ps mem"
  shows "roster_holds idx (ps @ [(i, s)]) (ResLobbyEnter_AddPlayer i s mem)"
proof (cases "length ps < 50")
  case False
  then show ?thesis using R
    by (simp add: roster_holds_def ResLobbyEnter_AddPlayer_def layout_defs nth_append min_def)
next
  case True
  let ?k = "length ps"
  let ?slot = "player_slot ?k"
  let ?m1 = "put64 ?slot i mem"
  let ?m2 = "put_string (?slot + 8) 16 s ?m1"
  let ?m3 = "put_int32 (offset cls_ResLobbyEnter 1) (int ?k + 1) ?m2"
  have len: "1212 \<le> length mem" using R by (simp add: roster_holds_def)
  have slot: "?slot = 12 + ?k * 24" by (simp add: layout_defs)
  have add: "ResLobbyEnter_AddPlayer i s mem = ?m3"
    using R True by (simp add: ResLobbyEnter_AddPlayer_def roster_holds_def layout_defs Let_def)
  have l: "length ?m1 = length mem" "length ?m2 = length mem" using True len slot by simp_all
  have keep: "bytes_at o' n ?m3 = bytes_at o' n mem"
    if "o' + n \<le> 8 \<or> (12 \<le> o' \<and> o' + n \<le> ?slot)" for o' n
    using that True len l slot by (auto simp: layout_defs)
  have new: "get64 ?slot ?m3 = i" "c_str (bytes_at (?slot + 8) 16 ?m3) = take 15 (c_str s)"
    using True len l slot by (simp_all add: get64_def layout_defs put64_def[of _ i] del: bytes_at_put64)
  have cnt: "get_int32 8 ?m3 = int (min 50 (Suc ?k))"
    using True l len by (simp add: layout_defs int32_range_def)
  show ?thesis
    unfolding add roster_holds_def
  proof (intro conjI allI impI)
    fix j assume j: "j < min MAX_LOBBY_PLAYER (length (ps @ [(i, s)]))"
    have "get64 (player_slot j) ?m3 = fst ((ps @ [(i, s)]) ! j)
      \<and> c_str (bytes_at (player_slot j + 8) 16 ?m3) = take 15 (c_str (snd ((ps @ [(i, s)]) ! j)))"
    proof (cases "j = ?k")
      case True
      then show ?thesis using new by simp
    next
      case False
      then have "j < ?k" using j by (simp add: layout_defs)
      then show ?thesis using R True
          keep[of "player_slot j" 8] keep[of "player_slot j + 8" 16]
        by (simp add: roster_holds_def get64_def layout_defs nth_append)
    qed
    then show "get64 (player_slot j) ?m3 = fst ((ps @ [(i, s)]) ! j)"
      and "c_str (bytes_at (player_slot j + 8) 16 ?m3) = take 15 (c_str (snd ((ps @ [(i, s)]) ! j)))"
      by simp_all
  qed (use R cnt l len keep[of 0 2] keep[of 2 2] keep[of 4 4] in
      \<open>simp_all add: roster_holds_def m_packetNum_def m_dataSize_def get_int32_def layout_defs\<close>)
qed

lemma roster_fold:
  assumes "size_of cls_ResLobbyEnter \<le> length mem" "int32_range idx"
  shows "roster_holds idx ps (fold (\<lambda>(i, s). ResLobbyEnter_AddPlayer i s) ps (ResLobbyEnter_Init idx mem))"
  by (induction ps rule: rev_induct) (auto simp: roster_Init[OF assms] roster_AddPlayer)

end
