(* ===== verification/Interfaces.thy ===== *)
theory Interfaces
  imports Prelude
begin

text \<open>
  The contracts between components, as locales.  Each is interpreted on the model's own definitions
  in the theory of the component that provides it: \<open>run_allocator\<close> by the send pool, \<open>byte_queue\<close>
  by the receive buffer, \<open>invariant_system\<close> by the concurrent components that are step relations,
  \<open>fifo\<close> by the global queue, \<open>slot_gate\<close> by rooms and by lobbies.
\<close>

section \<open>An allocator of disjoint runs\<close>

datatype 'q request = Acquire 'q | Release nat

text \<open>A client's sequence of requests; handles that are not live are not released twice.\<close>

fun serve :: "('q \<Rightarrow> 'p \<Rightarrow> (nat option \<times> 'p) outcome) \<Rightarrow> (nat \<Rightarrow> 'p \<Rightarrow> 'p outcome) \<Rightarrow>
    ('p \<Rightarrow> nat set) \<Rightarrow> 'q request list \<Rightarrow> 'p \<Rightarrow> 'p outcome" where
  "serve alloc release live [] p = Inr p"
| "serve alloc release live (Acquire q # rs) p =
     bindR (alloc q p) (\<lambda>(_, p'). serve alloc release live rs p')"
| "serve alloc release live (Release k # rs) p =
     (if k \<in> live p then bindR (release k p) (serve alloc release live rs)
      else serve alloc release live rs p)"

locale run_allocator =
  fixes inv :: "'p \<Rightarrow> bool"
    and live :: "'p \<Rightarrow> nat set"
    and run :: "'p \<Rightarrow> nat \<Rightarrow> nat set"
    and alloc :: "'q \<Rightarrow> 'p \<Rightarrow> (nat option \<times> 'p) outcome"
    and release :: "nat \<Rightarrow> 'p \<Rightarrow> 'p outcome"
  assumes disjoint: "inv p \<Longrightarrow> k \<in> live p \<Longrightarrow> k' \<in> live p \<Longrightarrow> k \<noteq> k' \<Longrightarrow> run p k \<inter> run p k' = {}"
    and alloc_ok: "inv p \<Longrightarrow> \<exists>r p'. alloc q p = Inr (r, p') \<and> inv p'"
    and alloc_none: "inv p \<Longrightarrow> alloc q p = Inr (None, p') \<Longrightarrow> p' = p"
    and alloc_some: "inv p \<Longrightarrow> alloc q p = Inr (Some k, p') \<Longrightarrow>
      k \<notin> live p \<and> live p' = insert k (live p) \<and> (\<forall>j \<in> live p. run p' j = run p j)"
    and release_ok: "inv p \<Longrightarrow> k \<in> live p \<Longrightarrow>
      \<exists>p'. release k p = Inr p' \<and> inv p' \<and> live p' = live p - {k} \<and> (\<forall>j \<in> live p'. run p' j = run p j)"
begin

text \<open>A handle the client keeps holds on to its run, whatever else is acquired and released.\<close>

lemma serve_ok:
  "inv p \<Longrightarrow> k \<in> live p \<Longrightarrow> Release k \<notin> set rs \<Longrightarrow>
   \<exists>p'. serve alloc release live rs p = Inr p' \<and> inv p' \<and> k \<in> live p' \<and> run p' k = run p k"
proof (induction rs arbitrary: p)
  case Nil
  then show ?case by simp
next
  case (Cons r rs)
  show ?case
  proof (cases r)
    case (Acquire q)
    obtain h p1 where a: "alloc q p = Inr (h, p1)" "inv p1" using alloc_ok[OF Cons.prems(1)] by blast
    have "k \<in> live p1 \<and> run p1 k = run p k"
      using a(1) alloc_none[OF Cons.prems(1)] alloc_some[OF Cons.prems(1)] Cons.prems(2)
      by (cases h) blast+
    then show ?thesis using Cons.IH[OF a(2)] Cons.prems(3) a Acquire by simp
  next
    case (Release j)
    show ?thesis
    proof (cases "j \<in> live p")
      case True
      from release_ok[OF Cons.prems(1) True] obtain p1 where p1: "release j p = Inr p1" "inv p1"
        "live p1 = live p - {j}" "\<forall>i \<in> live p1. run p1 i = run p i" by blast
      then have "k \<in> live p1" "run p1 k = run p k" using Cons.prems Release by auto
      then show ?thesis using Cons.IH[OF p1(2)] Cons.prems(3) p1(1) Release True by simp
    next
      case False
      then show ?thesis using Cons Release by simp
    qed
  qed
qed

lemma serve_inv: "inv p \<Longrightarrow> \<exists>p'. serve alloc release live rs p = Inr p' \<and> inv p'"
proof (induction rs arbitrary: p)
  case Nil
  then show ?case by simp
next
  case (Cons r rs)
  show ?case
  proof (cases r)
    case (Acquire q)
    then show ?thesis using alloc_ok[OF Cons.prems, of q] Cons.IH by fastforce
  next
    case (Release j)
    then show ?thesis using release_ok[OF Cons.prems, of j] Cons.IH Cons.prems
      by (cases "j \<in> live p") fastforce+
  qed
qed

end

section \<open>A byte queue behind a cursor buffer\<close>

text \<open>What the receive path relies on: received bytes are appended, handled bytes are dropped from
  the front, and clean-up keeps the queue and makes room for one more packet of at most
  \<open>quota\<close> bytes.\<close>

locale byte_queue =
  fixes inv :: "'b \<Rightarrow> bool"
    and queue :: "'b \<Rightarrow> byte list"
    and room :: "'b \<Rightarrow> int"
    and quota :: "'b \<Rightarrow> int"
    and put :: "byte list \<Rightarrow> 'b \<Rightarrow> bool \<times> 'b"
    and drop_front :: "int \<Rightarrow> 'b \<Rightarrow> bool \<times> 'b"
    and tidy :: "'b \<Rightarrow> 'b outcome"
  assumes put_ok: "inv b \<Longrightarrow> int (length bs) \<le> room b \<Longrightarrow>
      \<exists>b'. put bs b = (True, b') \<and> inv b' \<and> queue b' = queue b @ bs \<and> quota b' = quota b"
    and drop_ok: "inv b \<Longrightarrow> n \<le> length (queue b) \<Longrightarrow>
      \<exists>b'. drop_front (int n) b = (True, b') \<and> inv b' \<and> queue b' = drop n (queue b) \<and> quota b' = quota b"
    and tidy_ok: "inv b \<Longrightarrow> int (length (queue b)) < quota b \<Longrightarrow>
      \<exists>b'. tidy b = Inr b' \<and> inv b' \<and> queue b' = queue b \<and> quota b' = quota b \<and> quota b \<le> room b'"
begin

text \<open>One receive completion: take what arrived, hand over \<open>n\<close> bytes, tidy.\<close>

lemma receive_round:
  assumes "inv b" "int (length bs) \<le> room b" "n \<le> length (queue b) + length bs"
    "int (length (queue b) + length bs - n) < quota b"
  shows "\<exists>b1 b2 b3. put bs b = (True, b1) \<and> drop_front (int n) b1 = (True, b2) \<and> tidy b2 = Inr b3
    \<and> inv b3 \<and> queue b3 = drop n (queue b @ bs) \<and> quota b3 = quota b \<and> quota b \<le> room b3"
proof -
  obtain b1 where b1: "put bs b = (True, b1)" "inv b1" "queue b1 = queue b @ bs" "quota b1 = quota b"
    using put_ok[OF assms(1,2)] by blast
  obtain b2 where b2: "drop_front (int n) b1 = (True, b2)" "inv b2" "queue b2 = drop n (queue b1)"
    "quota b2 = quota b1" using drop_ok[OF b1(2), of n] assms(3) b1(3) by auto
  have "int (length (queue b2)) < quota b2" using assms(4) b1 b2 by simp
  from tidy_ok[OF b2(2) this] show ?thesis using b1 b2 by auto
qed

end

section \<open>Transition systems with an invariant\<close>

locale invariant_system =
  fixes init :: "'s \<Rightarrow> bool" and step :: "'s \<Rightarrow> 's \<Rightarrow> bool" and inv :: "'s \<Rightarrow> bool"
  assumes inv_init: "init s \<Longrightarrow> inv s"
    and inv_step: "inv s \<Longrightarrow> step s s' \<Longrightarrow> inv s'"
begin

lemma inv_reachable:
  assumes "init s0" "step\<^sup>*\<^sup>* s0 s"
  shows "inv s"
  using assms(2,1) by (induction rule: rtranclp_induct) (auto intro: inv_init inv_step)

end

section \<open>First in, first out\<close>

locale fifo =
  fixes empty :: 'q and push :: "'a \<Rightarrow> 'q \<Rightarrow> 'q" and pop :: "'q \<Rightarrow> 'a option \<times> 'q"
    and items :: "'q \<Rightarrow> 'a list" and inv :: "'q \<Rightarrow> bool"
  assumes empty_ok: "inv empty \<and> items empty = []"
    and push_ok: "inv q \<Longrightarrow> inv (push x q) \<and> items (push x q) = items q @ [x]"
    and pop_nil: "inv q \<Longrightarrow> items q = [] \<Longrightarrow> pop q = (None, q)"
    and pop_cons: "inv q \<Longrightarrow> items q = y # ys \<Longrightarrow> \<exists>q'. pop q = (Some y, q') \<and> inv q' \<and> items q' = ys"
begin

lemma fold_push: "inv q \<Longrightarrow> inv (fold push xs q) \<and> items (fold push xs q) = items q @ xs"
  by (induction xs arbitrary: q) (auto simp: push_ok)

text \<open>What comes out after some pushes is what went in first.\<close>

lemma pop_after_pushes:
  "\<exists>q'. pop (fold push (x # xs) empty) = (Some x, q') \<and> inv q' \<and> items q' = xs"
  using fold_push[of empty "x # xs"] empty_ok by (intro pop_cons) auto

end

section \<open>Counted places\<close>

text \<open>A container with \<open>cap\<close> places: a place is free, taken by a member, or reserved for an entry that is
  still queued.  Every step keeps the balance, so the container never overfills and a queued entry
  always finds its place.\<close>

locale slot_gate =
  fixes cap :: int
    and slots :: "'c \<Rightarrow> int" and members :: "'c \<Rightarrow> nat" and entering :: "'c \<Rightarrow> nat"
    and ok :: "'c \<Rightarrow> bool" and step :: "'c \<Rightarrow> 'c \<Rightarrow> bool"
  assumes step_ok: "ok c \<Longrightarrow> step c c' \<Longrightarrow> ok c'"
    and step_slots: "ok c \<Longrightarrow> step c c' \<Longrightarrow> 0 \<le> slots c \<Longrightarrow> 0 \<le> slots c'"
    and step_balance: "ok c \<Longrightarrow> step c c' \<Longrightarrow>
      slots c' + int (members c') + int (entering c') = slots c + int (members c) + int (entering c)"
begin

lemma steps_balance:
  assumes "step\<^sup>*\<^sup>* c c'" "ok c" "0 \<le> slots c" "slots c + int (members c) + int (entering c) = cap"
  shows "ok c' \<and> 0 \<le> slots c' \<and> slots c' + int (members c') + int (entering c') = cap"
  using assms
proof (induction rule: rtranclp_induct)
  case (step c1 c2)
  then show ?case using step_ok[of c1 c2] step_slots[of c1 c2] step_balance[of c1 c2] by simp
qed simp

lemma never_overfull:
  assumes "step\<^sup>*\<^sup>* c c'" "ok c" "0 \<le> slots c" "slots c + int (members c) + int (entering c) = cap"
  shows "int (members c') + int (entering c') \<le> cap" "0 < entering c' \<Longrightarrow> int (members c') < cap"
  using steps_balance[OF assms] by linarith+

end

end
