(* ===== verification/World.thy ===== *)
theory World
  imports PacketList Interfaces
begin

text \<open>
  The game world of \<^verbatim>\<open>DhNet_Server\<close>: players, rooms, lobbies, the systems that own them and the packet
  handlers that act on them.  Players, rooms and lobbies are objects behind shared pointers; here a
  pointer is an index into a list of the world that only grows.  Rooms and lobbies are job queues: a
  \<open>DoAsync\<close> appends a job to the queue of the object, and running a job is a step of its own, so the
  handlers and the jobs interleave in every order that keeps each queue first-in first-out.  A sent
  packet is recorded in \<open>outbox\<close> with the session it goes to; \<open>msg_bytes\<close> gives its bytes.
\<close>

section \<open>State\<close>

definition MAX_ROOM_PLAYER :: int where "MAX_ROOM_PLAYER = 8"
definition MAX_LOBBY_PLAYERS :: int where "MAX_LOBBY_PLAYERS = 50"
definition MAX_LOBBY_COUNT :: nat where "MAX_LOBBY_COUNT = 5"

record Player =
  m_playerId :: uint64
  m_name :: "byte list"
  m_ownerSession :: nat
  m_currentRoom :: "nat option"
  m_currentLobby :: "nat option"
  m_currentLobbyIndex :: int
  m_currentRoomIndex :: int

datatype msg =
    Msg_ResLogin uint64 "byte list"
  | Msg_ResLoginFailed
  | Msg_NotiRoomEnter uint64 "byte list"
  | Msg_NotiRoomExit uint64 "byte list"
  | Msg_NotiRoomChat uint64 "byte list" "byte list"
  | Msg_ResLobbyEnter int "(uint64 \<times> byte list) list"
  | Msg_NotiLobbyPlayerEnter uint64 "byte list"
  | Msg_NotiLobbyPlayerExit uint64 "byte list"
  | Msg_NotiLobbyChat uint64 "byte list" "byte list"
  | Msg_ResRoomList "(int \<times> int \<times> int) list"
  | Msg_Test "byte list"

text \<open>The packet memory after the \<open>Init\<close> (and \<open>AddPlayer\<close>, \<open>AddRoom\<close>) calls of the message, on whatever
  the send pool's memory held before.\<close>

fun msg_bytes :: "msg \<Rightarrow> byte list \<Rightarrow> byte list" where
  "msg_bytes (Msg_ResLogin i n) mem = ResLogin_Init i n mem"
| "msg_bytes Msg_ResLoginFailed mem = ResLoginFailed_Init mem"
| "msg_bytes (Msg_NotiRoomEnter i n) mem = NotiRoomEnter_Init i n mem"
| "msg_bytes (Msg_NotiRoomExit i n) mem = NotiRoomExit_Init i n mem"
| "msg_bytes (Msg_NotiRoomChat i n s) mem = NotiRoomChat_Init i n s mem"
| "msg_bytes (Msg_ResLobbyEnter l ps) mem =
     fold (\<lambda>(i, s). ResLobbyEnter_AddPlayer i s) ps (ResLobbyEnter_Init l mem)"
| "msg_bytes (Msg_NotiLobbyPlayerEnter i n) mem = NotiLobbyPlayerEnter_Init i n mem"
| "msg_bytes (Msg_NotiLobbyPlayerExit i n) mem = NotiLobbyPlayerExit_Init i n mem"
| "msg_bytes (Msg_NotiLobbyChat i n s) mem = NotiLobbyChat_Init i n s mem"
| "msg_bytes (Msg_ResRoomList rs) mem =
     fold (\<lambda>(r, c, x). ResRoomList_AddRoom r c x) rs (ResRoomList_Init mem)"
| "msg_bytes (Msg_Test t) mem =
     overwrite (offset cls_TestPacket 0) (t @ [0]) (PacketHeader_Init (packetNum Test) (size16 cls_TestPacket) mem)"

datatype room_job = RoomEnter nat | RoomLeave nat | RoomBroadcast msg
datatype lobby_job = LobbyEnter nat | LobbyExit nat | LobbyChat nat "byte list"

record Room =
  m_roomIndex :: int
  room_players :: "(uint64 \<times> nat) list"
  room_slots :: int
  room_jobs :: "room_job list"

record Lobby =
  m_lobbyIndex :: int
  lobby_players :: "(uint64 \<times> nat) list"
  lobby_slots :: int
  lobby_jobs :: "lobby_job list"

text \<open>\<open>online\<close> is the table of \<^verbatim>\<open>PlayerSystem\<close>, \<open>game_sessions\<close> the set of \<^verbatim>\<open>GameSessionSystem\<close>; \<open>alive\<close>
  says whether the session object still exists (whether a weak pointer to it locks), \<open>connected\<close>
  mirrors the flag of the session, \<open>player_of\<close> and \<open>login_done\<close> are \<open>m_player\<close> and \<open>m_loginProcessed\<close>.\<close>

record world =
  players :: "Player list"
  rooms :: "Room list"
  lobbies :: "Lobby list"
  online :: "(uint64 \<times> nat) list"
  game_sessions :: "nat list"
  alive :: "nat \<Rightarrow> bool"
  connected :: "nat \<Rightarrow> bool"
  player_of :: "nat \<Rightarrow> nat option"
  login_done :: "nat \<Rightarrow> bool"
  outbox :: "(nat \<times> msg) list"

definition Room_ctor :: Room where
  "Room_ctor = \<lparr>m_roomIndex = 0, room_players = [], room_slots = MAX_ROOM_PLAYER, room_jobs = []\<rparr>"

definition Lobby_ctor :: Lobby where
  "Lobby_ctor = \<lparr>m_lobbyIndex = 0, lobby_players = [], lobby_slots = MAX_LOBBY_PLAYERS, lobby_jobs = []\<rparr>"

definition LobbySystem_ctor :: "Lobby list" where
  "LobbySystem_ctor = map (\<lambda>i. Lobby_ctor\<lparr>m_lobbyIndex := int i\<rparr>) [0..<MAX_LOBBY_COUNT]"

definition world0 :: world where
  "world0 = \<lparr>players = [], rooms = [], lobbies = LobbySystem_ctor, online = [], game_sessions = [],
     alive = (\<lambda>_. False), connected = (\<lambda>_. False), player_of = (\<lambda>_. None), login_done = (\<lambda>_. False),
     outbox = []\<rparr>"

definition upd_player :: "nat \<Rightarrow> (Player \<Rightarrow> Player) \<Rightarrow> world \<Rightarrow> world" where
  "upd_player p f w = w\<lparr>players := (players w)[p := f (players w ! p)]\<rparr>"

definition upd_room :: "nat \<Rightarrow> (Room \<Rightarrow> Room) \<Rightarrow> world \<Rightarrow> world" where
  "upd_room r f w = w\<lparr>rooms := (rooms w)[r := f (rooms w ! r)]\<rparr>"

definition upd_lobby :: "nat \<Rightarrow> (Lobby \<Rightarrow> Lobby) \<Rightarrow> world \<Rightarrow> world" where
  "upd_lobby l f w = w\<lparr>lobbies := (lobbies w)[l := f (lobbies w ! l)]\<rparr>"

definition send_to :: "nat \<Rightarrow> msg \<Rightarrow> world \<Rightarrow> world" where
  "send_to s m w = w\<lparr>outbox := outbox w @ [(s, m)]\<rparr>"

text \<open>\<open>DoAsync\<close> on a room and on a lobby.\<close>

definition post_room :: "nat \<Rightarrow> room_job \<Rightarrow> world \<Rightarrow> world" where
  "post_room r j = upd_room r (\<lambda>c. c\<lparr>room_jobs := room_jobs c @ [j]\<rparr>)"

definition post_lobby :: "nat \<Rightarrow> lobby_job \<Rightarrow> world \<Rightarrow> world" where
  "post_lobby l j = upd_lobby l (\<lambda>c. c\<lparr>lobby_jobs := lobby_jobs c @ [j]\<rparr>)"

section \<open>Player\<close>

definition Player_ctor :: "nat \<Rightarrow> uint64 \<Rightarrow> byte list \<Rightarrow> Player" where
  "Player_ctor session accountId name = \<lparr>m_playerId = accountId, m_name = name, m_ownerSession = session,
     m_currentRoom = None, m_currentLobby = None, m_currentLobbyIndex = -1, m_currentRoomIndex = -1\<rparr>"

definition GetOwnerSession :: "nat \<Rightarrow> world \<Rightarrow> nat option" where
  "GetOwnerSession p w =
     (let s = m_ownerSession (players w ! p) in if alive w s then Some s else None)"

abbreviation GetPlayerId :: "nat \<Rightarrow> world \<Rightarrow> uint64" where
  "GetPlayerId p w \<equiv> m_playerId (players w ! p)"

abbreviation GetPlayerName :: "nat \<Rightarrow> world \<Rightarrow> byte list" where
  "GetPlayerName p w \<equiv> m_name (players w ! p)"

definition SetCurrentLobby :: "nat \<Rightarrow> nat option \<Rightarrow> world \<Rightarrow> world" where
  "SetCurrentLobby p lobby w = upd_player p (\<lambda>x. x\<lparr>m_currentLobby := lobby,
     m_currentLobbyIndex := (case lobby of Some l \<Rightarrow> m_lobbyIndex (lobbies w ! l) | None \<Rightarrow> -1)\<rparr>) w"

definition SetCurrentRoom :: "nat \<Rightarrow> nat option \<Rightarrow> world \<Rightarrow> world" where
  "SetCurrentRoom p room w = upd_player p (\<lambda>x. x\<lparr>m_currentRoom := room,
     m_currentRoomIndex := (case room of Some r \<Rightarrow> m_roomIndex (rooms w ! r) | None \<Rightarrow> -1)\<rparr>) w"

definition EnterRoom :: "nat \<Rightarrow> world \<Rightarrow> world" where
  "EnterRoom p w = (case m_currentRoom (players w ! p) of
       Some r \<Rightarrow> post_room r (RoomBroadcast (Msg_NotiRoomEnter (GetPlayerId p w) (GetPlayerName p w))) w
     | None \<Rightarrow> w)"

definition EnterRoomFailed :: "nat \<Rightarrow> world \<Rightarrow> world" where
  "EnterRoomFailed p w = w"

definition LeaveRoom :: "nat \<Rightarrow> world \<Rightarrow> world" where
  "LeaveRoom p w =
     (let w1 = (case m_currentRoom (players w ! p) of
          Some r \<Rightarrow> post_room r (RoomBroadcast (Msg_NotiRoomExit (GetPlayerId p w) (GetPlayerName p w)))
                     (post_room r (RoomLeave p) w)
        | None \<Rightarrow> w)
      in upd_player p (\<lambda>x. x\<lparr>m_currentRoom := None, m_currentRoomIndex := -1\<rparr>) w1)"

definition RoomChat :: "nat \<Rightarrow> byte list \<Rightarrow> world \<Rightarrow> world" where
  "RoomChat p message w = (case m_currentRoom (players w ! p) of
       Some r \<Rightarrow> post_room r (RoomBroadcast (Msg_NotiRoomChat (GetPlayerId p w) (GetPlayerName p w) message)) w
     | None \<Rightarrow> w)"

definition LeaveLobby :: "nat \<Rightarrow> world \<Rightarrow> world" where
  "LeaveLobby p w =
     (let w1 = (case m_currentLobby (players w ! p) of Some l \<Rightarrow> post_lobby l (LobbyExit p) w | None \<Rightarrow> w)
      in upd_player p (\<lambda>x. x\<lparr>m_currentLobby := None, m_currentLobbyIndex := -1\<rparr>) w1)"

definition Player_LobbyChat :: "nat \<Rightarrow> byte list \<Rightarrow> world \<Rightarrow> world" where
  "Player_LobbyChat p message w = (case m_currentLobby (players w ! p) of
       Some l \<Rightarrow> post_lobby l (LobbyChat p message) w | None \<Rightarrow> w)"

section \<open>Room\<close>

text \<open>The compare-and-swap loop ends with one successful exchange on the value it read, or on seeing no
  free slot.\<close>

definition Room_TryReserveSlot :: "Room \<Rightarrow> bool \<times> Room" where
  "Room_TryReserveSlot c = (let avail = room_slots c in
     if avail \<le> 0 then (False, c) else (True, c\<lparr>room_slots := avail - 1\<rparr>))"

definition Room_ReleaseReservedSlot :: "Room \<Rightarrow> Room" where
  "Room_ReleaseReservedSlot c = c\<lparr>room_slots := room_slots c + 1\<rparr>"

definition Room_GetPlayerCount :: "Room \<Rightarrow> int" where
  "Room_GetPlayerCount c = MAX_ROOM_PLAYER - room_slots c"

definition Room_Enter :: "nat \<Rightarrow> nat \<Rightarrow> world \<Rightarrow> world" where
  "Room_Enter r p w =
     (if int (length (room_players (rooms w ! r))) \<ge> MAX_ROOM_PLAYER
      then EnterRoomFailed p (upd_room r Room_ReleaseReservedSlot w)
      else case try_emplace (GetPlayerId p w) p (room_players (rooms w ! r)) of
        (False, _) \<Rightarrow> EnterRoomFailed p (upd_room r Room_ReleaseReservedSlot w)
      | (True, m) \<Rightarrow>
          let w1 = SetCurrentRoom p (Some r) (upd_room r (\<lambda>c. c\<lparr>room_players := m\<rparr>) w) in
          if GetOwnerSession p w1 = None
          then upd_room r (\<lambda>c. Room_ReleaseReservedSlot
                 (c\<lparr>room_players := map_erase (GetPlayerId p w1) (room_players c)\<rparr>)) w1
          else EnterRoom p w1)"

definition Room_Leave :: "nat \<Rightarrow> nat \<Rightarrow> world \<Rightarrow> world" where
  "Room_Leave r p w =
     (if map_has (GetPlayerId p w) (room_players (rooms w ! r))
      then upd_room r (\<lambda>c. c\<lparr>room_players := map_erase (GetPlayerId p w) (room_players c),
                              room_slots := room_slots c + 1\<rparr>) w
      else w)"

text \<open>The loop of \<^verbatim>\<open>Room::Broadcast\<close> and \<^verbatim>\<open>Lobby::Broadcast\<close> over the entries of the member map.\<close>

fun broadcast_to :: "msg \<Rightarrow> (uint64 \<times> nat) list \<Rightarrow> world \<Rightarrow> world" where
  "broadcast_to m [] w = w"
| "broadcast_to m ((_, p) # ps) w =
     broadcast_to m ps (case GetOwnerSession p w of Some s \<Rightarrow> send_to s m w | None \<Rightarrow> w)"

definition Room_Broadcast :: "nat \<Rightarrow> msg \<Rightarrow> world \<Rightarrow> world" where
  "Room_Broadcast r m w = broadcast_to m (room_players (rooms w ! r)) w"

fun room_run :: "nat \<Rightarrow> room_job \<Rightarrow> world \<Rightarrow> world" where
  "room_run r (RoomEnter p) w = Room_Enter r p w"
| "room_run r (RoomLeave p) w = Room_Leave r p w"
| "room_run r (RoomBroadcast m) w = Room_Broadcast r m w"

text \<open>One job of the room's queue.\<close>

definition run_room_job :: "nat \<Rightarrow> world \<Rightarrow> world" where
  "run_room_job r w = (case room_jobs (rooms w ! r) of
       [] \<Rightarrow> w | j # js \<Rightarrow> room_run r j (upd_room r (\<lambda>c. c\<lparr>room_jobs := js\<rparr>) w))"

section \<open>Lobby\<close>

definition Lobby_TryReserveSlot :: "Lobby \<Rightarrow> bool \<times> Lobby" where
  "Lobby_TryReserveSlot c = (let avail = lobby_slots c in
     if avail \<le> 0 then (False, c) else (True, c\<lparr>lobby_slots := avail - 1\<rparr>))"

definition Lobby_ReleaseReservedSlot :: "Lobby \<Rightarrow> Lobby" where
  "Lobby_ReleaseReservedSlot c = c\<lparr>lobby_slots := lobby_slots c + 1\<rparr>"

definition Lobby_GetPlayerCount :: "Lobby \<Rightarrow> int" where
  "Lobby_GetPlayerCount c = MAX_LOBBY_PLAYERS - lobby_slots c"

definition Lobby_Broadcast :: "nat \<Rightarrow> msg \<Rightarrow> world \<Rightarrow> world" where
  "Lobby_Broadcast l m w = broadcast_to m (lobby_players (lobbies w ! l)) w"

definition Lobby_Enter :: "nat \<Rightarrow> nat \<Rightarrow> world \<Rightarrow> world" where
  "Lobby_Enter l p w =
     (case try_emplace (GetPlayerId p w) p (lobby_players (lobbies w ! l)) of
        (False, _) \<Rightarrow> upd_lobby l Lobby_ReleaseReservedSlot w
      | (True, m) \<Rightarrow>
          let w1 = SetCurrentLobby p (Some l) (upd_lobby l (\<lambda>c. c\<lparr>lobby_players := m\<rparr>) w) in
          case GetOwnerSession p w1 of
            None \<Rightarrow> upd_lobby l (\<lambda>c. Lobby_ReleaseReservedSlot
                      (c\<lparr>lobby_players := map_erase (GetPlayerId p w1) (lobby_players c)\<rparr>)) w1
          | Some s \<Rightarrow>
              let w2 = broadcast_to (Msg_NotiLobbyPlayerEnter (GetPlayerId p w1) (GetPlayerName p w1))
                         (filter (\<lambda>e. fst e \<noteq> GetPlayerId p w1) (lobby_players (lobbies w1 ! l))) w1
              in send_to s (Msg_ResLobbyEnter (m_lobbyIndex (lobbies w2 ! l))
                   (map (\<lambda>e. (GetPlayerId (snd e) w2, GetPlayerName (snd e) w2))
                        (lobby_players (lobbies w2 ! l)))) w2)"

definition Lobby_Exit :: "nat \<Rightarrow> nat \<Rightarrow> world \<Rightarrow> world" where
  "Lobby_Exit l p w =
     (if \<not> map_has (GetPlayerId p w) (lobby_players (lobbies w ! l)) then w
      else let w1 = upd_lobby l (\<lambda>c. c\<lparr>lobby_players := map_erase (GetPlayerId p w) (lobby_players c),
                                       lobby_slots := lobby_slots c + 1\<rparr>) w
           in Lobby_Broadcast l (Msg_NotiLobbyPlayerExit (GetPlayerId p w1) (GetPlayerName p w1)) w1)"

definition Lobby_Chat :: "nat \<Rightarrow> nat \<Rightarrow> byte list \<Rightarrow> world \<Rightarrow> world" where
  "Lobby_Chat l p message w =
     Lobby_Broadcast l (Msg_NotiLobbyChat (GetPlayerId p w) (GetPlayerName p w) message) w"

fun lobby_run :: "nat \<Rightarrow> lobby_job \<Rightarrow> world \<Rightarrow> world" where
  "lobby_run l (LobbyEnter p) w = Lobby_Enter l p w"
| "lobby_run l (LobbyExit p) w = Lobby_Exit l p w"
| "lobby_run l (LobbyChat p s) w = Lobby_Chat l p s w"

definition run_lobby_job :: "nat \<Rightarrow> world \<Rightarrow> world" where
  "run_lobby_job l w = (case lobby_jobs (lobbies w ! l) of
       [] \<Rightarrow> w | j # js \<Rightarrow> lobby_run l j (upd_lobby l (\<lambda>c. c\<lparr>lobby_jobs := js\<rparr>) w))"

section \<open>RoomSystem\<close>

text \<open>Rooms get consecutive numbers and are never removed, so the map of \<^verbatim>\<open>RoomSystem\<close> is the list of rooms,
  \<open>m_roomNum\<close> its length, and map order is list order.\<close>

definition MakeRoom :: "world \<Rightarrow> (nat \<times> world) outcome" where
  "MakeRoom w =
     (let roomNum = length (rooms w);
          room = Room_ctor\<lparr>m_roomIndex := int roomNum\<rparr>;
          (reserved, room') = Room_TryReserveSlot room
      in ASSERT_CRASH reserved (Inr (roomNum, w\<lparr>rooms := rooms w @ [room']\<rparr>)))"

definition GetRoom :: "int \<Rightarrow> world \<Rightarrow> nat option" where
  "GetRoom roomIndex w =
     (if 0 \<le> roomIndex \<and> roomIndex < int (length (rooms w)) then Some (nat roomIndex) else None)"

text \<open>The loops that take the first room, or the first lobby, with a free slot.\<close>

fun reserve_first :: "('c \<Rightarrow> bool \<times> 'c) \<Rightarrow> nat \<Rightarrow> 'c list \<Rightarrow> (nat \<times> 'c) option" where
  "reserve_first tr i [] = None"
| "reserve_first tr i (c # cs) =
     (case tr c of (True, c') \<Rightarrow> Some (i, c') | (False, _) \<Rightarrow> reserve_first tr (Suc i) cs)"

definition GetNotFullRoom :: "world \<Rightarrow> (nat \<times> world) option" where
  "GetNotFullRoom w = map_option (\<lambda>(r, c). (r, w\<lparr>rooms := (rooms w)[r := c]\<rparr>))
     (reserve_first Room_TryReserveSlot 0 (rooms w))"

section \<open>LobbySystem\<close>

fun best_lobby :: "nat \<Rightarrow> Lobby list \<Rightarrow> nat option \<times> int \<Rightarrow> nat option \<times> int" where
  "best_lobby i [] acc = acc"
| "best_lobby i (c # cs) (best, bestCount) =
     (let cnt = Lobby_GetPlayerCount c in
      if cnt < MAX_LOBBY_PLAYERS \<and> cnt > bestCount then best_lobby (Suc i) cs (Some i, cnt)
      else best_lobby (Suc i) cs (best, bestCount))"

definition AssignLobby :: "world \<Rightarrow> (nat \<times> world) option" where
  "AssignLobby w =
     (let fallback = map_option (\<lambda>(l, c). (l, w\<lparr>lobbies := (lobbies w)[l := c]\<rparr>))
            (reserve_first Lobby_TryReserveSlot 0 (lobbies w))
      in case fst (best_lobby 0 (lobbies w) (None, -1)) of
           None \<Rightarrow> fallback
         | Some l \<Rightarrow> (case Lobby_TryReserveSlot (lobbies w ! l) of
             (True, c) \<Rightarrow> Some (l, w\<lparr>lobbies := (lobbies w)[l := c]\<rparr>)
           | (False, _) \<Rightarrow> fallback))"

definition LeaveRoomAndReenterLobby :: "nat \<Rightarrow> world \<Rightarrow> world" where
  "LeaveRoomAndReenterLobby p w =
     (let w1 = LeaveRoom p w in
      case AssignLobby w1 of Some (l, w2) \<Rightarrow> post_lobby l (LobbyEnter p) w2 | None \<Rightarrow> w1)"

section \<open>PlayerSystem and GameSessionSystem\<close>

text \<open>The table of \<^verbatim>\<open>PlayerSystem\<close> is unordered; the model keeps its entries in key order.\<close>

definition PlayerSystem_Add :: "nat \<Rightarrow> world \<Rightarrow> world" where
  "PlayerSystem_Add p w = w\<lparr>online := snd (try_emplace (GetPlayerId p w) p (online w))\<rparr>"

definition PlayerSystem_Remove :: "nat \<Rightarrow> world \<Rightarrow> world" where
  "PlayerSystem_Remove p w = w\<lparr>online := map_erase (GetPlayerId p w) (online w)\<rparr>"

definition PlayerSystem_Find :: "uint64 \<Rightarrow> world \<Rightarrow> nat option" where
  "PlayerSystem_Find i w = map_of (online w) i"

definition GetPlayers :: "world \<Rightarrow> nat list" where
  "GetPlayers w = map snd (online w)"

definition GameSessionSystem_Add :: "nat \<Rightarrow> world \<Rightarrow> world" where
  "GameSessionSystem_Add s w = w\<lparr>game_sessions := List.insert s (game_sessions w)\<rparr>"

definition GameSessionSystem_Remove :: "nat \<Rightarrow> world \<Rightarrow> world" where
  "GameSessionSystem_Remove s w = w\<lparr>game_sessions := removeAll s (game_sessions w)\<rparr>"

definition GameSessionSystem_Broadcast :: "msg \<Rightarrow> world \<Rightarrow> world" where
  "GameSessionSystem_Broadcast m w = fold (\<lambda>s. send_to s m) (game_sessions w) w"

section \<open>GameSession\<close>

definition GameSession_OnConnected :: "nat \<Rightarrow> world \<Rightarrow> world" where
  "GameSession_OnConnected s w = GameSessionSystem_Add s w"

definition GameSession_OnDisconnected :: "nat \<Rightarrow> world \<Rightarrow> world" where
  "GameSession_OnDisconnected s w =
     (let w1 = (case player_of w s of
          Some p \<Rightarrow> PlayerSystem_Remove p (LeaveRoom p (LeaveLobby p w))
        | None \<Rightarrow> w)
      in GameSessionSystem_Remove s (w1\<lparr>player_of := (player_of w1)(s := None)\<rparr>))"

text \<open>\<^verbatim>\<open>Session::Disconnect\<close>, as far as the game world sees it.\<close>

definition World_Disconnect :: "nat \<Rightarrow> world \<Rightarrow> world" where
  "World_Disconnect s w =
     (if \<not> connected w s then w
      else GameSession_OnDisconnected s (w\<lparr>connected := (connected w)(s := False)\<rparr>))"

definition OnLoginResult :: "bool \<Rightarrow> uint64 \<Rightarrow> byte list \<Rightarrow> nat \<Rightarrow> world \<Rightarrow> world" where
  "OnLoginResult ok accountId playerName s w =
     (if login_done w s then w
      else let w1 = w\<lparr>login_done := (login_done w)(s := True)\<rparr> in
      if \<not> connected w1 s then w1
      else if \<not> ok then World_Disconnect s (send_to s Msg_ResLoginFailed w1)
      else
        let p = length (players w1);
            w2 = w1\<lparr>players := players w1 @ [Player_ctor s accountId playerName],
                     player_of := (player_of w1)(s := Some p)\<rparr>;
            w3 = PlayerSystem_Add p w2;
            w4 = send_to s (Msg_ResLogin (GetPlayerId p w3) (GetPlayerName p w3)) w3
        in case AssignLobby w4 of Some (l, w5) \<Rightarrow> post_lobby l (LobbyEnter p) w5 | None \<Rightarrow> w4)"

section \<open>The packet handlers\<close>

text \<open>A handler gets the memory the decrypted packet lies in and the session; \<open>cstring\<close> reads a character
  array as a C string, which runs on behind the member when it holds no terminator.\<close>

definition cstring :: "nat \<Rightarrow> byte list \<Rightarrow> byte list outcome" where
  "cstring off mem = (if 0 \<in> set (drop off mem) then Inr (c_str (drop off mem))
     else Inl (UB ''string not terminated''))"

definition HandleReqRoomEnterPacket :: "byte list \<Rightarrow> nat \<Rightarrow> world \<Rightarrow> (bool \<times> world) outcome" where
  "HandleReqRoomEnterPacket mem s w = (case player_of w s of
       None \<Rightarrow> Inr (False, w)
     | Some p \<Rightarrow>
         let w1 = LeaveLobby p w in
         bindR (case GetNotFullRoom w1 of Some rw \<Rightarrow> Inr rw | None \<Rightarrow> MakeRoom w1)
           (\<lambda>(r, w2). Inr (True, post_room r (RoomEnter p) w2)))"

definition HandleReqRoomChatPacket :: "byte list \<Rightarrow> nat \<Rightarrow> world \<Rightarrow> (bool \<times> world) outcome" where
  "HandleReqRoomChatPacket mem s w = (case player_of w s of
       None \<Rightarrow> Inr (False, w)
     | Some p \<Rightarrow> bindR (cstring (offset cls_ReqRoomChat 0) mem)
         (\<lambda>message. Inr (True, RoomChat p message w)))"

definition HandleReqRoomExitPacket :: "byte list \<Rightarrow> nat \<Rightarrow> world \<Rightarrow> (bool \<times> world) outcome" where
  "HandleReqRoomExitPacket mem s w = (case player_of w s of
       None \<Rightarrow> Inr (False, w)
     | Some p \<Rightarrow> Inr (True, LeaveRoomAndReenterLobby p w))"

definition HandleReqLobbyChatPacket :: "byte list \<Rightarrow> nat \<Rightarrow> world \<Rightarrow> (bool \<times> world) outcome" where
  "HandleReqLobbyChatPacket mem s w = (case player_of w s of
       None \<Rightarrow> Inr (False, w)
     | Some p \<Rightarrow> bindR (cstring (offset cls_ReqLobbyChat 0) mem)
         (\<lambda>message. Inr (True, Player_LobbyChat p message w)))"

definition HandleReqRoomListPacket :: "byte list \<Rightarrow> nat \<Rightarrow> world \<Rightarrow> (bool \<times> world) outcome" where
  "HandleReqRoomListPacket mem s w = (case player_of w s of
       None \<Rightarrow> Inr (False, w)
     | Some p \<Rightarrow>
         let list = map (\<lambda>c. (m_roomIndex c, Room_GetPlayerCount c, MAX_ROOM_PLAYER)) (rooms w) in
         case GetOwnerSession p w of
           None \<Rightarrow> Inl (UB ''null session'')
         | Some o' \<Rightarrow> Inr (True, send_to o' (Msg_ResRoomList list) w))"

section \<open>Interleavings\<close>

text \<open>A session object is created and connected, lives at least as long as it is connected or has a
  player attached, and its address is not reused.  Everything else is a handler, a login result, a
  disconnect, or one job of a room or a lobby.\<close>

inductive wstep :: "world \<Rightarrow> world \<Rightarrow> bool" where
  connect: "\<not> connected w s \<Longrightarrow> \<not> login_done w s \<Longrightarrow> player_of w s = None \<Longrightarrow>
     wstep w (GameSession_OnConnected s (w\<lparr>alive := (alive w)(s := True), connected := (connected w)(s := True)\<rparr>))"
| login: "wstep w (OnLoginResult ok i n s w)"
| room_enter: "connected w s \<Longrightarrow> HandleReqRoomEnterPacket mem s w = Inr (b, w') \<Longrightarrow> wstep w w'"
| room_chat: "connected w s \<Longrightarrow> HandleReqRoomChatPacket mem s w = Inr (b, w') \<Longrightarrow> wstep w w'"
| room_exit: "connected w s \<Longrightarrow> HandleReqRoomExitPacket mem s w = Inr (b, w') \<Longrightarrow> wstep w w'"
| lobby_chat: "connected w s \<Longrightarrow> HandleReqLobbyChatPacket mem s w = Inr (b, w') \<Longrightarrow> wstep w w'"
| room_list: "connected w s \<Longrightarrow> HandleReqRoomListPacket mem s w = Inr (b, w') \<Longrightarrow> wstep w w'"
| disconnect: "wstep w (World_Disconnect s w)"
| destroy: "\<not> connected w s \<Longrightarrow> wstep w (w\<lparr>alive := (alive w)(s := False)\<rparr>)"
| room_job: "r < length (rooms w) \<Longrightarrow> wstep w (run_room_job r w)"
| lobby_job: "l < length (lobbies w) \<Longrightarrow> wstep w (run_lobby_job l w)"

section \<open>Rooms and lobbies as counted places\<close>

fun is_room_enter :: "room_job \<Rightarrow> bool" where
  "is_room_enter (RoomEnter p) \<longleftrightarrow> True" | "is_room_enter _ \<longleftrightarrow> False"

fun is_lobby_enter :: "lobby_job \<Rightarrow> bool" where
  "is_lobby_enter (LobbyEnter p) \<longleftrightarrow> True" | "is_lobby_enter _ \<longleftrightarrow> False"

abbreviation room_entering :: "Room \<Rightarrow> nat" where
  "room_entering c \<equiv> length (filter is_room_enter (room_jobs c))"

abbreviation lobby_entering :: "Lobby \<Rightarrow> nat" where
  "lobby_entering c \<equiv> length (filter is_lobby_enter (lobby_jobs c))"

text \<open>What a single room goes through.\<close>

inductive room_step :: "Room \<Rightarrow> Room \<Rightarrow> bool" where
  post: "\<not> is_room_enter j \<Longrightarrow> room_step c (c\<lparr>room_jobs := room_jobs c @ [j]\<rparr>)"
| reserve: "Room_TryReserveSlot c = (True, c') \<Longrightarrow>
    room_step c (c'\<lparr>room_jobs := room_jobs c' @ [RoomEnter p]\<rparr>)"
| refused: "room_jobs c = RoomEnter p # js \<Longrightarrow>
    room_step c (Room_ReleaseReservedSlot (c\<lparr>room_jobs := js\<rparr>))"
| entered: "room_jobs c = RoomEnter p # js \<Longrightarrow> \<not> map_has i (room_players c) \<Longrightarrow>
    room_step c (c\<lparr>room_jobs := js, room_players := map_insert i p (room_players c)\<rparr>)"
| left: "room_jobs c = RoomLeave p # js \<Longrightarrow> map_has i (room_players c) \<Longrightarrow>
    room_step c (c\<lparr>room_jobs := js, room_players := map_erase i (room_players c), room_slots := room_slots c + 1\<rparr>)"
| finished: "room_jobs c = j # js \<Longrightarrow> \<not> is_room_enter j \<Longrightarrow> room_step c (c\<lparr>room_jobs := js\<rparr>)"

inductive lobby_step :: "Lobby \<Rightarrow> Lobby \<Rightarrow> bool" where
  post: "\<not> is_lobby_enter j \<Longrightarrow> lobby_step c (c\<lparr>lobby_jobs := lobby_jobs c @ [j]\<rparr>)"
| reserve: "Lobby_TryReserveSlot c = (True, c') \<Longrightarrow>
    lobby_step c (c'\<lparr>lobby_jobs := lobby_jobs c' @ [LobbyEnter p]\<rparr>)"
| refused: "lobby_jobs c = LobbyEnter p # js \<Longrightarrow>
    lobby_step c (Lobby_ReleaseReservedSlot (c\<lparr>lobby_jobs := js\<rparr>))"
| entered: "lobby_jobs c = LobbyEnter p # js \<Longrightarrow> \<not> map_has i (lobby_players c) \<Longrightarrow>
    lobby_step c (c\<lparr>lobby_jobs := js, lobby_players := map_insert i p (lobby_players c)\<rparr>)"
| left: "lobby_jobs c = LobbyExit p # js \<Longrightarrow> map_has i (lobby_players c) \<Longrightarrow>
    lobby_step c (c\<lparr>lobby_jobs := js, lobby_players := map_erase i (lobby_players c), lobby_slots := lobby_slots c + 1\<rparr>)"
| finished: "lobby_jobs c = j # js \<Longrightarrow> \<not> is_lobby_enter j \<Longrightarrow> lobby_step c (c\<lparr>lobby_jobs := js\<rparr>)"

abbreviation keys_sorted :: "(uint64 \<times> nat) list \<Rightarrow> bool" where
  "keys_sorted m \<equiv> sorted_wrt (<) (map fst m)"

lemma keys_sorted_distinct: "keys_sorted m \<Longrightarrow> distinct (map fst m)"
  using strict_sorted_iff by blast

lemmas slot_defs = Room_TryReserveSlot_def Room_ReleaseReservedSlot_def Lobby_TryReserveSlot_def
  Lobby_ReleaseReservedSlot_def Let_def

interpretation room: slot_gate MAX_ROOM_PLAYER room_slots "\<lambda>c. length (room_players c)" room_entering
  "\<lambda>c. keys_sorted (room_players c)" room_step
proof
  fix c c' assume s: "keys_sorted (room_players c)" and step: "room_step c c'"
  show "keys_sorted (room_players c')" using step s
    by cases (auto simp: slot_defs sorted_map_insert sorted_map_erase split: if_splits)
  show "0 \<le> room_slots c'" if "0 \<le> room_slots c" using step that
    by cases (auto simp: slot_defs split: if_splits)
  show "room_slots c' + int (length (room_players c')) + int (room_entering c')
      = room_slots c + int (length (room_players c)) + int (room_entering c)"
    using step
  proof cases
    case (left p js i)
    then show ?thesis using length_map_erase[OF keys_sorted_distinct[OF s], of i] by simp
  qed (auto simp: slot_defs length_map_insert split: if_splits)
qed

interpretation lobby: slot_gate MAX_LOBBY_PLAYERS lobby_slots "\<lambda>c. length (lobby_players c)" lobby_entering
  "\<lambda>c. keys_sorted (lobby_players c)" lobby_step
proof
  fix c c' assume s: "keys_sorted (lobby_players c)" and step: "lobby_step c c'"
  show "keys_sorted (lobby_players c')" using step s
    by cases (auto simp: slot_defs sorted_map_insert sorted_map_erase split: if_splits)
  show "0 \<le> lobby_slots c'" if "0 \<le> lobby_slots c" using step that
    by cases (auto simp: slot_defs split: if_splits)
  show "lobby_slots c' + int (length (lobby_players c')) + int (lobby_entering c')
      = lobby_slots c + int (length (lobby_players c)) + int (lobby_entering c)"
    using step
  proof cases
    case (left p js i)
    then show ?thesis using length_map_erase[OF keys_sorted_distinct[OF s], of i] by simp
  qed (auto simp: slot_defs length_map_insert split: if_splits)
qed

section \<open>How the world evolves\<close>

definition room_origin :: "world \<Rightarrow> nat \<Rightarrow> Room" where
  "room_origin w r = (if r < length (rooms w) then rooms w ! r else Room_ctor\<lparr>m_roomIndex := int r\<rparr>)"

abbreviation same_player :: "Player \<Rightarrow> Player \<Rightarrow> bool" where
  "same_player x y \<equiv> m_playerId y = m_playerId x \<and> m_name y = m_name x \<and> m_ownerSession y = m_ownerSession x"

text \<open>Between two worlds every room and every lobby made steps of its own, new rooms come from the
  constructor, and players keep their identity.\<close>

definition evolves :: "world \<Rightarrow> world \<Rightarrow> bool" where
  "evolves w w' \<longleftrightarrow>
     length (rooms w) \<le> length (rooms w') \<and> length (lobbies w') = length (lobbies w)
   \<and> length (players w) \<le> length (players w')
   \<and> (\<forall>r < length (rooms w'). room_step\<^sup>*\<^sup>* (room_origin w r) (rooms w' ! r))
   \<and> (\<forall>l < length (lobbies w). lobby_step\<^sup>*\<^sup>* (lobbies w ! l) (lobbies w' ! l))
   \<and> (\<forall>p < length (players w). same_player (players w ! p) (players w' ! p))"

lemma evolves_refl: "evolves w w"
  by (simp add: evolves_def room_origin_def)

lemma evolves_trans:
  assumes "evolves w w1" "evolves w1 w2"
  shows "evolves w w2"
  unfolding evolves_def
proof (intro conjI allI impI)
  fix r assume r: "r < length (rooms w2)"
  have a: "room_step\<^sup>*\<^sup>* (room_origin w1 r) (rooms w2 ! r)" using assms(2) r by (simp add: evolves_def)
  have "room_step\<^sup>*\<^sup>* (room_origin w r) (room_origin w1 r)"
    using assms(1) by (auto simp: evolves_def room_origin_def)
  then show "room_step\<^sup>*\<^sup>* (room_origin w r) (rooms w2 ! r)" using a by simp
next
  fix l assume "l < length (lobbies w)"
  then show "lobby_step\<^sup>*\<^sup>* (lobbies w ! l) (lobbies w2 ! l)" using assms
    by (metis (lifting) evolves_def rtranclp_trans)
qed (use assms in \<open>auto simp: evolves_def\<close>)

lemma evolves_upd_room:
  "(r < length (rooms w) \<Longrightarrow> room_step\<^sup>*\<^sup>* (rooms w ! r) (f (rooms w ! r))) \<Longrightarrow> evolves w (upd_room r f w)"
  by (auto simp: evolves_def upd_room_def room_origin_def nth_update_if)

lemma evolves_upd_lobby:
  "(l < length (lobbies w) \<Longrightarrow> lobby_step\<^sup>*\<^sup>* (lobbies w ! l) (f (lobbies w ! l))) \<Longrightarrow> evolves w (upd_lobby l f w)"
  by (auto simp: evolves_def upd_lobby_def room_origin_def nth_update_if)

lemma evolves_upd_player:
  "(\<And>x. same_player x (f x)) \<Longrightarrow> evolves w (upd_player p f w)"
  by (auto simp: evolves_def upd_player_def room_origin_def nth_update_if)

text \<open>Whatever else changes in the world, rooms, lobbies and players decide.\<close>

lemma evolves_cong:
  "evolves w w1 \<Longrightarrow> rooms w2 = rooms w1 \<Longrightarrow> lobbies w2 = lobbies w1 \<Longrightarrow> players w2 = players w1 \<Longrightarrow> evolves w w2"
  by (simp add: evolves_def)

lemma evolves_post_room: "\<not> is_room_enter j \<Longrightarrow> evolves w (post_room r j w)"
  unfolding post_room_def by (rule evolves_upd_room) (blast intro: room_step.post)

lemma evolves_post_lobby: "\<not> is_lobby_enter j \<Longrightarrow> evolves w (post_lobby l j w)"
  unfolding post_lobby_def by (rule evolves_upd_lobby) (blast intro: lobby_step.post)

text \<open>Who gets a broadcast.\<close>

definition receivers :: "world \<Rightarrow> (uint64 \<times> nat) list \<Rightarrow> nat list" where
  "receivers w ps = List.map_filter (\<lambda>e. GetOwnerSession (snd e) w) ps"

lemma GetOwnerSession_send [simp]: "GetOwnerSession p (send_to s m w) = GetOwnerSession p w"
  by (simp add: GetOwnerSession_def send_to_def)

lemma broadcast_to_eq:
  "broadcast_to m ps w = w\<lparr>outbox := outbox w @ map (\<lambda>s. (s, m)) (receivers w ps)\<rparr>"
proof (induction m ps w rule: broadcast_to.induct)
  case (2 m i p ps w)
  have "receivers (send_to s m w) ps = receivers w ps" for s by (simp add: receivers_def map_filter_def)
  then show ?case using 2 by (simp add: receivers_def List.map_filter_simps send_to_def split: option.split)
qed (simp add: receivers_def List.map_filter_simps)

lemma evolves_broadcast: "evolves w w1 \<Longrightarrow> evolves w (broadcast_to m ps w1)"
  by (rule evolves_cong) (simp_all add: broadcast_to_eq)

lemma evolves_LeaveRoom: "evolves w (LeaveRoom p w)"
  unfolding LeaveRoom_def Let_def
  by (cases "m_currentRoom (players w ! p)")
    (auto intro!: evolves_upd_player evolves_trans[OF _ evolves_upd_player] evolves_trans[OF evolves_post_room evolves_post_room])

lemma evolves_LeaveLobby: "evolves w (LeaveLobby p w)"
  unfolding LeaveLobby_def Let_def
  by (cases "m_currentLobby (players w ! p)")
    (auto intro!: evolves_upd_player evolves_trans[OF evolves_post_lobby evolves_upd_player])

lemma evolves_RoomChat: "evolves w (RoomChat p s w)"
  by (auto simp: RoomChat_def evolves_refl split: option.split intro!: evolves_post_room)

lemma evolves_Player_LobbyChat: "evolves w (Player_LobbyChat p s w)"
  by (auto simp: Player_LobbyChat_def evolves_refl split: option.split intro!: evolves_post_lobby)

subsection \<open>Reserving a slot\<close>

lemma reserve_first_Some:
  "reserve_first tr i cs = Some (k, c) \<Longrightarrow>
   i \<le> k \<and> k - i < length cs \<and> tr (cs ! (k - i)) = (True, c) \<and> (\<forall>j < k - i. \<not> fst (tr (cs ! j)))"
proof (induction tr i cs rule: reserve_first.induct)
  case (2 tr i c0 cs)
  show ?case
  proof (cases "fst (tr c0)")
    case True
    then show ?thesis using 2(2) by (auto split: prod.splits bool.splits)
  next
    case False
    then obtain x where x: "tr c0 = (False, x)" by (cases "tr c0") auto
    then have "reserve_first tr (Suc i) cs = Some (k, c)" using 2(2) by simp
    then have k: "Suc i \<le> k" "k - Suc i < length cs" "tr (cs ! (k - Suc i)) = (True, c)"
      "\<forall>j < k - Suc i. \<not> fst (tr (cs ! j))" using 2(1)[of False x] x by auto
    then have e: "k - i = Suc (k - Suc i)" by simp
    show ?thesis using k x unfolding e by (auto simp: less_Suc_eq_0_disj)
  qed
qed simp

lemma reserve_first_None:
  "reserve_first tr i cs = None \<longleftrightarrow> (\<forall>c \<in> set cs. \<not> fst (tr c))"
  by (induction tr i cs rule: reserve_first.induct) (auto split: prod.splits bool.splits)

lemma GetNotFullRoom_Some:
  assumes "GetNotFullRoom w = Some (r, w')"
  obtains c where "r < length (rooms w)" "Room_TryReserveSlot (rooms w ! r) = (True, c)"
    "w' = w\<lparr>rooms := (rooms w)[r := c]\<rparr>"
  using assms reserve_first_Some[of Room_TryReserveSlot 0 "rooms w"] by (auto simp: GetNotFullRoom_def)

text \<open>The scan keeps the first lobby with the highest count below the limit.\<close>

lemma best_lobby_spec:
  "best_lobby i cs (a, n) = (b, n') \<Longrightarrow>
   (b = a \<and> n' = n \<and> (\<forall>c \<in> set cs. Lobby_GetPlayerCount c < MAX_LOBBY_PLAYERS \<longrightarrow> Lobby_GetPlayerCount c \<le> n))
   \<or> (\<exists>k < length cs. b = Some (i + k) \<and> n' = Lobby_GetPlayerCount (cs ! k) \<and> n' < MAX_LOBBY_PLAYERS \<and> n < n'
       \<and> (\<forall>c \<in> set cs. Lobby_GetPlayerCount c < MAX_LOBBY_PLAYERS \<longrightarrow> Lobby_GetPlayerCount c \<le> n'))"
proof (induction cs arbitrary: i a n)
  case (Cons c cs)
  let ?cnt = "Lobby_GetPlayerCount c"
  have shift: ?case if "k < length cs" "b = Some (Suc i + k)" "n' = Lobby_GetPlayerCount (cs ! k)"
    "n' < MAX_LOBBY_PLAYERS" "n < n'" "?cnt < MAX_LOBBY_PLAYERS \<longrightarrow> ?cnt \<le> n'"
    "\<forall>c \<in> set cs. Lobby_GetPlayerCount c < MAX_LOBBY_PLAYERS \<longrightarrow> Lobby_GetPlayerCount c \<le> n'" for k
    using that by (intro disjI2 exI[of _ "Suc k"]) auto
  show ?case
  proof (cases "?cnt < MAX_LOBBY_PLAYERS \<and> ?cnt > n")
    case True
    then have "best_lobby (Suc i) cs (Some i, ?cnt) = (b, n')" using Cons.prems by simp
    from Cons.IH[OF this] show ?thesis
    proof (elim disjE exE conjE)
      assume "b = Some i" "n' = ?cnt"
        "\<forall>c \<in> set cs. Lobby_GetPlayerCount c < MAX_LOBBY_PLAYERS \<longrightarrow> Lobby_GetPlayerCount c \<le> ?cnt"
      then show ?thesis using True by (intro disjI2 exI[of _ 0]) auto
    qed (use True shift in auto)
  next
    case False
    then have "best_lobby (Suc i) cs (a, n) = (b, n')" using Cons.prems by (auto simp: Let_def split: if_splits)
    from Cons.IH[OF this] show ?thesis
      by (elim disjE exE conjE) (use False shift in auto)
  qed
qed simp

lemma AssignLobby_Some:
  assumes "AssignLobby w = Some (l, w')"
  obtains c where "l < length (lobbies w)" "Lobby_TryReserveSlot (lobbies w ! l) = (True, c)"
    "w' = w\<lparr>lobbies := (lobbies w)[l := c]\<rparr>"
  using assms that reserve_first_Some[of Lobby_TryReserveSlot 0 "lobbies w"]
    best_lobby_spec[of 0 "lobbies w" None "-1"]
  by (cases "best_lobby 0 (lobbies w) (None, - 1)")
    (fastforce simp: AssignLobby_def Let_def split: option.splits prod.splits bool.splits)

lemma evolves_reserve_room:
  assumes "r < length (rooms w)" "Room_TryReserveSlot (rooms w ! r) = (True, c)"
  shows "evolves w (post_room r (RoomEnter p) (w\<lparr>rooms := (rooms w)[r := c]\<rparr>))"
proof -
  have "post_room r (RoomEnter p) (w\<lparr>rooms := (rooms w)[r := c]\<rparr>)
      = upd_room r (\<lambda>_. c\<lparr>room_jobs := room_jobs c @ [RoomEnter p]\<rparr>) w"
    using assms(1) by (simp add: post_room_def upd_room_def)
  then show ?thesis using assms(2) by (auto intro!: evolves_upd_room room_step.reserve)
qed

lemma evolves_AssignLobby:
  assumes "AssignLobby w = Some (l, w')"
  shows "evolves w (post_lobby l (LobbyEnter p) w')"
proof -
  obtain c where c: "l < length (lobbies w)" "Lobby_TryReserveSlot (lobbies w ! l) = (True, c)"
    "w' = w\<lparr>lobbies := (lobbies w)[l := c]\<rparr>" using AssignLobby_Some[OF assms] by blast
  have "post_lobby l (LobbyEnter p) w' = upd_lobby l (\<lambda>_. c\<lparr>lobby_jobs := lobby_jobs c @ [LobbyEnter p]\<rparr>) w"
    using c(1,3) by (simp add: post_lobby_def upd_lobby_def)
  then show ?thesis using c(2) by (auto intro!: evolves_upd_lobby lobby_step.reserve)
qed

text \<open>The assertion of \<open>MakeRoom\<close> holds: a new room has free slots.\<close>

lemma MakeRoom_ok:
  "MakeRoom w = Inr (length (rooms w),
     w\<lparr>rooms := rooms w @ [Room_ctor\<lparr>m_roomIndex := int (length (rooms w)), room_slots := MAX_ROOM_PLAYER - 1\<rparr>]\<rparr>)"
  by (simp add: MakeRoom_def Room_ctor_def Room_TryReserveSlot_def MAX_ROOM_PLAYER_def Let_def ASSERT_CRASH_def)

lemma evolves_MakeRoom:
  assumes "MakeRoom w = Inr (r, w')"
  shows "evolves w (post_room r (RoomEnter p) w')"
proof -
  let ?n = "Room_ctor\<lparr>m_roomIndex := int (length (rooms w))\<rparr>"
  let ?c = "?n\<lparr>room_slots := MAX_ROOM_PLAYER - 1\<rparr>"
  have new: "room_step ?n (?c\<lparr>room_jobs := room_jobs ?c @ [RoomEnter p]\<rparr>)"
    by (rule room_step.reserve) (simp add: Room_ctor_def Room_TryReserveSlot_def MAX_ROOM_PLAYER_def)
  have "rooms (post_room r (RoomEnter p) w') = rooms w @ [?c\<lparr>room_jobs := room_jobs ?c @ [RoomEnter p]\<rparr>]"
    using assms by (auto simp: MakeRoom_ok post_room_def upd_room_def)
  moreover have "lobbies (post_room r (RoomEnter p) w') = lobbies w"
    "players (post_room r (RoomEnter p) w') = players w"
    using assms by (auto simp: MakeRoom_ok post_room_def upd_room_def)
  ultimately show ?thesis using new by (auto simp: evolves_def room_origin_def nth_append less_Suc_eq)
qed

subsection \<open>Jobs\<close>

lemma nth_upd_player:
  "players (upd_player p f w) ! q = (if q = p \<and> p < length (players w) then f (players w ! p) else players w ! q)"
  by (cases "p < length (players w)") (auto simp: upd_player_def nth_list_update list_update_beyond)

lemma upd_frames [simp]:
  "rooms (upd_player p f w) = rooms w" "lobbies (upd_player p f w) = lobbies w"
  "length (players (upd_player p f w)) = length (players w)"
  "alive (upd_player p f w) = alive w" "online (upd_player p f w) = online w" "outbox (upd_player p f w) = outbox w"
  "players (upd_room r g w) = players w" "lobbies (upd_room r g w) = lobbies w"
  "length (rooms (upd_room r g w)) = length (rooms w)"
  "alive (upd_room r g w) = alive w" "online (upd_room r g w) = online w" "outbox (upd_room r g w) = outbox w"
  "players (upd_lobby l h w) = players w" "rooms (upd_lobby l h w) = rooms w"
  "length (lobbies (upd_lobby l h w)) = length (lobbies w)"
  "alive (upd_lobby l h w) = alive w" "online (upd_lobby l h w) = online w" "outbox (upd_lobby l h w) = outbox w"
  by (simp_all add: upd_player_def upd_room_def upd_lobby_def)

lemma upd_here [simp]:
  "r < length (rooms w) \<Longrightarrow> rooms (upd_room r g w) ! r = g (rooms w ! r)"
  "l < length (lobbies w) \<Longrightarrow> lobbies (upd_lobby l h w) ! l = h (lobbies w ! l)"
  by (simp_all add: upd_room_def upd_lobby_def)

lemma upd_twice:
  "r < length (rooms w) \<Longrightarrow> upd_room r g2 (upd_room r g1 w) = upd_room r (\<lambda>c. g2 (g1 c)) w"
  "l < length (lobbies w) \<Longrightarrow> upd_lobby l h2 (upd_lobby l h1 w) = upd_lobby l (\<lambda>c. h2 (h1 c)) w"
  by (simp_all add: upd_room_def upd_lobby_def)

lemma upd_commute:
  "upd_room r g (upd_player p f w) = upd_player p f (upd_room r g w)"
  "upd_lobby l h (upd_player p f w) = upd_player p f (upd_lobby l h w)"
  by (simp_all add: upd_room_def upd_player_def upd_lobby_def)

lemma set_current [simp]:
  "rooms (SetCurrentRoom p x w) = rooms w" "lobbies (SetCurrentRoom p x w) = lobbies w"
  "rooms (SetCurrentLobby p y w) = rooms w" "lobbies (SetCurrentLobby p y w) = lobbies w"
  "m_playerId (players (SetCurrentRoom p x w) ! q) = m_playerId (players w ! q)"
  "m_playerId (players (SetCurrentLobby p y w) ! q) = m_playerId (players w ! q)"
  "m_name (players (SetCurrentRoom p x w) ! q) = m_name (players w ! q)"
  "m_name (players (SetCurrentLobby p y w) ! q) = m_name (players w ! q)"
  "GetOwnerSession q (SetCurrentRoom p x w) = GetOwnerSession q w"
  "GetOwnerSession q (SetCurrentLobby p y w) = GetOwnerSession q w"
  by (simp_all add: SetCurrentRoom_def SetCurrentLobby_def nth_upd_player GetOwnerSession_def)

lemma owner_upd [simp]:
  "GetOwnerSession q (upd_room r g w) = GetOwnerSession q w"
  "GetOwnerSession q (upd_lobby l h w) = GetOwnerSession q w"
  by (simp_all add: GetOwnerSession_def)

lemma owner_upd_player [simp]:
  "(\<And>x. m_ownerSession (f x) = m_ownerSession x) \<Longrightarrow> GetOwnerSession q (upd_player p f w) = GetOwnerSession q w"
  by (simp add: GetOwnerSession_def nth_upd_player)

lemma upd_session_frames [simp]:
  "connected (upd_player p f w) = connected w" "player_of (upd_player p f w) = player_of w"
  "game_sessions (upd_player p f w) = game_sessions w" "login_done (upd_player p f w) = login_done w"
  "connected (upd_room r g w) = connected w" "player_of (upd_room r g w) = player_of w"
  "game_sessions (upd_room r g w) = game_sessions w" "login_done (upd_room r g w) = login_done w"
  "connected (upd_lobby l h w) = connected w" "player_of (upd_lobby l h w) = player_of w"
  "game_sessions (upd_lobby l h w) = game_sessions w" "login_done (upd_lobby l h w) = login_done w"
  by (simp_all add: upd_player_def upd_room_def upd_lobby_def)

lemma evolves_SetCurrent: "evolves w (SetCurrentRoom p x w)" "evolves w (SetCurrentLobby p y w)"
  unfolding SetCurrentRoom_def SetCurrentLobby_def by (rule evolves_upd_player, simp)+

lemma evolves_EnterRoom: "evolves w (EnterRoom p w)"
  by (auto simp: EnterRoom_def evolves_refl split: option.split intro!: evolves_post_room)

lemma try_emplace_cases:
  obtains "map_has k m" "try_emplace k v m = (False, m)"
  | "\<not> map_has k m" "try_emplace k v m = (True, map_insert k v m)"
  by (auto simp: try_emplace_def)

lemma evolves_Room_Enter:
  assumes r: "r < length (rooms w)" and j: "room_jobs (rooms w ! r) = RoomEnter p # js"
  shows "evolves w (Room_Enter r p (upd_room r (\<lambda>c. c\<lparr>room_jobs := js\<rparr>) w))"
proof -
  let ?w0 = "upd_room r (\<lambda>c. c\<lparr>room_jobs := js\<rparr>) w" and ?c = "rooms w ! r" and ?i = "GetPlayerId p w"
  have refused: "evolves w (upd_room r Room_ReleaseReservedSlot ?w0)"
    using room_step.refused[OF j] r by (auto simp: upd_twice intro!: evolves_upd_room)
  show ?thesis
  proof (cases rule: try_emplace_cases[of ?i "room_players ?c" p])
    case 1
    then show ?thesis using refused r by (simp add: Room_Enter_def EnterRoomFailed_def)
  next
    case 2
    let ?m = "map_insert ?i p (room_players ?c)"
    define w1 where "w1 = SetCurrentRoom p (Some r) (upd_room r (\<lambda>c. c\<lparr>room_players := ?m\<rparr>) ?w0)"
    have entered: "evolves w w1"
      unfolding w1_def using room_step.entered[OF j 2(1), of] r
      by (intro evolves_trans[OF _ evolves_SetCurrent(1)]) (auto simp: upd_twice intro!: evolves_upd_room)
    have gone: "evolves w (upd_room r (\<lambda>c. Room_ReleaseReservedSlot (c\<lparr>room_players := map_erase ?i (room_players c)\<rparr>)) w1)"
    proof -
      have "upd_room r (\<lambda>c. Room_ReleaseReservedSlot (c\<lparr>room_players := map_erase ?i (room_players c)\<rparr>))
          (upd_room r (\<lambda>c. c\<lparr>room_players := ?m\<rparr>) ?w0) = upd_room r Room_ReleaseReservedSlot ?w0"
        using r by (simp add: upd_twice) (simp add: upd_room_def map_erase_insert[OF 2(1)] Room_ReleaseReservedSlot_def)
      then show ?thesis unfolding w1_def SetCurrentRoom_def upd_commute
        using refused by (auto intro!: evolves_trans[OF _ evolves_upd_player])
    qed
    have "Room_Enter r p ?w0 = (if int (length (room_players ?c)) \<ge> MAX_ROOM_PLAYER
        then upd_room r Room_ReleaseReservedSlot ?w0
        else if GetOwnerSession p w1 = None
        then upd_room r (\<lambda>c. Room_ReleaseReservedSlot (c\<lparr>room_players := map_erase ?i (room_players c)\<rparr>)) w1
        else EnterRoom p w1)"
      using 2 r by (simp add: Room_Enter_def EnterRoomFailed_def w1_def Let_def)
    then show ?thesis using refused gone evolves_trans[OF entered evolves_EnterRoom] by simp
  qed
qed

lemma evolves_run_room_job:
  assumes r: "r < length (rooms w)"
  shows "evolves w (run_room_job r w)"
proof (cases "room_jobs (rooms w ! r)")
  case Nil
  then show ?thesis by (simp add: run_room_job_def evolves_refl)
next
  case (Cons j js)
  let ?w0 = "upd_room r (\<lambda>c. c\<lparr>room_jobs := js\<rparr>) w"
  have done0: "evolves w ?w0" if "\<not> is_room_enter j"
    using room_step.finished[OF Cons that] by (auto intro!: evolves_upd_room)
  show ?thesis
  proof (cases j)
    case (RoomEnter p)
    then show ?thesis using Cons evolves_Room_Enter[OF r] by (simp add: run_room_job_def)
  next
    case (RoomLeave p)
    then have j: "room_jobs (rooms w ! r) = RoomLeave p # js" using Cons by simp
    show ?thesis
    proof (cases "map_has (GetPlayerId p w) (room_players (rooms w ! r))")
      case True
      have "run_room_job r w = upd_room r (\<lambda>c. c\<lparr>room_jobs := js, room_players := map_erase (GetPlayerId p w) (room_players c),
          room_slots := room_slots c + 1\<rparr>) w"
        using True j r by (simp add: run_room_job_def Room_Leave_def upd_twice)
      then show ?thesis using room_step.left[OF j True] by (auto intro!: evolves_upd_room)
    next
      case False
      then show ?thesis using done0 j r RoomLeave by (simp add: run_room_job_def Room_Leave_def)
    qed
  next
    case (RoomBroadcast m)
    then show ?thesis using done0 Cons by (simp add: run_room_job_def Room_Broadcast_def evolves_broadcast)
  qed
qed

lemma evolves_send: "evolves w w1 \<Longrightarrow> evolves w (send_to s m w1)"
  by (rule evolves_cong) (simp_all add: send_to_def)

lemma Lobby_Enter_new:
  assumes "\<not> map_has (GetPlayerId p w) (lobby_players (lobbies w ! l))"
    and w1: "w1 = SetCurrentLobby p (Some l)
      (upd_lobby l (\<lambda>c. c\<lparr>lobby_players := map_insert (GetPlayerId p w) p (lobby_players (lobbies w ! l))\<rparr>) w)"
  shows "Lobby_Enter l p w = (case GetOwnerSession p w1 of
      None \<Rightarrow> upd_lobby l (\<lambda>c. Lobby_ReleaseReservedSlot (c\<lparr>lobby_players := map_erase (GetPlayerId p w1) (lobby_players c)\<rparr>)) w1
    | Some s \<Rightarrow>
        let w2 = broadcast_to (Msg_NotiLobbyPlayerEnter (GetPlayerId p w1) (GetPlayerName p w1))
                   (filter (\<lambda>e. fst e \<noteq> GetPlayerId p w1) (lobby_players (lobbies w1 ! l))) w1
        in send_to s (Msg_ResLobbyEnter (m_lobbyIndex (lobbies w2 ! l))
             (map (\<lambda>e. (GetPlayerId (snd e) w2, GetPlayerName (snd e) w2)) (lobby_players (lobbies w2 ! l)))) w2)"
proof -
  have t: "try_emplace (GetPlayerId p w) p (lobby_players (lobbies w ! l))
    = (True, map_insert (GetPlayerId p w) p (lobby_players (lobbies w ! l)))"
    using assms(1) by (simp add: try_emplace_def)
  show ?thesis unfolding Lobby_Enter_def t w1 by (simp only: prod.case bool.case Let_def)
qed

lemma evolves_Lobby_Enter:
  assumes l: "l < length (lobbies w)" and j: "lobby_jobs (lobbies w ! l) = LobbyEnter p # js"
  shows "evolves w (Lobby_Enter l p (upd_lobby l (\<lambda>c. c\<lparr>lobby_jobs := js\<rparr>) w))"
proof -
  let ?w0 = "upd_lobby l (\<lambda>c. c\<lparr>lobby_jobs := js\<rparr>) w" and ?c = "lobbies w ! l" and ?i = "GetPlayerId p w"
  have refused: "evolves w (upd_lobby l Lobby_ReleaseReservedSlot ?w0)"
    using lobby_step.refused[OF j] l by (auto simp: upd_twice intro!: evolves_upd_lobby)
  show ?thesis
  proof (cases rule: try_emplace_cases[of ?i "lobby_players ?c" p])
    case 1
    then show ?thesis using refused l by (simp add: Lobby_Enter_def)
  next
    case 2
    let ?m = "map_insert ?i p (lobby_players ?c)"
    define w1 where "w1 = SetCurrentLobby p (Some l) (upd_lobby l (\<lambda>c. c\<lparr>lobby_players := ?m\<rparr>) ?w0)"
    have entered: "evolves w w1"
      unfolding w1_def using lobby_step.entered[OF j 2(1), of] l
      by (intro evolves_trans[OF _ evolves_SetCurrent(2)]) (auto simp: upd_twice intro!: evolves_upd_lobby)
    have gone: "evolves w (upd_lobby l (\<lambda>c. Lobby_ReleaseReservedSlot (c\<lparr>lobby_players := map_erase ?i (lobby_players c)\<rparr>)) w1)"
    proof -
      have "upd_lobby l (\<lambda>c. Lobby_ReleaseReservedSlot (c\<lparr>lobby_players := map_erase ?i (lobby_players c)\<rparr>))
          (upd_lobby l (\<lambda>c. c\<lparr>lobby_players := ?m\<rparr>) ?w0) = upd_lobby l Lobby_ReleaseReservedSlot ?w0"
        using l by (simp add: upd_twice) (simp add: upd_lobby_def map_erase_insert[OF 2(1)] Lobby_ReleaseReservedSlot_def)
      then show ?thesis unfolding w1_def SetCurrentLobby_def upd_commute
        using refused by (auto intro!: evolves_trans[OF _ evolves_upd_player])
    qed
    have i1: "GetPlayerId p w1 = ?i" by (simp add: w1_def)
    have new: "\<not> map_has (GetPlayerId p ?w0) (lobby_players (lobbies ?w0 ! l))" using 2(1) l by simp
    have w1: "w1 = SetCurrentLobby p (Some l) (upd_lobby l (\<lambda>c. c\<lparr>lobby_players :=
        map_insert (GetPlayerId p ?w0) p (lobby_players (lobbies ?w0 ! l))\<rparr>) ?w0)" using l by (simp add: w1_def)
    note Lobby_Enter_new[OF new w1]
    then show ?thesis using gone
      by (auto simp: Let_def i1 split: option.split intro!: evolves_send evolves_broadcast entered)
  qed
qed

lemma evolves_run_lobby_job:
  assumes l: "l < length (lobbies w)"
  shows "evolves w (run_lobby_job l w)"
proof (cases "lobby_jobs (lobbies w ! l)")
  case Nil
  then show ?thesis by (simp add: run_lobby_job_def evolves_refl)
next
  case (Cons j js)
  let ?w0 = "upd_lobby l (\<lambda>c. c\<lparr>lobby_jobs := js\<rparr>) w"
  have done0: "evolves w ?w0" if "\<not> is_lobby_enter j"
    using lobby_step.finished[OF Cons that] by (auto intro!: evolves_upd_lobby)
  show ?thesis
  proof (cases j)
    case (LobbyEnter p)
    then show ?thesis using Cons evolves_Lobby_Enter[OF l] by (simp add: run_lobby_job_def)
  next
    case (LobbyExit p)
    then have j: "lobby_jobs (lobbies w ! l) = LobbyExit p # js" using Cons by simp
    show ?thesis
    proof (cases "map_has (GetPlayerId p w) (lobby_players (lobbies w ! l))")
      case True
      let ?w1 = "upd_lobby l (\<lambda>c. c\<lparr>lobby_jobs := js, lobby_players := map_erase (GetPlayerId p w) (lobby_players c),
          lobby_slots := lobby_slots c + 1\<rparr>) w"
      have "run_lobby_job l w = Lobby_Broadcast l (Msg_NotiLobbyPlayerExit (GetPlayerId p ?w1) (GetPlayerName p ?w1)) ?w1"
        using True j l by (simp add: run_lobby_job_def Lobby_Exit_def upd_twice)
      moreover have "evolves w ?w1" using lobby_step.left[OF j True] by (auto intro!: evolves_upd_lobby)
      ultimately show ?thesis by (simp add: Lobby_Broadcast_def evolves_broadcast)
    next
      case False
      then show ?thesis using done0 j l LobbyExit by (simp add: run_lobby_job_def Lobby_Exit_def)
    qed
  next
    case (LobbyChat p m)
    then show ?thesis using done0 Cons
      by (simp add: run_lobby_job_def Lobby_Chat_def Lobby_Broadcast_def evolves_broadcast)
  qed
qed

subsection \<open>Handlers\<close>

lemma evolves_LeaveRoomAndReenterLobby: "evolves w (LeaveRoomAndReenterLobby p w)"
proof (cases "AssignLobby (LeaveRoom p w)")
  case None
  then show ?thesis by (simp add: LeaveRoomAndReenterLobby_def evolves_LeaveRoom)
next
  case (Some lw)
  then show ?thesis using evolves_trans[OF evolves_LeaveRoom evolves_AssignLobby]
    by (cases lw) (auto simp: LeaveRoomAndReenterLobby_def)
qed

lemma evolves_OnDisconnected: "evolves w (GameSession_OnDisconnected s w)"
proof (cases "player_of w s")
  case None
  then show ?thesis
    by (intro evolves_cong[OF evolves_refl]) (simp_all add: GameSession_OnDisconnected_def GameSessionSystem_Remove_def)
next
  case (Some p)
  then show ?thesis
    by (intro evolves_cong[OF evolves_trans[OF evolves_LeaveLobby evolves_LeaveRoom]])
      (simp_all add: GameSession_OnDisconnected_def GameSessionSystem_Remove_def PlayerSystem_Remove_def Let_def)
qed

lemma evolves_World_Disconnect: "evolves w (World_Disconnect s w)"
proof (cases "connected w s")
  case True
  let ?w = "w\<lparr>connected := (connected w)(s := False)\<rparr>"
  have "evolves w ?w" by (rule evolves_cong[OF evolves_refl]) simp_all
  from evolves_trans[OF this evolves_OnDisconnected] True show ?thesis by (simp add: World_Disconnect_def)
qed (simp add: World_Disconnect_def evolves_refl)

lemma evolves_new_player:
  "rooms w' = rooms w \<Longrightarrow> lobbies w' = lobbies w \<Longrightarrow> players w' = players w @ ps \<Longrightarrow> evolves w w'"
  by (auto simp: evolves_def room_origin_def nth_append)

lemma evolves_OnLoginResult: "evolves w (OnLoginResult ok i n s w)"
proof -
  let ?w1 = "w\<lparr>login_done := (login_done w)(s := True)\<rparr>"
  let ?p = "length (players ?w1)"
  let ?w3 = "PlayerSystem_Add ?p (?w1\<lparr>players := players ?w1 @ [Player_ctor s i n], player_of := (player_of ?w1)(s := Some ?p)\<rparr>)"
  define w4 where "w4 = send_to s (Msg_ResLogin (GetPlayerId ?p ?w3) (GetPlayerName ?p ?w3)) ?w3"
  have e1: "evolves w ?w1" by (rule evolves_cong[OF evolves_refl]) simp_all
  have e4: "evolves w w4"
    by (rule evolves_new_player[where ps = "[Player_ctor s i n]"]) (simp_all add: w4_def send_to_def PlayerSystem_Add_def)
  have failed: "evolves w (World_Disconnect s (send_to s Msg_ResLoginFailed ?w1))"
    using evolves_trans[OF evolves_send[OF e1] evolves_World_Disconnect] .
  have "OnLoginResult ok i n s w = (if login_done w s then w else if \<not> connected ?w1 s then ?w1
      else if \<not> ok then World_Disconnect s (send_to s Msg_ResLoginFailed ?w1)
      else case AssignLobby w4 of Some (l, w5) \<Rightarrow> post_lobby l (LobbyEnter ?p) w5 | None \<Rightarrow> w4)"
    by (simp only: OnLoginResult_def w4_def Let_def)
  then show ?thesis using e1 e4 failed evolves_trans[OF e4 evolves_AssignLobby]
    by (auto simp: evolves_refl split: option.split)
qed

lemma evolves_HandleReqRoomEnterPacket:
  assumes "HandleReqRoomEnterPacket mem s w = Inr (b, w')"
  shows "evolves w w'"
proof (cases "player_of w s")
  case None
  then show ?thesis using assms by (simp add: HandleReqRoomEnterPacket_def evolves_refl)
next
  case (Some p)
  let ?w1 = "LeaveLobby p w"
  have "evolves ?w1 w'"
  proof (cases "GetNotFullRoom ?w1")
    case None
    then obtain r w2 where "MakeRoom ?w1 = Inr (r, w2)" "w' = post_room r (RoomEnter p) w2"
      using assms Some by (auto simp: HandleReqRoomEnterPacket_def Let_def MakeRoom_ok)
    then show ?thesis using evolves_MakeRoom by simp
  next
    case (Some rw)
    then obtain r w2 where rw: "GetNotFullRoom ?w1 = Some (r, w2)" by (cases rw) auto
    then have "w' = post_room r (RoomEnter p) w2"
      using assms \<open>player_of w s = Some p\<close> by (simp add: HandleReqRoomEnterPacket_def Let_def)
    then show ?thesis using GetNotFullRoom_Some[OF rw] evolves_reserve_room[of r ?w1] by metis
  qed
  then show ?thesis by (rule evolves_trans[OF evolves_LeaveLobby])
qed

lemma evolves_wstep: "wstep w w' \<Longrightarrow> evolves w w'"
proof (induction rule: wstep.induct)
  case (connect w s)
  show ?case
    by (rule evolves_cong[OF evolves_refl]) (simp_all add: GameSession_OnConnected_def GameSessionSystem_Add_def)
next
  case (room_chat w s mem b w')
  then show ?case
    by (auto simp: HandleReqRoomChatPacket_def evolves_refl evolves_RoomChat cstring_def split: option.splits if_splits)
next
  case (room_exit w s mem b w')
  then show ?case
    by (auto simp: HandleReqRoomExitPacket_def evolves_refl evolves_LeaveRoomAndReenterLobby split: option.splits)
next
  case (lobby_chat w s mem b w')
  then show ?case
    by (auto simp: HandleReqLobbyChatPacket_def evolves_refl evolves_Player_LobbyChat cstring_def split: option.splits if_splits)
next
  case (room_list w s mem b w')
  then show ?case
    by (auto simp: HandleReqRoomListPacket_def evolves_refl evolves_send Let_def split: option.splits)
next
  case (destroy w s)
  show ?case by (rule evolves_cong[OF evolves_refl]) simp_all
qed (auto intro: evolves_OnLoginResult evolves_World_Disconnect evolves_run_room_job evolves_run_lobby_job
      evolves_HandleReqRoomEnterPacket)

end
