(* ===== verification/WorldProps.thy ===== *)
theory WorldProps
  imports World
begin

text \<open>
  What the game world guarantees: capacity of rooms and lobbies in every interleaving, the choice of
  a lobby, who is told what, the single login, the clean-up after a disconnect; and three
  interleavings in which a membership goes wrong.
\<close>

section \<open>Traces\<close>

text \<open>The steps as an executable interpreter of events.\<close>

datatype wevent =
    EvConnect nat | EvLogin bool uint64 "byte list" nat
  | EvRoomEnter nat | EvRoomChat "byte list" nat | EvRoomExit nat | EvLobbyChat "byte list" nat | EvRoomList nat
  | EvDisconnect nat | EvDestroy nat | EvRoomJob nat | EvLobbyJob nat

definition handled :: "nat \<Rightarrow> world \<Rightarrow> (bool \<times> world) outcome \<Rightarrow> world option" where
  "handled s w r = (if connected w s then case r of Inr (_, w') \<Rightarrow> Some w' | Inl _ \<Rightarrow> None else None)"

fun perform :: "wevent \<Rightarrow> world \<Rightarrow> world option" where
  "perform (EvConnect s) w = (if connected w s \<or> login_done w s \<or> player_of w s \<noteq> None then None
     else Some (GameSession_OnConnected s (w\<lparr>alive := (alive w)(s := True), connected := (connected w)(s := True)\<rparr>)))"
| "perform (EvLogin ok i n s) w = Some (OnLoginResult ok i n s w)"
| "perform (EvRoomEnter s) w = handled s w (HandleReqRoomEnterPacket [] s w)"
| "perform (EvRoomChat mem s) w = handled s w (HandleReqRoomChatPacket mem s w)"
| "perform (EvRoomExit s) w = handled s w (HandleReqRoomExitPacket [] s w)"
| "perform (EvLobbyChat mem s) w = handled s w (HandleReqLobbyChatPacket mem s w)"
| "perform (EvRoomList s) w = handled s w (HandleReqRoomListPacket [] s w)"
| "perform (EvDisconnect s) w = Some (World_Disconnect s w)"
| "perform (EvDestroy s) w = (if connected w s then None else Some (w\<lparr>alive := (alive w)(s := False)\<rparr>))"
| "perform (EvRoomJob r) w = (if r < length (rooms w) then Some (run_room_job r w) else None)"
| "perform (EvLobbyJob l) w = (if l < length (lobbies w) then Some (run_lobby_job l w) else None)"

fun play :: "wevent list \<Rightarrow> world \<Rightarrow> world option" where
  "play [] w = Some w"
| "play (e # es) w = (case perform e w of None \<Rightarrow> None | Some w' \<Rightarrow> play es w')"

lemma handled_Some: "handled s w r = Some w' \<Longrightarrow> \<exists>b. connected w s \<and> r = Inr (b, w')"
  by (auto simp: handled_def split: if_splits sum.splits)

lemma perform_wstep: "perform e w = Some w' \<Longrightarrow> wstep w w'"
  by (cases e)
    (auto split: if_splits dest!: handled_Some intro: wstep.intros)

lemma play_reachable: "play es w = Some w' \<Longrightarrow> wstep\<^sup>*\<^sup>* w w'"
  by (induction es arbitrary: w)
    (auto split: option.splits intro: converse_rtranclp_into_rtranclp perform_wstep)

section \<open>Capacity\<close>

lemma evolves_reachable: "wstep\<^sup>*\<^sup>* w w' \<Longrightarrow> evolves w w'"
  by (induction rule: rtranclp_induct) (auto intro: evolves_refl evolves_trans evolves_wstep)

lemma room_balance:
  assumes "wstep\<^sup>*\<^sup>* world0 w" "r < length (rooms w)"
  shows "room_step\<^sup>*\<^sup>* (Room_ctor\<lparr>m_roomIndex := int r\<rparr>) (rooms w ! r)"
  using evolves_reachable[OF assms(1)] assms(2) by (simp add: evolves_def room_origin_def world0_def)

lemma lobbies_world0: "length (lobbies world0) = MAX_LOBBY_COUNT"
  "l < MAX_LOBBY_COUNT \<Longrightarrow> lobbies world0 ! l = Lobby_ctor\<lparr>m_lobbyIndex := int l\<rparr>"
  by (simp_all add: world0_def LobbySystem_ctor_def)

lemma lobby_balance:
  assumes "wstep\<^sup>*\<^sup>* world0 w" "l < length (lobbies w)"
  shows "lobby_step\<^sup>*\<^sup>* (Lobby_ctor\<lparr>m_lobbyIndex := int l\<rparr>) (lobbies w ! l)" "length (lobbies w) = MAX_LOBBY_COUNT"
  using evolves_reachable[OF assms(1)] assms(2) by (auto simp: evolves_def lobbies_world0)

lemmas room_places = room.steps_balance[OF room_balance, unfolded Room_ctor_def MAX_ROOM_PLAYER_def, simplified]
lemmas lobby_places = lobby.steps_balance[OF lobby_balance(1), unfolded Lobby_ctor_def MAX_LOBBY_PLAYERS_def, simplified]

lemma room_free:
  assumes "wstep\<^sup>*\<^sup>* world0 w" "r < length (rooms w)" "0 < room_entering (rooms w ! r)"
  shows "int (length (room_players (rooms w ! r))) < 8"
  using room_places[OF assms(1,2)] assms(3) by linarith

text \<open>(C12) No room or lobby ever overfills.  In every interleaving of connects, logins, packets, disconnects
  and jobs, the free slots of a room, its members and its queued entries add up to 8 (50 for a lobby)
  and no count is negative; a queued \<open>Enter\<close> therefore always finds a place, so the capacity check at the
  top of \<^verbatim>\<open>Room::Enter\<close> never rejects anybody.\<close>

theorem capacity_invariant:
  assumes "wstep\<^sup>*\<^sup>* world0 w"
  shows "(\<forall>r < length (rooms w).
      0 \<le> room_slots (rooms w ! r)
    \<and> room_slots (rooms w ! r) + int (length (room_players (rooms w ! r))) + int (room_entering (rooms w ! r)) = MAX_ROOM_PLAYER
    \<and> (0 < room_entering (rooms w ! r) \<longrightarrow> int (length (room_players (rooms w ! r))) < MAX_ROOM_PLAYER))
   \<and> length (lobbies w) = MAX_LOBBY_COUNT
   \<and> (\<forall>l < length (lobbies w).
      0 \<le> lobby_slots (lobbies w ! l)
    \<and> lobby_slots (lobbies w ! l) + int (length (lobby_players (lobbies w ! l))) + int (lobby_entering (lobbies w ! l)) = MAX_LOBBY_PLAYERS)"
proof -
  have "length (lobbies w) = MAX_LOBBY_COUNT"
    using evolves_reachable[OF assms] by (simp add: evolves_def lobbies_world0)
  then show ?thesis
    using room_places[OF assms] lobby_places[OF assms] room_free[OF assms] by (auto simp: MAX_ROOM_PLAYER_def MAX_LOBBY_PLAYERS_def)
qed

text \<open>One player, account 5, on session 7, in the first lobby.\<close>

definition demo_login :: "wevent list" where
  "demo_login = [EvConnect 7, EvLogin True 5 [65, 66] 7, EvLobbyJob 0]"

theorem capacity_invariant_witness:
  "\<exists>w. play demo_login world0 = Some w \<and> length (lobby_players (lobbies w ! 0)) = 1
     \<and> lobby_slots (lobbies w ! 0) + 1 + int (lobby_entering (lobbies w ! 0)) = MAX_LOBBY_PLAYERS"
proof -
  obtain w where w: "play demo_login world0 = Some w" "length (lobby_players (lobbies w ! 0)) = 1"
  proof -
    have "(case play demo_login world0 of Some w \<Rightarrow> length (lobby_players (lobbies w ! 0)) = 1 | None \<Rightarrow> False)"
      by code_simp
    then show ?thesis using that by (auto split: option.splits)
  qed
  then show ?thesis using capacity_invariant[OF play_reachable[OF w(1)]] by (force simp: MAX_LOBBY_COUNT_def)
qed

section \<open>Choosing a lobby\<close>

lemma lobby_count_bounds:
  assumes "wstep\<^sup>*\<^sup>* world0 w" "c \<in> set (lobbies w)"
  shows "0 \<le> lobby_slots c" "0 \<le> Lobby_GetPlayerCount c"
  using assms(2) lobby_places[OF assms(1)]
  by (fastforce simp: in_set_conv_nth Lobby_GetPlayerCount_def MAX_LOBBY_PLAYERS_def)+



section \<open>Entering a lobby\<close>

lemma lobby_step_index: "lobby_step\<^sup>*\<^sup>* c c' \<Longrightarrow> m_lobbyIndex c' = m_lobbyIndex c"
proof (induction rule: rtranclp_induct)
  case (step c1 c2)
  from step(2) have "m_lobbyIndex c2 = m_lobbyIndex c1" by cases (auto simp: slot_defs split: if_splits)
  then show ?case using step by simp
qed simp

text \<open>(C27) Entering a lobby tells everybody.  When a queued entry of player \<open>p\<close> runs, with its session \<open>s\<close>
  alive and its id new to the lobby, the player becomes a member, every other member with a live
  session gets one \<open>NotiLobbyPlayerEnter\<close>, and \<open>s\<close> gets one \<open>ResLobbyEnter\<close> whose bytes hold the index of
  the lobby and the id and name of every member: in no reachable world is the roster of 50 entries too
  short.\<close>

theorem Lobby_Enter_roster:
  assumes "wstep\<^sup>*\<^sup>* world0 w" "l < length (lobbies w)"
    and job: "lobby_jobs (lobbies w ! l) = LobbyEnter p # js"
    and s: "GetOwnerSession p w = Some s"
    and new: "\<not> map_has (GetPlayerId p w) (lobby_players (lobbies w ! l))"
    and mem: "size_of cls_ResLobbyEnter \<le> length mem"
  shows "let w' = run_lobby_job l w;
             ms = map_insert (GetPlayerId p w) p (lobby_players (lobbies w ! l));
             roster = map (\<lambda>(_, q). (GetPlayerId q w, GetPlayerName q w)) ms
         in lobby_players (lobbies w' ! l) = ms
          \<and> outbox w' = outbox w
              @ map (\<lambda>s'. (s', Msg_NotiLobbyPlayerEnter (GetPlayerId p w) (GetPlayerName p w)))
                    (receivers w (lobby_players (lobbies w ! l)))
              @ [(s, Msg_ResLobbyEnter (int l) roster)]
          \<and> length roster \<le> MAX_LOBBY_PLAYER
          \<and> roster_holds (int l) roster (msg_bytes (Msg_ResLobbyEnter (int l) roster) mem)"
proof -
  let ?ms = "map_insert (GetPlayerId p w) p (lobby_players (lobbies w ! l))"
  let ?roster = "map (\<lambda>(_, q). (GetPlayerId q w, GetPlayerName q w)) ?ms"
  have idx: "m_lobbyIndex (lobbies w ! l) = int l" and l5: "l < 5"
    using lobby_step_index[OF lobby_balance(1)[OF assms(1,2)]] lobby_balance(2)[OF assms(1,2)] assms(2)
    by (simp_all add: MAX_LOBBY_COUNT_def)
  have "0 < lobby_entering (lobbies w ! l)" using job by simp
  then have len: "length ?ms \<le> 50"
    using lobby_places[OF assms(1,2)] length_map_insert[OF new, of p] by linarith
  let ?w0 = "upd_lobby l (\<lambda>c. c\<lparr>lobby_jobs := js\<rparr>) w"
  define w1 where "w1 = SetCurrentLobby p (Some l)
    (upd_lobby l (\<lambda>c. c\<lparr>lobby_players := map_insert (GetPlayerId p ?w0) p (lobby_players (lobbies ?w0 ! l))\<rparr>) ?w0)"
  have same: "GetPlayerId q w1 = GetPlayerId q w" "GetPlayerName q w1 = GetPlayerName q w"
    "GetOwnerSession q w1 = GetOwnerSession q w" "outbox w1 = outbox w" for q
    by (simp_all add: w1_def SetCurrentLobby_def[of _ _ "upd_lobby _ _ _"] nth_upd_player GetOwnerSession_def)
  have rec: "receivers w1 = receivers w" by (simp add: receivers_def same(3) fun_eq_iff)
  have here: "lobbies w1 ! l = (lobbies w ! l)\<lparr>lobby_jobs := js, lobby_players := ?ms\<rparr>"
    using assms(2) by (simp add: w1_def)
  define w2 where "w2 = broadcast_to (Msg_NotiLobbyPlayerEnter (GetPlayerId p w) (GetPlayerName p w))
     (lobby_players (lobbies w ! l)) w1"
  have filt: "filter (\<lambda>e. fst e \<noteq> GetPlayerId p w) ?ms = lobby_players (lobbies w ! l)"
    using map_erase_insert[OF new, of p] by (simp add: map_erase_def)
  have run: "run_lobby_job l w = send_to s (Msg_ResLobbyEnter (int l) ?roster) w2"
  proof -
    have "\<not> map_has (GetPlayerId p ?w0) (lobby_players (lobbies ?w0 ! l))" using new assms(2) by simp
    from Lobby_Enter_new[OF this w1_def] have "run_lobby_job l w = (case GetOwnerSession p w1 of
        None \<Rightarrow> upd_lobby l (\<lambda>c. Lobby_ReleaseReservedSlot (c\<lparr>lobby_players := map_erase (GetPlayerId p w1) (lobby_players c)\<rparr>)) w1
      | Some s \<Rightarrow> let w2 = broadcast_to (Msg_NotiLobbyPlayerEnter (GetPlayerId p w1) (GetPlayerName p w1))
                     (filter (\<lambda>e. fst e \<noteq> GetPlayerId p w1) (lobby_players (lobbies w1 ! l))) w1
          in send_to s (Msg_ResLobbyEnter (m_lobbyIndex (lobbies w2 ! l))
               (map (\<lambda>e. (GetPlayerId (snd e) w2, GetPlayerName (snd e) w2)) (lobby_players (lobbies w2 ! l)))) w2)"
      using job by (simp add: run_lobby_job_def)
    also have "\<dots> = send_to s (Msg_ResLobbyEnter (int l) ?roster) w2"
      using s idx by (simp add: same here filt w2_def[symmetric])
        (simp add: w2_def broadcast_to_eq here same case_prod_beta')
    finally show ?thesis .
  qed
  have "roster_holds (int l) ?roster (msg_bytes (Msg_ResLobbyEnter (int l) ?roster) mem)"
    using roster_fold[OF mem] l5 by (simp add: int32_range_def)
  then show ?thesis using len here
    by (simp add: run Let_def send_to_def w2_def broadcast_to_eq rec same MAX_LOBBY_PLAYER_def)
qed

text \<open>Two players log in; the second entry finds the first player in the lobby.\<close>

definition demo_second :: "wevent list" where
  "demo_second = demo_login @ [EvConnect 8, EvLogin True 3 [67] 8]"

theorem Lobby_Enter_roster_witness:
  "\<exists>w. play demo_second world0 = Some w
     \<and> outbox (run_lobby_job 0 w) = outbox w @ [(7, Msg_NotiLobbyPlayerEnter 3 [67]),
         (8, Msg_ResLobbyEnter 0 [(3, [67]), (5, [65, 66])])]
     \<and> roster_holds 0 [(3, [67]), (5, [65, 66])]
         (msg_bytes (Msg_ResLobbyEnter 0 [(3, [67]), (5, [65, 66])]) (replicate 1212 170))"
proof -
  have "(case play demo_second world0 of None \<Rightarrow> False | Some w \<Rightarrow> 0 < length (lobbies w)
      \<and> lobby_jobs (lobbies w ! 0) = [LobbyEnter 1] \<and> GetOwnerSession 1 w = Some 8
      \<and> lobby_players (lobbies w ! 0) = [(5, 0)] \<and> receivers w [(5, 0)] = [7]
      \<and> GetPlayerId 1 w = 3 \<and> GetPlayerName 1 w = [67] \<and> GetPlayerId 0 w = 5 \<and> GetPlayerName 0 w = [65, 66])"
    by code_simp
  then obtain w where w: "play demo_second world0 = Some w" "0 < length (lobbies w)"
    "lobby_jobs (lobbies w ! 0) = [LobbyEnter 1]" "GetOwnerSession 1 w = Some 8"
    "lobby_players (lobbies w ! 0) = [(5, 0)]" "receivers w [(5, 0)] = [7]"
    "GetPlayerId 1 w = 3" "GetPlayerName 1 w = [67]" "GetPlayerId 0 w = 5" "GetPlayerName 0 w = [65, 66]"
    by (auto split: option.splits)
  have "\<not> map_has (GetPlayerId 1 w) (lobby_players (lobbies w ! 0))" using w(5,7) by (simp add: map_has_def)
  from Lobby_Enter_roster[OF play_reachable[OF w(1)] w(2,3,4) this, of "replicate 1212 170"]
  have "outbox (run_lobby_job 0 w) = outbox w @ [(7, Msg_NotiLobbyPlayerEnter 3 [67]),
         (8, Msg_ResLobbyEnter 0 [(3, [67]), (5, [65, 66])])]
     \<and> roster_holds 0 [(3, [67]), (5, [65, 66])]
         (msg_bytes (Msg_ResLobbyEnter 0 [(3, [67]), (5, [65, 66])]) (replicate 1212 170))"
    using w(5-10) by (simp add: Let_def del: msg_bytes.simps One_nat_def)
  then show ?thesis using w(1) by blast
qed

section \<open>Chatting in a room\<close>

text \<open>(C28) A chat line reaches the room.  A \<open>ReqRoomChat\<close> of a player whose room has no job waiting queues one
  broadcast, and running it sends every member with a live session, once each and in order of player
  id, a packet that carries the number \<open>Noti_RoomChat\<close>, the id of the speaker, at most 15 bytes of the name and
  at most 255 bytes of the text.\<close>

theorem room_chat_delivery:
  assumes "player_of w s = Some p" "m_currentRoom (players w ! p) = Some r" "r < length (rooms w)"
    and idle: "room_jobs (rooms w ! r) = []"
    and text0: "0 \<in> set (drop (offset cls_ReqRoomChat 0) mem)"
    and out: "size_of cls_NotiRoomChat \<le> length buf"
  shows "let chat = c_str (drop (offset cls_ReqRoomChat 0) mem);
             m = Msg_NotiRoomChat (GetPlayerId p w) (GetPlayerName p w) chat;
             b = msg_bytes m buf
         in \<exists>w'. HandleReqRoomChatPacket mem s w = Inr (True, w')
          \<and> outbox (run_room_job r w') = outbox w @ map (\<lambda>s'. (s', m)) (receivers w (room_players (rooms w ! r)))
          \<and> m_packetNum b = packetNum Noti_RoomChat \<and> m_dataSize b = size16 cls_NotiRoomChat
          \<and> get64 4 b = GetPlayerId p w
          \<and> c_str (bytes_at 12 16 b) = take 15 (c_str (GetPlayerName p w))
          \<and> c_str (bytes_at 28 256 b) = take 255 chat"
proof -
  let ?chat = "c_str (drop (offset cls_ReqRoomChat 0) mem)"
  let ?m = "Msg_NotiRoomChat (GetPlayerId p w) (GetPlayerName p w) ?chat"
  let ?w' = "post_room r (RoomBroadcast ?m) w"
  have h: "HandleReqRoomChatPacket mem s w = Inr (True, ?w')"
    using assms(1,2) text0 by (simp add: HandleReqRoomChatPacket_def cstring_def RoomChat_def)
  have "run_room_job r ?w' = broadcast_to ?m (room_players (rooms w ! r)) (upd_room r (\<lambda>c. c\<lparr>room_jobs := []\<rparr>) w)"
    using assms(3) idle by (simp add: run_room_job_def post_room_def Room_Broadcast_def upd_twice)
  then have o: "outbox (run_room_job r ?w') = outbox w @ map (\<lambda>s'. (s', ?m)) (receivers w (room_players (rooms w ! r)))"
    by (simp add: broadcast_to_eq receivers_def)
  have len: "284 \<le> length buf" using out by simp
  have bytes: "m_packetNum b = packetNum Noti_RoomChat" "m_dataSize b = size16 cls_NotiRoomChat"
    "get64 4 b = GetPlayerId p w" "c_str (bytes_at 12 16 b) = take 15 (c_str (GetPlayerName p w))"
    "c_str (bytes_at 28 256 b) = take 255 ?chat" if "b = msg_bytes ?m buf" for b
    using len unfolding that
    by (simp_all add: NotiRoomChat_Init_def layout_defs m_packetNum_def m_dataSize_def get64_def
        PacketHeader_Init_def put64_def c_str_idem)
  show ?thesis unfolding Let_def using h o bytes[OF refl] by blast
qed

text \<open>Two players in one room; session 7 says \<^verbatim>\<open>hi\<close>.\<close>

definition demo_room :: "wevent list" where
  "demo_room = demo_second @ [EvRoomEnter 7, EvRoomJob 0, EvRoomJob 0, EvRoomEnter 8, EvRoomJob 0, EvRoomJob 0]"

theorem room_chat_delivery_witness:
  "\<exists>w w'. play demo_room world0 = Some w
     \<and> HandleReqRoomChatPacket ([63, 0, 4, 1] @ [104, 105] @ replicate 254 0) 7 w = Inr (True, w')
     \<and> outbox (run_room_job 0 w') = outbox w @
         [(8, Msg_NotiRoomChat 5 [65, 66] [104, 105]), (7, Msg_NotiRoomChat 5 [65, 66] [104, 105])]"
proof -
  let ?mem = "[63, 0, 4, 1] @ [104, 105] @ replicate 254 0 :: byte list"
  have "(case play demo_room world0 of None \<Rightarrow> False | Some w \<Rightarrow> 0 < length (rooms w)
      \<and> player_of w 7 = Some 0 \<and> m_currentRoom (players w ! 0) = Some 0 \<and> room_jobs (rooms w ! 0) = []
      \<and> receivers w (room_players (rooms w ! 0)) = [8, 7]
      \<and> GetPlayerId 0 w = 5 \<and> GetPlayerName 0 w = [65, 66])"
    by code_simp
  then obtain w where w: "play demo_room world0 = Some w" "0 < length (rooms w)" "player_of w 7 = Some 0"
    "m_currentRoom (players w ! 0) = Some 0" "room_jobs (rooms w ! 0) = []"
    "receivers w (room_players (rooms w ! 0)) = [8, 7]" "GetPlayerId 0 w = 5" "GetPlayerName 0 w = [65, 66]"
    by (auto split: option.splits)
  have d: "drop (offset cls_ReqRoomChat 0) ?mem = [104, 105] @ replicate 254 0" by (simp add: layout_defs)
  then have z: "0 \<in> set (drop (offset cls_ReqRoomChat 0) ?mem)" by simp
  have c: "c_str (drop (offset cls_ReqRoomChat 0) ?mem) = [104, 105]" unfolding d by (simp add: c_str_def)
  from room_chat_delivery[OF w(3,4,2,5) z, of "replicate 284 0"]
  show ?thesis using w(1,6-8) unfolding c Let_def by (auto simp del: msg_bytes.simps)
qed

section \<open>Logging in once\<close>

lemma login_done_post [simp]:
  "login_done (post_lobby l j w) = login_done w" "login_done (post_room r k w) = login_done w"
  "login_done (send_to s m w) = login_done w"
  by (simp_all add: post_lobby_def post_room_def send_to_def)

lemma login_done_Assign: "AssignLobby w = Some (l, w') \<Longrightarrow> login_done w' = login_done w"
  by (erule AssignLobby_Some) simp

lemma login_done_Disconnect: "login_done (World_Disconnect s w) = login_done w"
  by (simp add: World_Disconnect_def GameSession_OnDisconnected_def GameSessionSystem_Remove_def
      PlayerSystem_Remove_def LeaveRoom_def LeaveLobby_def Let_def split: option.split)

lemma login_done_OnLoginResult: "login_done (OnLoginResult ok i n s w) s"
  by (auto simp: OnLoginResult_def Let_def login_done_Disconnect PlayerSystem_Add_def
      dest!: login_done_Assign split: option.split)

text \<open>Only the first login result counts: however many authentication results arrive for a session, in
  whatever order, the world is the one the first of them produced.\<close>

lemma OnLoginResult_once:
  "fold (\<lambda>(ok, i, n). OnLoginResult ok i n s) ((ok, i, n) # rs) w = OnLoginResult ok i n s w"
proof -
  have "fold (\<lambda>(ok, i, n). OnLoginResult ok i n s) rs w' = w'" if "login_done w' s" for w'
    using that by (induction rs) (auto simp: OnLoginResult_def)
  then show ?thesis by (simp add: login_done_OnLoginResult)
qed

section \<open>Disconnecting\<close>

lemma LeaveLobby_frame [simp]:
  "rooms (LeaveLobby p w) = rooms w" "connected (LeaveLobby p w) = connected w" "player_of (LeaveLobby p w) = player_of w"
  "length (players (LeaveLobby p w)) = length (players w)" "outbox (LeaveLobby p w) = outbox w"
  "alive (LeaveLobby p w) = alive w" "game_sessions (LeaveLobby p w) = game_sessions w"
  "m_playerId (players (LeaveLobby p w) ! q) = m_playerId (players w ! q)"
  "m_name (players (LeaveLobby p w) ! q) = m_name (players w ! q)"
  "m_ownerSession (players (LeaveLobby p w) ! q) = m_ownerSession (players w ! q)"
  "m_currentRoom (players (LeaveLobby p w) ! q) = m_currentRoom (players w ! q)"
  by (simp_all add: LeaveLobby_def Let_def nth_upd_player post_lobby_def split: option.split)

lemma LeaveRoom_in_room:
  assumes "m_currentRoom (players w ! p) = Some r" "r < length (rooms w)"
  shows "LeaveRoom p w = upd_player p (\<lambda>x. x\<lparr>m_currentRoom := None, m_currentRoomIndex := -1\<rparr>)
    (upd_room r (\<lambda>c. c\<lparr>room_jobs := room_jobs c @ [RoomLeave p, RoomBroadcast (Msg_NotiRoomExit (GetPlayerId p w) (GetPlayerName p w))]\<rparr>) w)"
  using assms by (simp add: LeaveRoom_def post_room_def upd_twice Let_def)

text \<open>(C29) A disconnect cleans up.  Disconnecting the session of player \<open>p\<close> in an idle room takes the player out of
  the player table and the session out of the session set at once; the first job the room then runs
  takes the player off its member map and gives the slot back, and the second tells every remaining member
  with a live session.\<close>

theorem disconnect_cleans_up:
  assumes "connected w s" "player_of w s = Some p" "p < length (players w)"
    and room: "m_currentRoom (players w ! p) = Some r" "r < length (rooms w)" "room_jobs (rooms w ! r) = []"
    and member: "map_has (GetPlayerId p w) (room_players (rooms w ! r))"
  shows "let i = GetPlayerId p w; w1 = World_Disconnect s w; w2 = run_room_job r w1; w3 = run_room_job r w2
         in \<not> connected w1 s \<and> player_of w1 s = None \<and> s \<notin> set (game_sessions w1)
          \<and> PlayerSystem_Find i w1 = None
          \<and> m_currentRoom (players w1 ! p) = None \<and> m_currentLobby (players w1 ! p) = None
          \<and> room_players (rooms w2 ! r) = map_erase i (room_players (rooms w ! r))
          \<and> room_slots (rooms w2 ! r) = room_slots (rooms w ! r) + 1
          \<and> outbox w3 = outbox w @ map (\<lambda>s'. (s', Msg_NotiRoomExit i (GetPlayerName p w)))
              (receivers w (map_erase i (room_players (rooms w ! r))))
          \<and> room_jobs (rooms w3 ! r) = []"
proof -
  let ?i = "GetPlayerId p w" and ?n = "Msg_NotiRoomExit (GetPlayerId p w) (GetPlayerName p w)"
  let ?w0 = "w\<lparr>connected := (connected w)(s := False)\<rparr>"
  define v where "v = LeaveLobby p ?w0"
  have v: "rooms v = rooms w" "m_currentRoom (players v ! p) = Some r" "GetPlayerId q v = GetPlayerId q w"
    "GetPlayerName q v = GetPlayerName q w" "outbox v = outbox w" "length (players v) = length (players w)"
    "GetOwnerSession q v = GetOwnerSession q w" "\<not> connected v s" for q
    using room by (simp_all add: v_def GetOwnerSession_def)
  have lobby: "m_currentLobby (players v ! p) = None"
    using assms(3) by (simp add: v_def LeaveLobby_def Let_def nth_upd_player post_lobby_def split: option.split)
  define u where "u = upd_player p (\<lambda>x. x\<lparr>m_currentRoom := None, m_currentRoomIndex := -1\<rparr>)
    (upd_room r (\<lambda>c. c\<lparr>room_jobs := [RoomLeave p, RoomBroadcast ?n]\<rparr>) v)"
  have leave: "LeaveRoom p v = u"
    using LeaveRoom_in_room[OF v(2)] room by (simp add: v u_def upd_room_def)
  have u: "rooms u ! r = (rooms w ! r)\<lparr>room_jobs := [RoomLeave p, RoomBroadcast ?n]\<rparr>"
    "length (rooms u) = length (rooms w)" "outbox u = outbox w" "\<not> connected u s"
    "GetPlayerId q u = GetPlayerId q w" "GetOwnerSession q u = GetOwnerSession q w"
    "m_currentRoom (players u ! p) = None" "m_currentLobby (players u ! p) = None" for q
    using room lobby assms(3) v by (simp_all add: u_def nth_upd_player)
  define w1 where "w1 = World_Disconnect s w"
  have w1: "w1 = u\<lparr>online := map_erase ?i (online u), player_of := (player_of u)(s := None),
      game_sessions := removeAll s (game_sessions u)\<rparr>"
    using assms(1,2) u(5) unfolding w1_def World_Disconnect_def GameSession_OnDisconnected_def
    by (simp add: v_def[symmetric] leave PlayerSystem_Remove_def GameSessionSystem_Remove_def Let_def)
  have own1: "GetOwnerSession q w1 = GetOwnerSession q w" for q using u(6) by (simp add: w1 GetOwnerSession_def)
  define w2 where "w2 = run_room_job r w1"
  have w2: "w2 = upd_room r (\<lambda>c. c\<lparr>room_jobs := [RoomBroadcast ?n], room_players := map_erase ?i (room_players c),
      room_slots := room_slots c + 1\<rparr>) w1"
    using u room member unfolding w2_def by (simp add: run_room_job_def Room_Leave_def w1 upd_twice)
  have here2: "rooms w2 ! r = (rooms w ! r)\<lparr>room_jobs := [RoomBroadcast ?n],
      room_players := map_erase ?i (room_players (rooms w ! r)), room_slots := room_slots (rooms w ! r) + 1\<rparr>"
    using u room by (simp add: w2 w1)
  have len2: "r < length (rooms w2)" using u(2) room by (simp add: w2 w1)
  have "run_room_job r w2 = broadcast_to ?n (map_erase ?i (room_players (rooms w ! r))) (upd_room r (\<lambda>c. c\<lparr>room_jobs := []\<rparr>) w2)"
    using len2 by (simp add: run_room_job_def here2 Room_Broadcast_def)
  then have w3: "outbox (run_room_job r w2) = outbox w @ map (\<lambda>s'. (s', ?n)) (receivers w (map_erase ?i (room_players (rooms w ! r))))"
    "room_jobs (rooms (run_room_job r w2) ! r) = []"
    using len2 by (simp_all add: broadcast_to_eq receivers_def w2 own1) (simp add: w1 u(3))
  have find: "PlayerSystem_Find ?i w1 = None"
    using map_has_erase[of ?i ?i "online u"] by (simp add: PlayerSystem_Find_def w1 map_has_def)
  show ?thesis
    unfolding Let_def w1_def[symmetric] w2_def[symmetric]
    using w3 find u(4,7,8) here2 by (simp add: w1)
qed

theorem disconnect_cleans_up_witness:
  "\<exists>w. play demo_room world0 = Some w
     \<and> room_players (rooms (run_room_job 0 (World_Disconnect 7 w)) ! 0) = [(3, 1)]
     \<and> outbox (run_room_job 0 (run_room_job 0 (World_Disconnect 7 w))) = outbox w @ [(8, Msg_NotiRoomExit 5 [65, 66])]"
proof -
  have "(case play demo_room world0 of None \<Rightarrow> False | Some w \<Rightarrow> 0 < length (rooms w) \<and> 0 < length (players w)
      \<and> connected w 7 \<and> player_of w 7 = Some 0 \<and> m_currentRoom (players w ! 0) = Some 0 \<and> room_jobs (rooms w ! 0) = []
      \<and> room_players (rooms w ! 0) = [(3, 1), (5, 0)] \<and> receivers w [(3, 1)] = [8]
      \<and> GetPlayerId 0 w = 5 \<and> GetPlayerName 0 w = [65, 66])"
    by code_simp
  then obtain w where w: "play demo_room world0 = Some w" "0 < length (rooms w)" "0 < length (players w)"
    "connected w 7" "player_of w 7 = Some 0" "m_currentRoom (players w ! 0) = Some 0" "room_jobs (rooms w ! 0) = []"
    "room_players (rooms w ! 0) = [(3, 1), (5, 0)]" "receivers w [(3, 1)] = [8]"
    "GetPlayerId 0 w = 5" "GetPlayerName 0 w = [65, 66]"
    by (auto split: option.splits)
  have "map_has (GetPlayerId 0 w) (room_players (rooms w ! 0))" using w(8,10) by (simp add: map_has_def)
  from disconnect_cleans_up[OF w(4,5,3,6,2,7) this] show ?thesis
    using w(1,8-11) by (simp add: Let_def map_erase_def)
qed

section \<open>Interleavings that lose track of a player\<close>

text \<open>A reachable world in which nothing is left to run.\<close>

definition quiescent :: "world \<Rightarrow> bool" where
  "quiescent w \<longleftrightarrow> list_all (\<lambda>c. room_jobs c = []) (rooms w) \<and> list_all (\<lambda>c. lobby_jobs c = []) (lobbies w)"

definition ghost_trace :: "wevent list" where
  "ghost_trace = demo_login @ [EvRoomEnter 7, EvLobbyJob 0, EvDisconnect 7, EvRoomJob 0, EvRoomJob 0, EvDestroy 7]"

text \<open>A disconnect between a room request and the queued entry leaves a ghost.  The entry tests whether the
  session object still exists, not whether it is connected: when the object outlives the disconnect, the
  player is put into the room after the clean-up already ran.  In the world reached nothing is queued, no
  session and no player is left, and the room still holds the player and its slot for good.\<close>

lemma disconnect_before_enter_leaves_ghost:
  "\<exists>w. wstep\<^sup>*\<^sup>* world0 w \<and> quiescent w \<and> online w = [] \<and> game_sessions w = []
     \<and> \<not> connected w 7 \<and> \<not> alive w 7 \<and> room_players (rooms w ! 0) = [(5, 0)] \<and> room_slots (rooms w ! 0) = 7"
proof -
  have "(case play ghost_trace world0 of None \<Rightarrow> False | Some w \<Rightarrow> quiescent w \<and> online w = [] \<and> game_sessions w = []
     \<and> \<not> connected w 7 \<and> \<not> alive w 7 \<and> room_players (rooms w ! 0) = [(5, 0)] \<and> room_slots (rooms w ! 0) = 7)"
    by code_simp
  then show ?thesis by (auto split: option.splits dest: play_reachable)
qed

text \<open>Eight players fill the first room, then the first of them asks for a room once more.\<close>

definition join_events :: "nat \<Rightarrow> wevent list" where
  "join_events s = [EvConnect s, EvLogin True (of_nat s) [65] s, EvLobbyJob 0, EvRoomEnter s, EvLobbyJob 0,
     EvRoomJob 0, EvRoomJob 0]"

definition two_rooms_trace :: "wevent list" where
  "two_rooms_trace = concat (map join_events [1..<9]) @ [EvRoomEnter 1, EvRoomJob 1, EvRoomJob 1, EvRoomExit 1,
     EvRoomJob 1, EvRoomJob 1, EvLobbyJob 0]"

text \<open>A player can be in two rooms.  \<open>HandleReqRoomEnterPacket\<close> does not ask whether the player already is
  in a room, so a second request against a full room enters a second one; leaving then gives up
  only the second, and the player sits in a lobby and still is a member of the first room.\<close>

lemma second_enter_keeps_first_room:
  "\<exists>w. wstep\<^sup>*\<^sup>* world0 w \<and> quiescent w \<and> m_currentRoom (players w ! 0) = None
     \<and> m_currentLobby (players w ! 0) = Some 0 \<and> map_has 1 (lobby_players (lobbies w ! 0))
     \<and> map_has 1 (room_players (rooms w ! 0)) \<and> room_slots (rooms w ! 0) = 0 \<and> room_slots (rooms w ! 1) = 8"
proof -
  have "(case play two_rooms_trace world0 of None \<Rightarrow> False | Some w \<Rightarrow> quiescent w \<and> m_currentRoom (players w ! 0) = None
     \<and> m_currentLobby (players w ! 0) = Some 0 \<and> map_has 1 (lobby_players (lobbies w ! 0))
     \<and> map_has 1 (room_players (rooms w ! 0)) \<and> room_slots (rooms w ! 0) = 0 \<and> room_slots (rooms w ! 1) = 8)"
    by code_simp
  then show ?thesis by (auto split: option.splits dest: play_reachable)
qed

definition duplicate_trace :: "wevent list" where
  "duplicate_trace = [EvConnect 1, EvConnect 2, EvLogin True 5 [65] 1, EvLobbyJob 0, EvLogin True 5 [65] 2,
     EvLobbyJob 0, EvDisconnect 2, EvDestroy 2]"

text \<open>One account can log in twice, and the second session's disconnect removes the first player from the
  player table: \<open>Add\<close> keeps the first entry under the account id, \<open>Remove\<close> erases by id whoever is stored
  there.  The first player stays connected and in its lobby but can no longer be found.\<close>

lemma duplicate_login_unregisters_first:
  "\<exists>w. wstep\<^sup>*\<^sup>* world0 w \<and> quiescent w \<and> connected w 1 \<and> player_of w 1 = Some 0 \<and> GetPlayerId 0 w = 5
     \<and> map_has 5 (lobby_players (lobbies w ! 0)) \<and> PlayerSystem_Find 5 w = None \<and> GetPlayers w = []"
proof -
  have "(case play duplicate_trace world0 of None \<Rightarrow> False | Some w \<Rightarrow> quiescent w \<and> connected w 1 \<and> player_of w 1 = Some 0
     \<and> GetPlayerId 0 w = 5 \<and> map_has 5 (lobby_players (lobbies w ! 0)) \<and> PlayerSystem_Find 5 w = None \<and> GetPlayers w = [])"
    by code_simp
  then show ?thesis by (auto split: option.splits dest: play_reachable)
qed

end
