(* ===== verification/Roster.thy ===== *)
theory Roster
  imports WorldProps
begin

text \<open>
  Who is online: the invariant that ties the table of \<^verbatim>\<open>PlayerSystem\<close> to the sessions.  Most steps of the world
  do not touch sessions at all; \<open>session_part\<close> is what they leave alone.
\<close>

definition session_part :: "world \<Rightarrow> (uint64 \<times> nat) list \<times> (nat \<Rightarrow> bool) \<times> (nat \<Rightarrow> bool) \<times> (nat \<Rightarrow> nat option) \<times> (nat \<Rightarrow> bool) \<times> nat list" where
  "session_part w = (online w, alive w, connected w, player_of w, login_done w, game_sessions w)"

lemma session_part_upd [simp]:
  "session_part (upd_player p f w) = session_part w" "session_part (upd_room r g w) = session_part w"
  "session_part (upd_lobby l h w) = session_part w" "session_part (post_room r j w) = session_part w"
  "session_part (post_lobby l k w) = session_part w" "session_part (send_to s m w) = session_part w"
  "session_part (broadcast_to m ps w) = session_part w"
  "session_part (SetCurrentRoom p x w) = session_part w" "session_part (SetCurrentLobby p y w) = session_part w"
  by (simp_all add: session_part_def post_room_def post_lobby_def send_to_def broadcast_to_eq SetCurrentRoom_def SetCurrentLobby_def)

lemma session_part_Player [simp]:
  "session_part (EnterRoom p w) = session_part w" "session_part (LeaveRoom p w) = session_part w"
  "session_part (LeaveLobby p w) = session_part w" "session_part (RoomChat p msg w) = session_part w"
  "session_part (Player_LobbyChat p msg w) = session_part w"
  by (simp_all add: EnterRoom_def LeaveRoom_def LeaveLobby_def RoomChat_def Player_LobbyChat_def Let_def split: option.split)

lemma session_part_Assign: "AssignLobby w = Some (l, w') \<Longrightarrow> session_part w' = session_part w"
  by (erule AssignLobby_Some) (simp add: session_part_def)

lemma session_part_room_run [simp]: "session_part (room_run r j w) = session_part w"
  by (cases j) (auto simp: Room_Enter_def Room_Leave_def Room_Broadcast_def EnterRoomFailed_def Let_def try_emplace_def)

lemma session_part_lobby_run [simp]: "session_part (lobby_run l j w) = session_part w"
  by (cases j) (auto simp: Lobby_Enter_def Lobby_Exit_def Lobby_Chat_def Lobby_Broadcast_def Let_def try_emplace_def split: option.split)

lemma session_part_handlers:
  "HandleReqRoomEnterPacket mem s w = Inr (b, w') \<Longrightarrow> session_part w' = session_part w"
  "HandleReqRoomChatPacket mem s w = Inr (b, w') \<Longrightarrow> session_part w' = session_part w"
  "HandleReqRoomExitPacket mem s w = Inr (b, w') \<Longrightarrow> session_part w' = session_part w"
  "HandleReqLobbyChatPacket mem s w = Inr (b, w') \<Longrightarrow> session_part w' = session_part w"
  "HandleReqRoomListPacket mem s w = Inr (b, w') \<Longrightarrow> session_part w' = session_part w"
proof -
  assume a: "HandleReqRoomEnterPacket mem s w = Inr (b, w')"
  have mk: "session_part (w1\<lparr>rooms := rs\<rparr>) = session_part w1" for w1 rs by (simp add: session_part_def)
  show "session_part w' = session_part w" using a
    by (auto simp: HandleReqRoomEnterPacket_def GetNotFullRoom_def MakeRoom_def ASSERT_CRASH_def Let_def mk
        split: option.splits if_splits prod.splits)
next
  assume "HandleReqRoomExitPacket mem s w = Inr (b, w')"
  then show "session_part w' = session_part w"
    by (auto simp: HandleReqRoomExitPacket_def LeaveRoomAndReenterLobby_def Let_def split: option.splits dest: session_part_Assign)
qed (auto simp: HandleReqRoomChatPacket_def HandleReqLobbyChatPacket_def HandleReqRoomListPacket_def cstring_def Let_def
      split: option.splits if_splits)

section \<open>The invariant\<close>

text \<open>Every entry of the table is a player of that id whose session is connected and owns it; connected sessions
  exist; only a session whose login was answered has a player; the set of sessions is the set of connected ones.\<close>

definition roster :: "world \<Rightarrow> bool" where
  "roster w \<longleftrightarrow> (\<forall>(i, p) \<in> set (online w). p < length (players w) \<and> GetPlayerId p w = i
      \<and> connected w (m_ownerSession (players w ! p)) \<and> player_of w (m_ownerSession (players w ! p)) = Some p)
   \<and> (\<forall>s. connected w s \<longrightarrow> alive w s) \<and> (\<forall>s. player_of w s \<noteq> None \<longrightarrow> login_done w s)
   \<and> (\<forall>s. s \<in> set (game_sessions w) \<longleftrightarrow> connected w s)"

lemma rosterD:
  assumes "roster w" "(i, p) \<in> set (online w)"
  shows "p < length (players w)" "GetPlayerId p w = i" "connected w (m_ownerSession (players w ! p))"
    "player_of w (m_ownerSession (players w ! p)) = Some p" "alive w (m_ownerSession (players w ! p))"
  using assms by (auto simp: roster_def)

text \<open>The entries keep their meaning while players keep their identity.\<close>

lemma roster_entries:
  assumes "roster w" "evolves w w'" "(i, p) \<in> set (online w)"
  shows "p < length (players w')" "GetPlayerId p w' = i" "m_ownerSession (players w' ! p) = m_ownerSession (players w ! p)"
proof -
  note r = rosterD[OF assms(1,3)]
  then have "same_player (players w ! p) (players w' ! p)" "length (players w) \<le> length (players w')"
    using assms(2) by (auto simp: evolves_def)
  then show "p < length (players w')" "GetPlayerId p w' = i" "m_ownerSession (players w' ! p) = m_ownerSession (players w ! p)"
    using r by auto
qed

lemma roster_frame:
  assumes "roster w" "evolves w w'" "session_part w' = session_part w"
  shows "roster w'"
proof -
  have sp: "online w' = online w" "alive w' = alive w" "connected w' = connected w" "player_of w' = player_of w" "login_done w' = login_done w"
    "game_sessions w' = game_sessions w"
    using assms(3) by (simp_all add: session_part_def)
  show ?thesis unfolding roster_def sp
    using roster_entries[OF assms(1,2)] assms(1)[unfolded roster_def] by auto
qed

lemma players_frames [simp]:
  "session_part (PlayerSystem_Remove p w) = session_part (w\<lparr>online := map_erase (GetPlayerId p w) (online w)\<rparr>)"
  "players (GameSessionSystem_Remove s w) = players w"
  by (simp_all add: PlayerSystem_Remove_def GameSessionSystem_Remove_def)

text \<open>What a disconnect does to the sessions.\<close>

lemma World_Disconnect_sessions:
  assumes "connected w s"
  shows "session_part (World_Disconnect s w) = ((case player_of w s of Some p \<Rightarrow> map_erase (GetPlayerId p w) (online w) | None \<Rightarrow> online w),
     alive w, (connected w)(s := False), (player_of w)(s := None), login_done w, removeAll s (game_sessions w))"
proof -
  have id: "GetPlayerId p (LeaveRoom p (LeaveLobby p v)) = GetPlayerId p v" for p v
    by (simp add: LeaveRoom_def LeaveLobby_def Let_def nth_upd_player post_room_def post_lobby_def split: option.split)
  have "session_part (LeaveRoom p (LeaveLobby p v)) = session_part v" for p v by simp
  then show ?thesis using assms id
    by (auto simp: World_Disconnect_def GameSession_OnDisconnected_def PlayerSystem_Remove_def GameSessionSystem_Remove_def
        session_part_def Let_def split: option.split)
qed

lemma roster_Disconnect:
  assumes "roster w"
  shows "roster (World_Disconnect s w)"
proof (cases "connected w s")
  case True
  let ?w = "World_Disconnect s w"
  have ev: "evolves w ?w" by (rule evolves_World_Disconnect)
  have sp: "alive ?w = alive w" "connected ?w = (connected w)(s := False)" "player_of ?w = (player_of w)(s := None)"
    "login_done ?w = login_done w" "game_sessions ?w = removeAll s (game_sessions w)"
    "online ?w = (case player_of w s of Some p \<Rightarrow> map_erase (GetPlayerId p w) (online w) | None \<Rightarrow> online w)"
    using World_Disconnect_sessions[OF True] by (simp_all add: session_part_def)
  have other: "(i, p) \<in> set (online w) \<and> m_ownerSession (players w ! p) \<noteq> s" if "(i, p) \<in> set (online ?w)" for i p
    using that sp(6) rosterD[OF assms, of i p] by (auto simp: map_erase_def split: option.splits)
  show ?thesis unfolding roster_def
  proof (intro conjI)
    show "\<forall>(i, p) \<in> set (online ?w). p < length (players ?w) \<and> GetPlayerId p ?w = i
        \<and> connected ?w (m_ownerSession (players ?w ! p)) \<and> player_of ?w (m_ownerSession (players ?w ! p)) = Some p"
    proof (safe, goal_cases)
      case (1 i p) then show ?case using roster_entries[OF assms ev] other by blast
    next
      case (2 i p) then show ?case using roster_entries[OF assms ev] other by blast
    next
      case (3 i p)
      note e = conjunct1[OF other[OF 3]]
      show ?case using roster_entries(3)[OF assms ev e] rosterD(3)[OF assms e] other[OF 3] by (simp add: sp)
    next
      case (4 i p)
      note e = conjunct1[OF other[OF 4]]
      show ?case using roster_entries(3)[OF assms ev e] rosterD(4)[OF assms e] other[OF 4] by (simp add: sp)
    qed
  qed (use assms sp in \<open>auto simp: roster_def\<close>)
qed (use assms in \<open>simp add: World_Disconnect_def\<close>)

lemma roster_login:
  assumes "roster w"
  shows "roster (OnLoginResult ok i n s w)"
proof -
  let ?w1 = "w\<lparr>login_done := (login_done w)(s := True)\<rparr>"
  have w1: "roster ?w1" using assms by (auto simp: roster_def)
  consider "login_done w s \<or> \<not> connected w s" | "\<not> login_done w s" "connected w s" "\<not> ok"
    | "\<not> login_done w s" "connected w s" ok by blast
  then show ?thesis
  proof cases
    case 1
    then show ?thesis using assms w1 by (auto simp: OnLoginResult_def)
  next
    case 2
    have "roster (send_to s Msg_ResLoginFailed ?w1)" using w1 by (rule roster_frame) (simp_all add: evolves_send evolves_refl)
    then show ?thesis using 2 by (simp add: OnLoginResult_def roster_Disconnect)
  next
    case 3
    let ?p = "length (players w)"
    let ?w2 = "?w1\<lparr>players := players w @ [Player_ctor s i n], player_of := (player_of w)(s := Some ?p)\<rparr>"
    let ?w3 = "PlayerSystem_Add ?p ?w2"
    have none: "player_of w s = None" using assms 3(1) by (auto simp: roster_def)
    have on: "e \<in> set (online ?w3) \<Longrightarrow> e = (i, ?p) \<or> e \<in> set (online w)" for e
      by (auto simp: PlayerSystem_Add_def try_emplace_def Player_ctor_def set_map_insert split: if_splits)
    have w3: "roster ?w3" unfolding roster_def
    proof (intro conjI)
      show "\<forall>(j, q) \<in> set (online ?w3). q < length (players ?w3) \<and> GetPlayerId q ?w3 = j
          \<and> connected ?w3 (m_ownerSession (players ?w3 ! q)) \<and> player_of ?w3 (m_ownerSession (players ?w3 ! q)) = Some q"
        using on rosterD[OF assms] 3(2) none by (fastforce simp: PlayerSystem_Add_def Player_ctor_def nth_append)
    qed (use assms in \<open>auto simp: roster_def PlayerSystem_Add_def\<close>)
    let ?w4 = "send_to s (Msg_ResLogin (GetPlayerId ?p ?w3) (GetPlayerName ?p ?w3)) ?w3"
    have w4: "roster ?w4" using w3 by (rule roster_frame) (simp_all add: evolves_send evolves_refl)
    have "roster w5 \<and> roster (post_lobby l (LobbyEnter ?p) w5)" if "AssignLobby ?w4 = Some (l, w5)" for l w5
    proof -
      have sp: "session_part w5 = session_part ?w4" "players w5 = players ?w4"
        using session_part_Assign[OF that] that by (auto elim: AssignLobby_Some)
      then have "roster w5" using w4 by (simp add: roster_def session_part_def)
      then show ?thesis by (simp add: roster_def post_lobby_def)
    qed
    then show ?thesis using 3 w4 by (auto simp: OnLoginResult_def Let_def split: option.split)
  qed
qed

interpretation table: invariant_system "\<lambda>w. w = world0" wstep roster
proof
  show "roster w" if "w = world0" for w using that by (simp add: roster_def world0_def)
  fix w w' assume r: "roster w" and step: "wstep w w'"
  note frame = roster_frame[OF r evolves_wstep[OF step]]
  from step show "roster w'"
  proof cases
    case (connect s)
    then show ?thesis using r by (auto simp: roster_def GameSession_OnConnected_def GameSessionSystem_Add_def split: if_splits)
  next
    case (destroy s)
    then show ?thesis using r by (fastforce simp: roster_def)
  next
    case (room_job r)
    then show ?thesis by (intro frame) (simp add: run_room_job_def split: list.split)
  next
    case (lobby_job l)
    then show ?thesis by (intro frame) (simp add: run_lobby_job_def split: list.split)
  qed (auto intro: roster_login[OF r] roster_Disconnect[OF r] frame dest: session_part_handlers)
qed

lemmas roster_reachable = table.inv_reachable[OF refl]

end
