(* ===== verification/JobQueue.thy ===== *)
theory JobQueue
  imports Interfaces
begin

text \<open>
  \<^verbatim>\<open>DhUtil/{Job,LockQueue,GlobalQueue,JobQueue,ThreadManager}\<close>: the job queues that serialise the work on
  a room or a lobby.  The lists behind the lock are functions; one job queue, shared by the threads that
  push to it and run it, is a step relation with one step per access to its shared state.  Shown: at most
  one thread runs a queue at any time, jobs run in push order and once each, and none is left behind.
\<close>

section \<open>LockQueue and GlobalQueue\<close>

text \<open>The items are (smart) pointers: \<open>None\<close> is the null pointer \<^verbatim>\<open>T()\<close>.\<close>

definition LockQueue_Push :: "'a option \<Rightarrow> 'a option list \<Rightarrow> 'a option list" where
  "LockQueue_Push item items = items @ [item]"

fun LockQueue_Pop :: "'a option list \<Rightarrow> 'a option \<times> 'a option list" where
  "LockQueue_Pop [] = (None, [])"
| "LockQueue_Pop (ret # items) = (ret, items)"

text \<open>\<^verbatim>\<open>while (T item = Pop()) items.push_back(item)\<close>: stops at the first null item.\<close>

fun LockQueue_PopAll :: "'a option list \<Rightarrow> 'a list \<times> 'a option list" where
  "LockQueue_PopAll [] = ([], [])"
| "LockQueue_PopAll (None # items) = ([], items)"
| "LockQueue_PopAll (Some item # items) = (let (xs, rest) = LockQueue_PopAll items in (item # xs, rest))"

definition LockQueue_Clear :: "'a option list \<Rightarrow> 'a option list" where
  "LockQueue_Clear items = []"

definition GlobalQueue_Push :: "'q \<Rightarrow> 'q option list \<Rightarrow> 'q option list" where
  "GlobalQueue_Push jobQueue = LockQueue_Push (Some jobQueue)"

definition GlobalQueue_Pop :: "'q option list \<Rightarrow> 'q option \<times> 'q option list" where
  "GlobalQueue_Pop = LockQueue_Pop"

lemma PopAll_map_Some [simp]: "LockQueue_PopAll (map Some xs) = (xs, [])"
  by (induction xs) auto

interpretation gq: fifo "[]" GlobalQueue_Push GlobalQueue_Pop "\<lambda>q. map the q" "\<lambda>q. None \<notin> set q"
proof unfold_locales
  fix q :: "'q option list" and x
  assume inv: "None \<notin> set q"
  show "None \<notin> set (GlobalQueue_Push x q) \<and> map the (GlobalQueue_Push x q) = map the q @ [x]"
    using inv by (simp add: GlobalQueue_Push_def LockQueue_Push_def)
  show "GlobalQueue_Pop q = (None, q)" if "map the q = []" using that by (simp add: GlobalQueue_Pop_def)
  show "\<exists>q'. GlobalQueue_Pop q = (Some y, q') \<and> None \<notin> set q' \<and> map the q' = ys" if "map the q = y # ys" for y ys
    using that inv by (cases q) (auto simp: GlobalQueue_Pop_def)
qed simp

section \<open>One job queue and the threads that use it\<close>

text \<open>Where a thread is: \<open>PAdded j prev\<close> has incremented \<open>m_jobCount\<close> (it was \<open>prev\<close>), \<open>PPushed prev\<close> has
  queued its job; \<open>ETop\<close> is at the head of the loop of \<open>Execute\<close>, \<open>ERun js n\<close> has \<open>js\<close> left of a batch of
  \<open>n\<close>, \<open>ETime\<close> is about to read the clock.\<close>

datatype 'j jpc = Idle | PAdded 'j int | PPushed int | ETop | ERun "'j list" int | ETime

record 'j jq =
  m_jobs :: "'j option list"
  m_jobCount :: int
  inGlobal :: nat
  pcs :: "nat \<Rightarrow> 'j jpc"
  pushed :: "'j list"
  ran :: "'j list"

abbreviation goto :: "nat \<Rightarrow> 'j jpc \<Rightarrow> 'j jq \<Rightarrow> 'j jq" where
  "goto t p s \<equiv> s\<lparr>pcs := (pcs s)(t := p)\<rparr>"

text \<open>\<open>T\<close> are the threads; \<open>again\<close> says whether the queue is one of \<open>ThreadManager::PushGlobalQueue\<close>,
  which puts it into the global queue once more after \<open>DoAsync\<close>.\<close>

inductive jstep :: "bool \<Rightarrow> nat set \<Rightarrow> 'j jq \<Rightarrow> 'j jq \<Rightarrow> bool" for again T where
  Push_count: "t \<in> T \<Longrightarrow> pcs s t = Idle \<Longrightarrow>
    jstep again T s ((goto t (PAdded j (m_jobCount s)) s)\<lparr>m_jobCount := m_jobCount s + 1\<rparr>)"
| Push_queue: "t \<in> T \<Longrightarrow> pcs s t = PAdded j prev \<Longrightarrow>
    jstep again T s ((goto t (PPushed prev) s)\<lparr>m_jobs := LockQueue_Push (Some j) (m_jobs s), pushed := pushed s @ [j]\<rparr>)"
| Push_return: "t \<in> T \<Longrightarrow> pcs s t = PPushed prev \<Longrightarrow> prev \<noteq> 0 \<Longrightarrow> jstep again T s (goto t Idle s)"
| Push_global: "t \<in> T \<Longrightarrow> pcs s t = PPushed 0 \<Longrightarrow> jstep again T s ((goto t Idle s)\<lparr>inGlobal := inGlobal s + 1\<rparr>)"
| Push_execute: "t \<in> T \<Longrightarrow> pcs s t = PPushed 0 \<Longrightarrow> jstep again T s (goto t ETop s)"
| Global_pop: "t \<in> T \<Longrightarrow> pcs s t = Idle \<Longrightarrow> 0 < inGlobal s \<Longrightarrow>
    jstep again T s ((goto t ETop s)\<lparr>inGlobal := inGlobal s - 1\<rparr>)"
| Execute_pop: "t \<in> T \<Longrightarrow> pcs s t = ETop \<Longrightarrow> LockQueue_PopAll (m_jobs s) = (js, rest) \<Longrightarrow>
    jstep again T s ((goto t (ERun js (int (length js))) s)\<lparr>m_jobs := rest\<rparr>)"
| Execute_job: "t \<in> T \<Longrightarrow> pcs s t = ERun (j # js) n \<Longrightarrow>
    jstep again T s ((goto t (ERun js n) s)\<lparr>ran := ran s @ [j]\<rparr>)"
| Execute_count: "t \<in> T \<Longrightarrow> pcs s t = ERun [] n \<Longrightarrow>
    jstep again T s ((goto t (if m_jobCount s = n then Idle else ETime) s)\<lparr>m_jobCount := m_jobCount s - n\<rparr>)"
| Execute_timeout: "t \<in> T \<Longrightarrow> pcs s t = ETime \<Longrightarrow> jstep again T s ((goto t Idle s)\<lparr>inGlobal := inGlobal s + 1\<rparr>)"
| Execute_again: "t \<in> T \<Longrightarrow> pcs s t = ETime \<Longrightarrow> jstep again T s (goto t ETop s)"
| PushGlobalQueue_again: "again \<Longrightarrow> t \<in> T \<Longrightarrow> pcs s t = Idle \<Longrightarrow> pushed s \<noteq> [] \<Longrightarrow>
    jstep again T s (s\<lparr>inGlobal := inGlobal s + 1\<rparr>)"

definition JobQueue_ctor :: "'j jq" where
  "JobQueue_ctor = \<lparr>m_jobs = [], m_jobCount = 0, inGlobal = 0, pcs = \<lambda>_. Idle, pushed = [], ran = []\<rparr>"

fun executing :: "'j jpc \<Rightarrow> bool" where
  "executing ETop = True" | "executing (ERun js n) = True" | "executing ETime = True"
| "executing Idle = False" | "executing (PAdded j prev) = False" | "executing (PPushed prev) = False"

section \<open>Uninterrupted calls\<close>

text \<open>\<open>Push\<close> and \<open>Execute\<close> as one thread runs them when nobody else touches the queue and the jobs push
  nothing to it; \<open>busy\<close> says whether the thread is already inside some \<open>Execute\<close>
  (\<^verbatim>\<open>LCurrentJobQueue != nullptr\<close>).\<close>

definition JobQueue_Execute :: "'j jq \<Rightarrow> 'j jq" where
  "JobQueue_Execute s =
     (let (js, rest) = LockQueue_PopAll (m_jobs s);
          s' = s\<lparr>m_jobs := rest, ran := ran s @ js, m_jobCount := m_jobCount s - int (length js)\<rparr> in
      if m_jobCount s = int (length js) then s' else s'\<lparr>inGlobal := inGlobal s' + 1\<rparr>)"

definition JobQueue_Push :: "bool \<Rightarrow> 'j \<Rightarrow> 'j jq \<Rightarrow> 'j jq" where
  "JobQueue_Push busy job s =
     (let prevCount = m_jobCount s;
          s = s\<lparr>m_jobCount := m_jobCount s + 1, m_jobs := LockQueue_Push (Some job) (m_jobs s), pushed := pushed s @ [job]\<rparr> in
      if prevCount = 0 then (if busy then s\<lparr>inGlobal := inGlobal s + 1\<rparr> else JobQueue_Execute s) else s)"

definition PushGlobalQueue :: "bool \<Rightarrow> 'j \<Rightarrow> 'j jq" where
  "PushGlobalQueue busy job =
     (let jobQueue = JobQueue_Push busy job JobQueue_ctor in jobQueue\<lparr>inGlobal := inGlobal jobQueue + 1\<rparr>)"

text \<open>The id counter of \<open>ThreadManager::InitTLS\<close>: the id of the starting thread and the next counter.\<close>

definition InitTLS :: "uint32 \<Rightarrow> uint32 \<times> uint32" where
  "InitTLS SThreadId = (SThreadId, SThreadId + 1)"

fun launch_ids :: "nat \<Rightarrow> uint32 \<Rightarrow> uint32 list" where
  "launch_ids 0 c = []"
| "launch_ids (Suc n) c = (let (tid, c') = InitTLS c in tid # launch_ids n c')"

section \<open>Invariant\<close>

text \<open>Weights of a thread: jobs it counted but has not queued; jobs it took but has not subtracted;
  the right to run the queue.\<close>

fun w_add :: "'j jpc \<Rightarrow> nat" where
  "w_add (PAdded j prev) = 1" | "w_add Idle = 0" | "w_add (PPushed prev) = 0" | "w_add ETop = 0"
| "w_add (ERun js n) = 0" | "w_add ETime = 0"

fun w_out :: "'j jpc \<Rightarrow> nat" where
  "w_out (ERun js n) = nat n" | "w_out Idle = 0" | "w_out (PPushed prev) = 0" | "w_out ETop = 0"
| "w_out (PAdded j prev) = 0" | "w_out ETime = 0"

fun w_tok :: "'j jpc \<Rightarrow> nat" where
  "w_tok (PAdded j prev) = (if prev = 0 then 1 else 0)" | "w_tok (PPushed prev) = (if prev = 0 then 1 else 0)"
| "w_tok ETop = 1" | "w_tok (ERun js n) = 1" | "w_tok ETime = 1" | "w_tok Idle = 0"

text \<open>\<open>m_jobCount\<close> counts every job that was announced and not yet subtracted; exactly one party has
  the right to run a queue with a positive count, nobody otherwise; what has run, what is left of the
  current batch, and what is queued is what was pushed, in order.\<close>

definition jq_inv :: "nat set \<Rightarrow> 'j jq \<Rightarrow> bool" where
  "jq_inv T s \<longleftrightarrow> finite T \<and> (\<forall>t. t \<notin> T \<longrightarrow> pcs s t = Idle)
   \<and> m_jobCount s = int (length (m_jobs s) + weight T w_add (pcs s) + weight T w_out (pcs s))
   \<and> weight T w_tok (pcs s) + inGlobal s = (if m_jobCount s = 0 then 0 else 1)
   \<and> (\<exists>q. m_jobs s = map Some q \<and>
        (\<forall>t js n. pcs s t = ERun js n \<longrightarrow> ran s @ js @ q = pushed s \<and> 0 \<le> n)
      \<and> ((\<forall>t js n. pcs s t \<noteq> ERun js n) \<longrightarrow> ran s @ q = pushed s))"

definition jq_order :: "'j jq \<Rightarrow> bool" where
  "jq_order s \<longleftrightarrow> (\<exists>q. m_jobs s = map Some q \<and>
        (\<forall>t js n. pcs s t = ERun js n \<longrightarrow> ran s @ js @ q = pushed s \<and> 0 \<le> n)
      \<and> ((\<forall>t js n. pcs s t \<noteq> ERun js n) \<longrightarrow> ran s @ q = pushed s))"

definition jq_counts :: "nat set \<Rightarrow> 'j jq \<Rightarrow> bool" where
  "jq_counts T s \<longleftrightarrow>
     m_jobCount s = int (length (m_jobs s) + weight T w_add (pcs s) + weight T w_out (pcs s))
   \<and> weight T w_tok (pcs s) + inGlobal s = (if m_jobCount s = 0 then 0 else 1)"

lemma jq_inv_alt: "jq_inv T s \<longleftrightarrow> finite T \<and> (\<forall>t. t \<notin> T \<longrightarrow> pcs s t = Idle) \<and> jq_counts T s \<and> jq_order s"
  by (simp add: jq_inv_def jq_counts_def jq_order_def)

lemma jq_counts_step:
  assumes step: "jstep False T s s'" and fin: "finite T" and inv: "jq_counts T s"
    and nn: "\<forall>t js n. pcs s t = ERun js n \<longrightarrow> 0 \<le> n" and some: "\<exists>q. m_jobs s = map Some q"
  shows "jq_counts T s'"
proof -
  note c = inv[unfolded jq_counts_def]
  have up: "weight T w ((pcs s)(t := p)) + w (pcs s t) = weight T w (pcs s) + w p"
    if "t \<in> T" for t p and w :: "'a jpc \<Rightarrow> nat" using weight_upd[OF fin that] .
  show ?thesis
    using step
  proof cases
    case (Push_count t j)
    show ?thesis unfolding jq_counts_def
      using c up[OF Push_count(2), of w_add "PAdded j (m_jobCount s)"] up[OF Push_count(2), of w_out "PAdded j (m_jobCount s)"] up[OF Push_count(2), of w_tok "PAdded j (m_jobCount s)"] Push_count
      by (auto split: if_splits)
  next
    case (Push_queue t j prev)
    show ?thesis unfolding jq_counts_def
      using c up[OF Push_queue(2), of w_add "PPushed prev"] up[OF Push_queue(2), of w_out "PPushed prev"] up[OF Push_queue(2), of w_tok "PPushed prev"] Push_queue
      by (auto simp: LockQueue_Push_def)
  next
    case (Push_return t prev)
    show ?thesis unfolding jq_counts_def
      using c up[OF Push_return(2), of w_add "Idle"] up[OF Push_return(2), of w_out "Idle"] up[OF Push_return(2), of w_tok "Idle"] Push_return
      by auto
  next
    case (Push_global t)
    show ?thesis unfolding jq_counts_def
      using c up[OF Push_global(2), of w_add "Idle"] up[OF Push_global(2), of w_out "Idle"] up[OF Push_global(2), of w_tok "Idle"] Push_global
      by auto
  next
    case (Push_execute t)
    show ?thesis unfolding jq_counts_def
      using c up[OF Push_execute(2), of w_add "ETop"] up[OF Push_execute(2), of w_out "ETop"] up[OF Push_execute(2), of w_tok "ETop"] Push_execute
      by auto
  next
    case (Global_pop t)
    show ?thesis unfolding jq_counts_def
      using c up[OF Global_pop(2), of w_add "ETop"] up[OF Global_pop(2), of w_out "ETop"] up[OF Global_pop(2), of w_tok "ETop"] Global_pop
      by auto
  next
    case (Execute_pop t js rest)
    have "length (m_jobs s) = length js" "rest = []" using Execute_pop(4) some by auto
    then show ?thesis unfolding jq_counts_def
      using c up[OF Execute_pop(2), of w_add "ERun js (int (length js))"] up[OF Execute_pop(2), of w_out "ERun js (int (length js))"] up[OF Execute_pop(2), of w_tok "ERun js (int (length js))"] Execute_pop
      by auto
  next
    case (Execute_job t j js n)
    show ?thesis unfolding jq_counts_def
      using c up[OF Execute_job(2), of w_add "ERun js n"] up[OF Execute_job(2), of w_out "ERun js n"] up[OF Execute_job(2), of w_tok "ERun js n"] Execute_job
      by auto
  next
    case (Execute_count t n)
    have n: "0 \<le> n" using nn Execute_count(3) by blast
    show ?thesis unfolding jq_counts_def
      using c n up[OF Execute_count(2), of w_add "if m_jobCount s = n then Idle else ETime"] up[OF Execute_count(2), of w_out "if m_jobCount s = n then Idle else ETime"] up[OF Execute_count(2), of w_tok "if m_jobCount s = n then Idle else ETime"] Execute_count
      by (auto split: if_splits)
  next
    case (Execute_timeout t)
    show ?thesis unfolding jq_counts_def
      using c up[OF Execute_timeout(2), of w_add "Idle"] up[OF Execute_timeout(2), of w_out "Idle"] up[OF Execute_timeout(2), of w_tok "Idle"] Execute_timeout
      by auto
  next
    case (Execute_again t)
    show ?thesis unfolding jq_counts_def
      using c up[OF Execute_again(2), of w_add "ETop"] up[OF Execute_again(2), of w_out "ETop"] up[OF Execute_again(2), of w_tok "ETop"] Execute_again
      by auto
  qed simp
qed

lemma one_executor:
  assumes "finite T" "jq_counts T s" "\<forall>t. t \<notin> T \<longrightarrow> pcs s t = Idle" "0 < w_tok (pcs s t)" "0 < w_tok (pcs s t')"
  shows "t = t'"
proof (rule ccontr)
  assume "t \<noteq> t'"
  have "t \<in> T" "t' \<in> T" using assms(3,4,5) by force+
  then have "w_tok (pcs s t) + w_tok (pcs s t') \<le> weight T w_tok (pcs s)"
    using weight_two[OF assms(1)] \<open>t \<noteq> t'\<close> by blast
  then show False using assms(2,4,5) by (auto simp: jq_counts_def split: if_splits)
qed

lemma no_other_batch:
  assumes "jq_inv T s" "0 < w_tok (pcs s t)" "t' \<noteq> t"
  shows "pcs s t' \<noteq> ERun js n"
  using one_executor[of T s t t'] assms by (auto simp: jq_inv_alt)

lemma jq_orderI:
  assumes "m_jobs s = map Some q"
    and "\<And>t js n. pcs s t = ERun js n \<Longrightarrow> ran s @ js @ q = pushed s \<and> 0 \<le> n"
    and "(\<And>t js n. pcs s t \<noteq> ERun js n) \<Longrightarrow> ran s @ q = pushed s"
  shows "jq_order s"
  unfolding jq_order_def using assms by blast

lemma jq_orderI_batch:
  assumes "m_jobs s = map Some q" "pcs s t = ERun js n" "ran s @ js @ q = pushed s" "0 \<le> n"
    and "\<And>t' js' n'. t' \<noteq> t \<Longrightarrow> pcs s t' \<noteq> ERun js' n'"
  shows "jq_order s"
proof (rule jq_orderI[OF assms(1)])
  show "ran s @ js' @ q = pushed s \<and> 0 \<le> n'" if "pcs s t' = ERun js' n'" for t' js' n'
    using that assms(2-4) assms(5)[of t' js' n'] by (cases "t' = t") auto
  show "ran s @ q = pushed s" if "\<And>t js n. pcs s t \<noteq> ERun js n" using that assms(2) by blast
qed

lemma executing_token: "executing p \<Longrightarrow> 0 < w_tok p"
  by (cases p) auto

lemma jq_order_same:
  assumes "jq_order s" "m_jobs s' = m_jobs s" "ran s' = ran s" "pushed s' = pushed s"
    and "\<And>t js n. pcs s' t = ERun js n \<longleftrightarrow> pcs s t = ERun js n"
  shows "jq_order s'"
  using assms(1) unfolding jq_order_def assms(2-5) .

lemma jq_order_step:
  assumes step: "jstep False T s s'" and inv: "jq_inv T s"
  shows "jq_order s'"
proof -
  obtain q where q: "m_jobs s = map Some q"
    and r: "\<And>t js n. pcs s t = ERun js n \<Longrightarrow> ran s @ js @ q = pushed s \<and> 0 \<le> n"
    and e: "(\<And>t js n. pcs s t \<noteq> ERun js n) \<Longrightarrow> ran s @ q = pushed s"
    using inv unfolding jq_inv_def by blast
  have ord: "jq_order s" using inv by (simp add: jq_inv_alt)
  show ?thesis
    using step
  proof cases
    case (Push_queue t j prev)
    have "pcs s' u = ERun js n \<longleftrightarrow> pcs s u = ERun js n" for u js n using Push_queue by auto
    then show ?thesis using Push_queue(1) q r e
      by (intro jq_orderI[of _ "q @ [j]"]) (simp_all add: LockQueue_Push_def flip: append_assoc)
  next
    case (Execute_pop t js rest)
    have none: "pcs s t' \<noteq> ERun js' n" for t' js' n
      using no_other_batch[OF inv, of t t'] Execute_pop(3) by (cases "t' = t") auto
    have "js = q" "rest = []" using Execute_pop(4) q by simp_all
    then show ?thesis using Execute_pop(1) e none
      by (intro jq_orderI_batch[of _ "[]" t q "int (length q)"]) auto
  next
    case (Execute_job t j js n)
    have none: "pcs s t' \<noteq> ERun js' n'" if "t' \<noteq> t" for t' js' n'
      using no_other_batch[OF inv, of t t'] Execute_job(3) that by simp
    then show ?thesis using Execute_job(1) q r[OF Execute_job(3)]
      by (intro jq_orderI_batch[of _ q t js n]) auto
  next
    case (Execute_count t n)
    have none: "pcs s t' \<noteq> ERun js' n'" if "t' \<noteq> t" for t' js' n'
      using no_other_batch[OF inv, of t t'] Execute_count(3) that by simp
    have "pcs s' u \<noteq> ERun js n'" for u js n' using Execute_count(1) none by (cases "u = t") auto
    then show ?thesis using Execute_count(1) q r[OF Execute_count(3)]
      by (intro jq_orderI[of _ q]) auto
  qed (rule jq_order_same[OF ord]; auto)+
qed

lemma jstep_outside: "jstep again T s s' \<Longrightarrow> t \<notin> T \<Longrightarrow> pcs s' t = pcs s t"
  by (erule jstep.cases) auto

lemma jq_inv_step: "jq_inv T s \<Longrightarrow> jstep False T s s' \<Longrightarrow> jq_inv T s'"
proof -
  assume inv: "jq_inv T s" and step: "jstep False T s s'"
  have "\<forall>t. t \<notin> T \<longrightarrow> pcs s' t = Idle" using inv jstep_outside[OF step] by (simp add: jq_inv_alt)
  then show ?thesis
    using jq_counts_step[OF step] jq_order_step[OF step inv] inv unfolding jq_inv_alt jq_order_def by blast
qed

lemma jq_inv_ctor: "finite T \<Longrightarrow> jq_inv T JobQueue_ctor"
  by (simp add: jq_inv_def JobQueue_ctor_def weight_zero)

interpretation jobs: invariant_system "\<lambda>c. finite (fst c) \<and> snd c = JobQueue_ctor"
  "\<lambda>c c'. fst c' = fst c \<and> jstep False (fst c) (snd c) (snd c')" "\<lambda>c. jq_inv (fst c) (snd c)"
  by unfold_locales (auto simp: jq_inv_ctor intro: jq_inv_step)

lemma jobs_reachable:
  assumes "finite T" "(jstep False T)\<^sup>*\<^sup>* JobQueue_ctor s"
  shows "jq_inv T s"
proof -
  have "(\<lambda>c c'. fst c' = fst c \<and> jstep False (fst c) (snd c) (snd c'))\<^sup>*\<^sup>* (T, JobQueue_ctor) (T, s)"
    using assms(2) by (induction rule: rtranclp_induct) (auto intro: rtranclp.rtrancl_into_rtrancl)
  then show ?thesis using jobs.inv_reachable[of "(T, JobQueue_ctor)" "(T, s)"] assms(1) by simp
qed

section \<open>Properties\<close>


text \<open>(C11) Jobs run in the order they were queued, once each, and none is lost: what has run is a prefix of
  what was pushed, and when every thread is idle and the queue is not waiting in the global queue,
  every pushed job has run and the count is back to zero.\<close>

theorem jobs_fifo_none_lost:
  assumes "finite T" "(jstep False T)\<^sup>*\<^sup>* JobQueue_ctor s"
  shows "(\<exists>rest. pushed s = ran s @ rest)
     \<and> ((\<forall>t. pcs s t = Idle) \<and> inGlobal s = 0 \<longrightarrow> ran s = pushed s \<and> m_jobCount s = 0)"
proof -
  have inv: "jq_inv T s" using jobs_reachable assms by blast
  then obtain q where q: "m_jobs s = map Some q"
    "\<And>t js n. pcs s t = ERun js n \<Longrightarrow> ran s @ js @ q = pushed s"
    "(\<And>t js n. pcs s t \<noteq> ERun js n) \<Longrightarrow> ran s @ q = pushed s" unfolding jq_inv_def by blast
  have "\<exists>rest. pushed s = ran s @ rest" using q(2,3) by metis
  moreover have "ran s = pushed s \<and> m_jobCount s = 0" if idle: "\<forall>t. pcs s t = Idle" "inGlobal s = 0"
  proof -
    have w: "weight T w_tok (pcs s) = 0" "weight T w_add (pcs s) = 0" "weight T w_out (pcs s) = 0"
      using idle(1) by (simp_all add: weight_zero)
    then have "m_jobCount s = 0" "length (m_jobs s) = 0"
      using inv idle(2) by (auto simp: jq_inv_def split: if_splits)
    then show ?thesis using q idle(1) by simp
  qed
  ultimately show ?thesis by blast
qed

text \<open>One thread pushes a job to an idle queue and runs it.\<close>

lemma one_job_runs:
  "\<exists>s. (jstep again {0, 1})\<^sup>*\<^sup>* JobQueue_ctor s \<and> pushed s = [j] \<and> ran s = [] \<and> pcs s 0 = ETop \<and> inGlobal s = 0"
proof -
  let ?s1 = "(goto 0 (PAdded j 0) JobQueue_ctor)\<lparr>m_jobCount := 1\<rparr>"
  let ?s2 = "(goto 0 (PPushed 0) ?s1)\<lparr>m_jobs := [Some j], pushed := [j]\<rparr>"
  have 1: "jstep again {0, 1} JobQueue_ctor ?s1"
    using jstep.Push_count[of 0 "{0, 1}" JobQueue_ctor again j] by (simp add: JobQueue_ctor_def)
  have 2: "jstep again {0, 1} ?s1 ?s2"
    using jstep.Push_queue[of 0 "{0, 1}" ?s1 j 0 again] by (simp add: JobQueue_ctor_def LockQueue_Push_def)
  have 3: "jstep again {0, 1} ?s2 (goto 0 ETop ?s2)"
    using jstep.Push_execute[of 0 "{0, 1}" ?s2 again] by simp
  have "(jstep again {0, 1})\<^sup>*\<^sup>* JobQueue_ctor ?s1" using 1 by (rule r_into_rtranclp)
  then have "(jstep again {0, 1})\<^sup>*\<^sup>* JobQueue_ctor ?s2" using 2 by (rule rtranclp.rtrancl_into_rtrancl)
  then have "(jstep again {0, 1})\<^sup>*\<^sup>* JobQueue_ctor (goto 0 ETop ?s2)"
    using 3 by (rule rtranclp.rtrancl_into_rtrancl)
  then show ?thesis by (intro exI[of _ "goto 0 ETop ?s2"]) (simp add: JobQueue_ctor_def)
qed


theorem jobs_fifo_none_lost_witness:
  "\<exists>s. (jstep False {0, 1})\<^sup>*\<^sup>* JobQueue_ctor s \<and> pushed s = [''a''] \<and> (\<exists>rest. pushed s = ran s @ rest)"
proof -
  obtain s where s: "(jstep False {0, 1})\<^sup>*\<^sup>* JobQueue_ctor s" "pushed s = [''a'']"
    using one_job_runs[of False "''a''"] by blast
  have "finite {0, 1 :: nat}" by simp
  from jobs_fifo_none_lost[OF this s(1)] s show ?thesis by blast
qed

text \<open>\<open>ThreadManager::PushGlobalQueue\<close> does not hand its job to a worker.  Called on a thread that runs no
  job queue (a database or remote-procedure thread), it runs the job right there and leaves an empty
  queue in the global queue; called from inside a job, it puts the queue into the global queue twice.\<close>

lemma PushGlobalQueue_placement:
  "ran (PushGlobalQueue False job) = [job] \<and> m_jobs (PushGlobalQueue False job) = []
     \<and> inGlobal (PushGlobalQueue False job) = 1
     \<and> ran (PushGlobalQueue True job) = [] \<and> inGlobal (PushGlobalQueue True job) = 2"
  by (simp add: PushGlobalQueue_def JobQueue_Push_def JobQueue_Execute_def JobQueue_ctor_def LockQueue_Push_def)

text \<open>The twice-queued queue can be executed by two workers at once: the serialisation of job queues does
  not hold for the queues of \<open>PushGlobalQueue\<close>.\<close>

lemma PushGlobalQueue_two_executors:
  "\<exists>s. (jstep True {0, 1})\<^sup>*\<^sup>* (JobQueue_ctor :: string jq) s \<and> executing (pcs s 0) \<and> executing (pcs s 1)"
proof -
  let ?s1 = "(goto 0 (PAdded ''a'' 0) JobQueue_ctor)\<lparr>m_jobCount := 1\<rparr>"
  let ?s2 = "(goto 0 (PPushed 0) ?s1)\<lparr>m_jobs := [Some ''a''], pushed := [''a'']\<rparr>"
  let ?s3 = "(goto 0 Idle ?s2)\<lparr>inGlobal := 1\<rparr>" let ?s4 = "?s3\<lparr>inGlobal := 2\<rparr>"
  let ?s5 = "(goto 0 ETop ?s4)\<lparr>inGlobal := 1\<rparr>" let ?s6 = "(goto 1 ETop ?s5)\<lparr>inGlobal := 0\<rparr>"
  have 1: "jstep True {0, 1} JobQueue_ctor ?s1"
    using jstep.Push_count[of 0 "{0, 1}" JobQueue_ctor True "''a''"] by (simp add: JobQueue_ctor_def)
  have 2: "jstep True {0, 1} ?s1 ?s2"
    using jstep.Push_queue[of 0 "{0, 1}" ?s1 "''a''" 0 True] by (simp add: JobQueue_ctor_def LockQueue_Push_def)
  have 3: "jstep True {0, 1} ?s2 ?s3"
    using jstep.Push_global[of 0 "{0, 1}" ?s2 True] by (simp add: JobQueue_ctor_def)
  have 4: "jstep True {0, 1} ?s3 ?s4"
    using jstep.PushGlobalQueue_again[of True 0 "{0, 1}" ?s3] by (simp add: JobQueue_ctor_def numeral_2_eq_2)
  have 5: "jstep True {0, 1} ?s4 ?s5"
    using jstep.Global_pop[of 0 "{0, 1}" ?s4 True] by (simp add: JobQueue_ctor_def)
  have 6: "jstep True {0, 1} ?s5 ?s6"
    using jstep.Global_pop[of 1 "{0, 1}" ?s5 True] by (simp add: JobQueue_ctor_def)
  have "(jstep True {0, 1})\<^sup>*\<^sup>* JobQueue_ctor ?s1" using 1 by (rule r_into_rtranclp)
  then have "(jstep True {0, 1})\<^sup>*\<^sup>* JobQueue_ctor ?s2" using 2 by (rule rtranclp.rtrancl_into_rtrancl)
  then have "(jstep True {0, 1})\<^sup>*\<^sup>* JobQueue_ctor ?s3" using 3 by (rule rtranclp.rtrancl_into_rtrancl)
  then have "(jstep True {0, 1})\<^sup>*\<^sup>* JobQueue_ctor ?s4" using 4 by (rule rtranclp.rtrancl_into_rtrancl)
  then have "(jstep True {0, 1})\<^sup>*\<^sup>* JobQueue_ctor ?s5" using 5 by (rule rtranclp.rtrancl_into_rtrancl)
  then have "(jstep True {0, 1})\<^sup>*\<^sup>* JobQueue_ctor ?s6" using 6 by (rule rtranclp.rtrancl_into_rtrancl)
  then show ?thesis by (intro exI[of _ ?s6]) simp
qed

end
