(* ===== verification/Admin.thy ===== *)
theory Admin
  imports Roster JobQueue
begin

text \<open>
  The administration service: \<^verbatim>\<open>AdminController.cpp\<close> on top of the world and \<^verbatim>\<open>AdminGrpcServer.cpp\<close> around it.
  The remote-procedure library is a parameter: it hands a method its request, \<open>None\<close> for a null pointer, and
  \<open>listening\<close> says whether its server could be started.  \<open>busy\<close> says whether the calling thread runs a job
  queue (a thread of the library does not), \<open>in_time\<close> whether a job that another thread has to pick up is
  done before the timeout.
\<close>

section \<open>Running work on a logic thread\<close>

text \<open>The answer is the value the work produced, or the error text of a failure; the last component is work that is
  still waiting in the global queue when the call returns.\<close>

type_synonym 'r reply = "(string + 'r) \<times> world \<times> (world \<Rightarrow> world) list"

definition DispatchToLogicThreadWithTimeout :: "bool \<Rightarrow> bool \<Rightarrow> (world \<Rightarrow> bool \<times> 'r \<times> world) \<Rightarrow> world \<Rightarrow> 'r reply" where
  "DispatchToLogicThreadWithTimeout busy in_time fn w =
     (if ran (PushGlobalQueue busy fn) \<noteq> [] \<or> in_time
      then let (ok, r, w1) = fn w in (if ok then Inr r else Inl '''', w1, [])
      else (Inl ''Logic thread dispatch timeout'', w, [\<lambda>w. snd (snd (fn w))]))"

section \<open>AdminController\<close>

definition AdminHealthCheck :: "string option \<Rightarrow> bool \<times> string option" where
  "AdminHealthCheck resp = (case resp of None \<Rightarrow> (False, None) | Some _ \<Rightarrow> (True, Some ''OK''))"

record RoomEntry =
  re_id :: int
  re_name :: string
  re_playerCount :: int
  re_capacity :: int

definition AdminListRooms :: "bool \<Rightarrow> bool \<Rightarrow> world \<Rightarrow> RoomEntry list reply" where
  "AdminListRooms busy in_time = DispatchToLogicThreadWithTimeout busy in_time (\<lambda>w.
     (True, map (\<lambda>room. \<lparr>re_id = m_roomIndex room, re_name = ''room-'' @ to_string (nat (m_roomIndex room)),
                          re_playerCount = Room_GetPlayerCount room, re_capacity = MAX_ROOM_PLAYER\<rparr>) (rooms w), w))"

record outcome_response =
  success :: bool
  detail :: string

text \<open>\<^verbatim>\<open>static_cast<int32>\<close> of a 64 bit number.\<close>

definition to_int32 :: "int \<Rightarrow> int" where
  "to_int32 x = (x + 2 ^ 31) mod 2 ^ 32 - 2 ^ 31"

definition ADMIN :: "byte list" where
  "ADMIN = map (\<lambda>c. of_nat (of_char c)) ''ADMIN''"

definition AdminBroadcast :: "bool \<Rightarrow> bool \<Rightarrow> (int \<times> byte list) option \<Rightarrow> world \<Rightarrow> outcome_response reply" where
  "AdminBroadcast busy in_time req =
     (let (roomId, message) = (case req of Some r \<Rightarrow> r | None \<Rightarrow> (0, [])) in
      DispatchToLogicThreadWithTimeout busy in_time (\<lambda>w.
        if message = [] then (True, \<lparr>success = False, detail = ''Message is empty''\<rparr>, w)
        else case GetRoom (to_int32 roomId) w of
          None \<Rightarrow> (True, \<lparr>success = False, detail = ''Room not available''\<rparr>, w)
        | Some room \<Rightarrow> (True, \<lparr>success = True, detail = ''OK''\<rparr>,
            post_room room (RoomBroadcast (Msg_NotiRoomChat 0 ADMIN (c_str message))) w)))"

record PlayerEntry =
  pe_id :: uint64
  pe_name :: "byte list"
  pe_lobbyIndex :: int
  pe_roomIndex :: int

definition AdminListPlayers :: "bool \<Rightarrow> bool \<Rightarrow> world \<Rightarrow> PlayerEntry list reply" where
  "AdminListPlayers busy in_time = DispatchToLogicThreadWithTimeout busy in_time (\<lambda>w.
     (True, map (\<lambda>p. \<lparr>pe_id = GetPlayerId p w, pe_name = GetPlayerName p w,
                       pe_lobbyIndex = m_currentLobbyIndex (players w ! p), pe_roomIndex = m_currentRoomIndex (players w ! p)\<rparr>)
              (GetPlayers w), w))"

definition AdminKickPlayer :: "bool \<Rightarrow> bool \<Rightarrow> uint64 option \<Rightarrow> world \<Rightarrow> outcome_response reply" where
  "AdminKickPlayer busy in_time req =
     (let playerId = (case req of Some i \<Rightarrow> i | None \<Rightarrow> 0) in
      DispatchToLogicThreadWithTimeout busy in_time (\<lambda>w. case PlayerSystem_Find playerId w of
          None \<Rightarrow> (True, \<lparr>success = False, detail = ''Player not found''\<rparr>, w)
        | Some p \<Rightarrow> (True, \<lparr>success = True, detail = ''OK''\<rparr>,
            case GetOwnerSession p w of Some s \<Rightarrow> World_Disconnect s w | None \<Rightarrow> w)))"

record LobbyEntry =
  le_id :: int
  le_playerCount :: int
  le_capacity :: int

definition AdminListLobbies :: "bool \<Rightarrow> bool \<Rightarrow> world \<Rightarrow> LobbyEntry list reply" where
  "AdminListLobbies busy in_time = DispatchToLogicThreadWithTimeout busy in_time (\<lambda>w.
     (True, map (\<lambda>lobby. \<lparr>le_id = m_lobbyIndex lobby, le_playerCount = Lobby_GetPlayerCount lobby,
                           le_capacity = MAX_LOBBY_PLAYERS\<rparr>) (lobbies w), w))"

section \<open>AdminServiceImpl\<close>

datatype Status = Status_OK | DEADLINE_EXCEEDED string | NOT_FOUND string

definition AdminServiceImpl_HealthCheck :: "string option \<Rightarrow> Status \<times> string option" where
  "AdminServiceImpl_HealthCheck resp = (Status_OK, snd (AdminHealthCheck resp))"

text \<open>The three listing methods differ in the controller they call; the response of a failed call stays empty.\<close>

definition list_status :: "'e list reply \<Rightarrow> Status \<times> 'e list \<times> world \<times> (world \<Rightarrow> world) list" where
  "list_status r = (case r of (Inl err, w) \<Rightarrow> (DEADLINE_EXCEEDED err, [], w) | (Inr es, w) \<Rightarrow> (Status_OK, es, w))"

definition AdminServiceImpl_ListRooms :: "bool \<Rightarrow> bool \<Rightarrow> world \<Rightarrow> Status \<times> RoomEntry list \<times> world \<times> (world \<Rightarrow> world) list" where
  "AdminServiceImpl_ListRooms busy in_time w = list_status (AdminListRooms busy in_time w)"

definition AdminServiceImpl_ListPlayers :: "bool \<Rightarrow> bool \<Rightarrow> world \<Rightarrow> Status \<times> PlayerEntry list \<times> world \<times> (world \<Rightarrow> world) list" where
  "AdminServiceImpl_ListPlayers busy in_time w = list_status (AdminListPlayers busy in_time w)"

definition AdminServiceImpl_ListLobbies :: "bool \<Rightarrow> bool \<Rightarrow> world \<Rightarrow> Status \<times> LobbyEntry list \<times> world \<times> (world \<Rightarrow> world) list" where
  "AdminServiceImpl_ListLobbies busy in_time w = list_status (AdminListLobbies busy in_time w)"

definition AdminServiceImpl_Broadcast :: "bool \<Rightarrow> bool \<Rightarrow> (int \<times> byte list) option \<Rightarrow> world \<Rightarrow>
    Status \<times> outcome_response \<times> world \<times> (world \<Rightarrow> world) list" where
  "AdminServiceImpl_Broadcast busy in_time req w = (case AdminBroadcast busy in_time req w of
       (Inl err, w1) \<Rightarrow> (DEADLINE_EXCEEDED err, \<lparr>success = False, detail = err\<rparr>, w1)
     | (Inr resp, w1) \<Rightarrow> (Status_OK, resp, w1))"

definition AdminServiceImpl_KickPlayer :: "bool \<Rightarrow> bool \<Rightarrow> uint64 option \<Rightarrow> world \<Rightarrow>
    Status \<times> outcome_response \<times> world \<times> (world \<Rightarrow> world) list" where
  "AdminServiceImpl_KickPlayer busy in_time req w = (case AdminKickPlayer busy in_time req w of
       (Inl err, w1) \<Rightarrow> (DEADLINE_EXCEEDED err, \<lparr>success = False, detail = err\<rparr>, w1)
     | (Inr resp, w1) \<Rightarrow> (if \<not> success resp then NOT_FOUND (detail resp) else Status_OK, resp, w1))"

section \<open>GrpcHost\<close>

record GrpcHost =
  m_running :: bool
  m_server :: bool
  m_thread_joinable :: bool

definition GrpcHost0 :: GrpcHost where
  "GrpcHost0 = \<lparr>m_running = False, m_server = False, m_thread_joinable = False\<rparr>"

text \<open>Assigning to a thread object that is still joinable terminates the process.\<close>

definition GrpcHost_Start :: "bool \<Rightarrow> GrpcHost \<Rightarrow> (bool \<times> GrpcHost) outcome" where
  "GrpcHost_Start listening h =
     (if m_running h then Inr (False, h)
      else let h1 = h\<lparr>m_running := True, m_server := listening\<rparr> in
      if \<not> m_server h1 then Inr (False, h1\<lparr>m_running := False\<rparr>)
      else if m_thread_joinable h1 then Inl (CRASH ''terminate'')
      else Inr (True, h1\<lparr>m_thread_joinable := True\<rparr>))"

definition GrpcHost_Stop :: "GrpcHost \<Rightarrow> GrpcHost" where
  "GrpcHost_Stop h = (if \<not> m_running h then h
     else h\<lparr>m_running := False, m_server := False, m_thread_joinable := False\<rparr>)"

text \<open>Starting and stopping in any order never terminates the process: \<open>Some listening\<close> is a start.\<close>

fun host_run :: "bool option list \<Rightarrow> GrpcHost \<Rightarrow> GrpcHost outcome" where
  "host_run [] h = Inr h"
| "host_run (Some l # es) h = bindR (GrpcHost_Start l h) (\<lambda>(_, h'). host_run es h')"
| "host_run (None # es) h = host_run es (GrpcHost_Stop h)"

lemma host_never_terminates:
  assumes "m_thread_joinable h \<longrightarrow> m_running h"
  shows "\<exists>h'. host_run es h = Inr h'"
  using assms
proof (induction es arbitrary: h)
  case (Cons e es)
  then show ?case by (cases e) (auto simp: GrpcHost_Start_def GrpcHost_Stop_def Let_def)
qed simp

section \<open>The thread of a remote call\<close>

text \<open>A thread of the library runs no job queue, so the work runs on that very thread and the wait never times out.\<close>

lemma Dispatch_idle:
  "DispatchToLogicThreadWithTimeout False in_time fn w =
     (let (ok, r, w1) = fn w in (if ok then Inr r else Inl '''', w1, []))"
  using PushGlobalQueue_placement[of fn] by (simp add: DispatchToLogicThreadWithTimeout_def)

section \<open>Kicking a player\<close>

text \<open>Kicking works.  In every reachable world, a kick called by a thread of the remote-procedure library
  answers \<open>OK\<close> exactly when the id is online, and then the player's session is disconnected, the id is gone
  from the player table and every other entry stays; for an id that is not online it answers \<open>NOT_FOUND\<close> and
  changes nothing.  It never answers \<open>DEADLINE_EXCEEDED\<close> and leaves no work behind.\<close>

lemma KickPlayer_service:
  assumes "wstep\<^sup>*\<^sup>* world0 w"
  shows "\<exists>st resp w'. AdminServiceImpl_KickPlayer False in_time (Some i) w = (st, resp, w', [])
    \<and> (case PlayerSystem_Find i w of
         None \<Rightarrow> st = NOT_FOUND ''Player not found'' \<and> \<not> success resp \<and> w' = w
       | Some p \<Rightarrow> let s = m_ownerSession (players w ! p) in
           st = Status_OK \<and> success resp \<and> connected w s \<and> \<not> connected w' s \<and> player_of w' s = None
           \<and> online w' = map_erase i (online w) \<and> PlayerSystem_Find i w' = None
           \<and> (\<forall>j. j \<noteq> i \<longrightarrow> PlayerSystem_Find j w' = PlayerSystem_Find j w))"
proof (cases "PlayerSystem_Find i w")
  case None
  then show ?thesis by (simp add: AdminServiceImpl_KickPlayer_def AdminKickPlayer_def Dispatch_idle)
next
  case (Some p)
  then have "(i, p) \<in> set (online w)" by (simp add: PlayerSystem_Find_def map_of_SomeD)
  note r = rosterD[OF roster_reachable[OF assms] this]
  let ?s = "m_ownerSession (players w ! p)"
  have kick: "AdminServiceImpl_KickPlayer False in_time (Some i) w
      = (Status_OK, \<lparr>success = True, detail = ''OK''\<rparr>, World_Disconnect ?s w, [])"
    using Some r(5) by (simp add: AdminServiceImpl_KickPlayer_def AdminKickPlayer_def Dispatch_idle GetOwnerSession_def)
  have erase: "map_of (map_erase i m) j = (if j = i then None else map_of m j)" for m :: "(uint64 \<times> nat) list" and j
    by (induction m) (auto simp: map_erase_def)
  have "connected (World_Disconnect ?s w) = (connected w)(?s := False)"
    "player_of (World_Disconnect ?s w) = (player_of w)(?s := None)"
    "online (World_Disconnect ?s w) = map_erase i (online w)"
    using World_Disconnect_sessions[OF r(3)] r(2,4) by (simp_all add: session_part_def)
  then show ?thesis using Some kick r(3) by (simp add: Let_def PlayerSystem_Find_def erase)
qed

section \<open>Listing rooms\<close>

lemma room_step_index: "room_step\<^sup>*\<^sup>* c c' \<Longrightarrow> m_roomIndex c' = m_roomIndex c"
proof (induction rule: rtranclp_induct)
  case (step c1 c2)
  from step(2) have "m_roomIndex c2 = m_roomIndex c1" by cases (auto simp: slot_defs split: if_splits)
  then show ?case using step by simp
qed simp

text \<open>The listing is a true snapshot.  In every reachable world \<open>ListRooms\<close> answers \<open>OK\<close> with one entry per room, in
  order of their numbers; the reported player count is the number of members and of queued entries, and lies
  between 0 and the reported capacity.\<close>

lemma ListRooms_snapshot:
  assumes "wstep\<^sup>*\<^sup>* world0 w"
  shows "\<exists>es. AdminServiceImpl_ListRooms False in_time w = (Status_OK, es, w, [])
    \<and> map re_id es = map int [0..<length (rooms w)]
    \<and> (\<forall>r < length (rooms w). re_playerCount (es ! r)
          = int (length (room_players (rooms w ! r)) + room_entering (rooms w ! r))
        \<and> 0 \<le> re_playerCount (es ! r) \<and> re_playerCount (es ! r) \<le> re_capacity (es ! r))"
proof -
  have idx: "m_roomIndex (rooms w ! r) = int r" if "r < length (rooms w)" for r
    using room_step_index[OF room_balance[OF assms that]] by simp
  have "map m_roomIndex (rooms w) = map int [0..<length (rooms w)]" by (rule nth_equalityI) (simp_all add: idx)
  moreover have "Room_GetPlayerCount (rooms w ! r) = int (length (room_players (rooms w ! r)) + room_entering (rooms w ! r))"
    "0 \<le> Room_GetPlayerCount (rooms w ! r)" "Room_GetPlayerCount (rooms w ! r) \<le> MAX_ROOM_PLAYER" if "r < length (rooms w)" for r
    using room_places[OF assms that] by (simp_all add: Room_GetPlayerCount_def MAX_ROOM_PLAYER_def)
  ultimately show ?thesis
    by (simp add: AdminServiceImpl_ListRooms_def AdminListRooms_def Dispatch_idle list_status_def comp_def)
qed

lemma ListRooms_snapshot_witness:
  "\<exists>w es. play demo_room world0 = Some w \<and> AdminServiceImpl_ListRooms False True w = (Status_OK, es, w, [])
     \<and> map re_id es = [0] \<and> re_playerCount (es ! 0) \<le> re_capacity (es ! 0)"
proof -
  have "(case play demo_room world0 of Some w \<Rightarrow> length (rooms w) = 1 | None \<Rightarrow> False)"
    by code_simp
  then obtain w where w: "play demo_room world0 = Some w" "length (rooms w) = 1" by (auto split: option.splits)
  from ListRooms_snapshot[OF play_reachable[OF w(1)], of True] w show ?thesis by auto
qed

section \<open>Broadcasting into a room\<close>

text \<open>The room number is cut to 32 bits before the lookup, so a number beyond that range can reach a room that
  exists.\<close>

lemma broadcast_wraps_room_number:
  assumes "rooms w \<noteq> []" "m \<noteq> []"
  shows "AdminServiceImpl_Broadcast False in_time (Some (2 ^ 32, m)) w
    = (Status_OK, \<lparr>success = True, detail = ''OK''\<rparr>, post_room 0 (RoomBroadcast (Msg_NotiRoomChat 0 ADMIN (c_str m))) w, [])"
  using assms by (simp add: AdminServiceImpl_Broadcast_def AdminBroadcast_def Dispatch_idle to_int32_def GetRoom_def)

end
