(* ===== verification/WorldTypes.thy ===== *)
theory WorldTypes
  imports Roster
begin

text \<open>
  The well-formedness of the game world.  Players, rooms and lobbies refer to each other by shared
  pointers; here a pointer is an index, and an index out of range would be a dangling pointer.  The
  invariant says that no reference dangles, that the member maps are keyed by the ids of their
  members, and that the index a player reports is the index of the place the player is in; every
  step of the world keeps it.
\<close>

section \<open>Well-formed objects\<close>

definition player_ok :: "world \<Rightarrow> Player \<Rightarrow> bool" where
  "player_ok w x \<longleftrightarrow>
     (case m_currentRoom x of Some r \<Rightarrow> r < length (rooms w) \<and> m_currentRoomIndex x = int r | None \<Rightarrow> m_currentRoomIndex x = -1)
   \<and> (case m_currentLobby x of Some l \<Rightarrow> l < length (lobbies w) \<and> m_currentLobbyIndex x = int l | None \<Rightarrow> m_currentLobbyIndex x = -1)"

definition member_ok :: "world \<Rightarrow> uint64 \<times> nat \<Rightarrow> bool" where
  "member_ok w e \<longleftrightarrow> snd e < length (players w) \<and> GetPlayerId (snd e) w = fst e"

fun room_job_ok :: "world \<Rightarrow> room_job \<Rightarrow> bool" where
  "room_job_ok w (RoomEnter p) \<longleftrightarrow> p < length (players w)"
| "room_job_ok w (RoomLeave p) \<longleftrightarrow> p < length (players w)"
| "room_job_ok w (RoomBroadcast m) \<longleftrightarrow> True"

fun lobby_job_ok :: "world \<Rightarrow> lobby_job \<Rightarrow> bool" where
  "lobby_job_ok w (LobbyEnter p) \<longleftrightarrow> p < length (players w)"
| "lobby_job_ok w (LobbyExit p) \<longleftrightarrow> p < length (players w)"
| "lobby_job_ok w (LobbyChat p s) \<longleftrightarrow> p < length (players w)"

definition room_ok :: "world \<Rightarrow> Room \<Rightarrow> bool" where
  "room_ok w c \<longleftrightarrow> (\<forall>e \<in> set (room_players c). member_ok w e) \<and> (\<forall>j \<in> set (room_jobs c). room_job_ok w j)"

definition lobby_ok :: "world \<Rightarrow> Lobby \<Rightarrow> bool" where
  "lobby_ok w c \<longleftrightarrow> (\<forall>e \<in> set (lobby_players c). member_ok w e) \<and> (\<forall>j \<in> set (lobby_jobs c). lobby_job_ok w j)"

definition typed :: "world \<Rightarrow> bool" where
  "typed w \<longleftrightarrow> (\<forall>p < length (players w). player_ok w (players w ! p))
   \<and> (\<forall>r < length (rooms w). m_roomIndex (rooms w ! r) = int r \<and> room_ok w (rooms w ! r))
   \<and> (\<forall>l < length (lobbies w). m_lobbyIndex (lobbies w ! l) = int l \<and> lobby_ok w (lobbies w ! l))
   \<and> (\<forall>e \<in> set (online w). member_ok w e)
   \<and> (\<forall>s p. player_of w s = Some p \<longrightarrow> p < length (players w) \<and> m_ownerSession (players w ! p) = s)"

lemma typedD:
  assumes "typed w"
  shows "p < length (players w) \<Longrightarrow> player_ok w (players w ! p)"
    "r < length (rooms w) \<Longrightarrow> m_roomIndex (rooms w ! r) = int r"
    "r < length (rooms w) \<Longrightarrow> room_ok w (rooms w ! r)"
    "l < length (lobbies w) \<Longrightarrow> m_lobbyIndex (lobbies w ! l) = int l"
    "l < length (lobbies w) \<Longrightarrow> lobby_ok w (lobbies w ! l)"
    "player_of w s = Some q \<Longrightarrow> q < length (players w) \<and> m_ownerSession (players w ! q) = s"
  using assms by (simp_all add: typed_def)

section \<open>Elementary changes\<close>

text \<open>Being well-formed only depends on who the players are and on how many rooms and lobbies there are.\<close>

definition extends :: "world \<Rightarrow> world \<Rightarrow> bool" where
  "extends w w' \<longleftrightarrow> length (players w) \<le> length (players w') \<and> length (rooms w) \<le> length (rooms w')
   \<and> length (lobbies w) \<le> length (lobbies w') \<and> (\<forall>p < length (players w). same_player (players w ! p) (players w' ! p))"

lemma extends_ok:
  assumes "extends w w'"
  shows "player_ok w x \<Longrightarrow> player_ok w' x" "member_ok w e \<Longrightarrow> member_ok w' e"
    "room_ok w c \<Longrightarrow> room_ok w' c" "lobby_ok w d \<Longrightarrow> lobby_ok w' d"
proof -
  show m: "member_ok w e \<Longrightarrow> member_ok w' e" for e using assms by (auto simp: extends_def member_ok_def)
  show "player_ok w x \<Longrightarrow> player_ok w' x" using assms by (auto simp: extends_def player_ok_def split: option.splits)
  have "room_job_ok w j \<Longrightarrow> room_job_ok w' j" for j using assms by (cases j) (auto simp: extends_def)
  then show "room_ok w c \<Longrightarrow> room_ok w' c" using m by (auto simp: room_ok_def)
  have "lobby_job_ok w j \<Longrightarrow> lobby_job_ok w' j" for j using assms by (cases j) (auto simp: extends_def)
  then show "lobby_ok w d \<Longrightarrow> lobby_ok w' d" using m by (auto simp: lobby_ok_def)
qed

lemma typed_upd_player:
  assumes "typed w" "\<And>x. same_player x (f x)" "p < length (players w) \<Longrightarrow> player_ok w (f (players w ! p))"
  shows "typed (upd_player p f w)"
proof -
  have e: "extends w (upd_player p f w)" using assms(2) by (auto simp: extends_def nth_upd_player)
  show ?thesis using assms extends_ok[OF e] unfolding typed_def by (auto simp: nth_upd_player)
qed

lemma typed_upd_room:
  assumes "typed w" "r < length (rooms w) \<Longrightarrow> room_ok w (f (rooms w ! r))"
    "\<And>c. m_roomIndex (f c) = m_roomIndex c"
  shows "typed (upd_room r f w)"
proof -
  have e: "extends w (upd_room r f w)" by (simp add: extends_def)
  show ?thesis using assms extends_ok[OF e] unfolding typed_def by (auto simp: upd_room_def nth_update_if)
qed

lemma typed_upd_lobby:
  assumes "typed w" "l < length (lobbies w) \<Longrightarrow> lobby_ok w (f (lobbies w ! l))"
    "\<And>c. m_lobbyIndex (f c) = m_lobbyIndex c"
  shows "typed (upd_lobby l f w)"
proof -
  have e: "extends w (upd_lobby l f w)" by (simp add: extends_def)
  show ?thesis using assms extends_ok[OF e] unfolding typed_def by (auto simp: upd_lobby_def nth_update_if)
qed

lemma typed_cong:
  assumes "typed w" "players w' = players w" "rooms w' = rooms w" "lobbies w' = lobbies w"
    "set (online w') \<subseteq> set (online w)" "\<And>s p. player_of w' s = Some p \<Longrightarrow> player_of w s = Some p"
  shows "typed w'"
proof -
  have "extends w w'" using assms(2-4) by (simp add: extends_def)
  from extends_ok[OF this] show ?thesis using assms(1-5) unfolding typed_def by (auto dest!: assms(6))
qed

lemma typed_post_room: "typed w \<Longrightarrow> room_job_ok w j \<Longrightarrow> typed (post_room r j w)"
  unfolding post_room_def by (rule typed_upd_room) (auto dest: typedD(3) simp: room_ok_def)

lemma typed_post_lobby: "typed w \<Longrightarrow> lobby_job_ok w j \<Longrightarrow> typed (post_lobby l j w)"
  unfolding post_lobby_def by (rule typed_upd_lobby) (auto dest: typedD(5) simp: lobby_ok_def)

lemma typed_send: "typed w \<Longrightarrow> typed (send_to s m w)"
  by (erule typed_cong) (simp_all add: send_to_def)

lemma typed_broadcast: "typed w \<Longrightarrow> typed (broadcast_to m ps w)"
  by (erule typed_cong) (simp_all add: broadcast_to_eq)

lemmas typed_intros = typed_post_room typed_post_lobby typed_send typed_broadcast

lemma players_post [simp]:
  "players (post_room r j w) = players w" "players (post_lobby l k w) = players w" "players (send_to s m w) = players w"
  "length (rooms (post_room r j w)) = length (rooms w)" "length (lobbies (post_room r j w)) = length (lobbies w)"
  "length (rooms (post_lobby l k w)) = length (rooms w)" "length (lobbies (post_lobby l k w)) = length (lobbies w)"
  by (simp_all add: post_room_def post_lobby_def send_to_def)

section \<open>Operations\<close>

lemma typed_LeaveRoom: "typed w \<Longrightarrow> p < length (players w) \<Longrightarrow> typed (LeaveRoom p w)"
  unfolding LeaveRoom_def Let_def
  by (frule (1) typedD(1), rule typed_upd_player) (auto split: option.splits intro!: typed_intros simp: player_ok_def)

lemma typed_LeaveLobby: "typed w \<Longrightarrow> p < length (players w) \<Longrightarrow> typed (LeaveLobby p w)"
  unfolding LeaveLobby_def Let_def
  by (frule (1) typedD(1), rule typed_upd_player) (auto split: option.splits intro!: typed_intros simp: player_ok_def)

lemma players_Leave [simp]:
  "length (players (LeaveRoom p w)) = length (players w)" "length (players (LeaveLobby p w)) = length (players w)"
  by (simp_all add: LeaveRoom_def LeaveLobby_def Let_def split: option.split)

lemma typed_RoomChat: "typed w \<Longrightarrow> typed (RoomChat p m w)"
  by (auto simp: RoomChat_def split: option.split intro!: typed_intros)

lemma typed_Player_LobbyChat: "typed w \<Longrightarrow> p < length (players w) \<Longrightarrow> typed (Player_LobbyChat p m w)"
  by (auto simp: Player_LobbyChat_def split: option.split intro!: typed_intros)

lemma typed_SetCurrentRoom:
  assumes "typed w" "r < length (rooms w)"
  shows "typed (SetCurrentRoom p (Some r) w)"
  unfolding SetCurrentRoom_def
  by (rule typed_upd_player) (use assms typedD(1)[of w p] typedD(2)[of w r] in \<open>auto simp: player_ok_def split: option.splits\<close>)

lemma typed_SetCurrentLobby:
  assumes "typed w" "l < length (lobbies w)"
  shows "typed (SetCurrentLobby p (Some l) w)"
  unfolding SetCurrentLobby_def
  by (rule typed_upd_player) (use assms typedD(1)[of w p] typedD(4)[of w l] in \<open>auto simp: player_ok_def split: option.splits\<close>)

lemma typed_EnterRoom: "typed w \<Longrightarrow> typed (EnterRoom p w)"
  by (auto simp: EnterRoom_def split: option.split intro!: typed_intros)

lemma room_slots_ok [simp]: "room_ok w (Room_ReleaseReservedSlot c) = room_ok w c"
  "lobby_ok w (Lobby_ReleaseReservedSlot d) = lobby_ok w d"
  by (simp_all add: room_ok_def lobby_ok_def Room_ReleaseReservedSlot_def Lobby_ReleaseReservedSlot_def)

lemma typed_release:
  "typed w \<Longrightarrow> typed (upd_room r Room_ReleaseReservedSlot w)"
  "typed w \<Longrightarrow> typed (upd_lobby l Lobby_ReleaseReservedSlot w)"
  by (rule typed_upd_room typed_upd_lobby, auto dest: typedD simp: Room_ReleaseReservedSlot_def Lobby_ReleaseReservedSlot_def
      room_ok_def lobby_ok_def)+

section \<open>Jobs\<close>

lemma insert_member_ok:
  assumes "\<forall>e \<in> set m. member_ok w e" "member_ok w (i, p)"
  shows "\<forall>e \<in> set (map_insert i p m). member_ok w e"
  using assms by (induction m) (auto split: if_splits)

lemma member_ok_upd [simp]:
  "member_ok (upd_room r f w) e = member_ok w e" "member_ok (upd_lobby l g w) e = member_ok w e"
  "member_ok (SetCurrentRoom p x w) e = member_ok w e" "member_ok (SetCurrentLobby p y w) e = member_ok w e"
  by (simp_all add: member_ok_def) (simp_all add: SetCurrentRoom_def SetCurrentLobby_def)

lemma typed_room_members:
  assumes "typed w" "\<And>c. m_roomIndex (f c) = m_roomIndex c \<and> room_jobs (f c) = room_jobs c"
    "r < length (rooms w) \<Longrightarrow> \<forall>e \<in> set (room_players (f (rooms w ! r))). member_ok w e"
  shows "typed (upd_room r f w)"
  by (rule typed_upd_room) (use assms typedD(3)[of w r] in \<open>auto simp: room_ok_def\<close>)

lemma typed_lobby_members:
  assumes "typed w" "\<And>c. m_lobbyIndex (f c) = m_lobbyIndex c \<and> lobby_jobs (f c) = lobby_jobs c"
    "l < length (lobbies w) \<Longrightarrow> \<forall>e \<in> set (lobby_players (f (lobbies w ! l))). member_ok w e"
  shows "typed (upd_lobby l f w)"
  by (rule typed_upd_lobby) (use assms typedD(5)[of w l] in \<open>auto simp: lobby_ok_def\<close>)

lemma typed_Room_Enter:
  assumes t: "typed w" and r: "r < length (rooms w)" and p: "p < length (players w)"
  shows "typed (Room_Enter r p w)"
proof -
  let ?m = "map_insert (GetPlayerId p w) p (room_players (rooms w ! r))"
  let ?w1 = "SetCurrentRoom p (Some r) (upd_room r (\<lambda>c. c\<lparr>room_players := ?m\<rparr>) w)"
  have m: "\<forall>e \<in> set ?m. member_ok w e"
    using typedD(3)[OF t r] p by (intro insert_member_ok) (auto simp: room_ok_def member_ok_def)
  have w1: "typed ?w1" using r m t by (intro typed_SetCurrentRoom typed_room_members) auto
  have "typed (upd_room r (\<lambda>c. Room_ReleaseReservedSlot (c\<lparr>room_players := map_erase i (room_players c)\<rparr>)) ?w1)" for i
    using w1 m r by (intro typed_room_members) (auto simp: Room_ReleaseReservedSlot_def map_erase_def)
  then show ?thesis using w1 t typed_release
    by (auto simp: Room_Enter_def EnterRoomFailed_def try_emplace_def Let_def intro: typed_EnterRoom)
qed

lemma typed_Lobby_Enter:
  assumes t: "typed w" and l: "l < length (lobbies w)" and p: "p < length (players w)"
  shows "typed (Lobby_Enter l p w)"
proof -
  let ?m = "map_insert (GetPlayerId p w) p (lobby_players (lobbies w ! l))"
  let ?w1 = "SetCurrentLobby p (Some l) (upd_lobby l (\<lambda>c. c\<lparr>lobby_players := ?m\<rparr>) w)"
  have m: "\<forall>e \<in> set ?m. member_ok w e"
    using typedD(5)[OF t l] p by (intro insert_member_ok) (auto simp: lobby_ok_def member_ok_def)
  have w1: "typed ?w1" using l m t by (intro typed_SetCurrentLobby typed_lobby_members) auto
  have "typed (upd_lobby l (\<lambda>c. Lobby_ReleaseReservedSlot (c\<lparr>lobby_players := map_erase i (lobby_players c)\<rparr>)) ?w1)" for i
    using w1 m l by (intro typed_lobby_members) (auto simp: Lobby_ReleaseReservedSlot_def map_erase_def)
  then show ?thesis using w1 t typed_release
    by (auto simp: Lobby_Enter_def try_emplace_def Let_def split: option.split intro!: typed_intros)
qed

lemma typed_Room_Leave: "typed w \<Longrightarrow> typed (Room_Leave r p w)"
  using typedD(3)[of w r] by (auto simp: Room_Leave_def room_ok_def map_erase_def intro!: typed_room_members)

lemma typed_Lobby_Exit: "typed w \<Longrightarrow> typed (Lobby_Exit l p w)"
  using typedD(5)[of w l]
  by (auto simp: Lobby_Exit_def Lobby_Broadcast_def lobby_ok_def map_erase_def Let_def intro!: typed_broadcast typed_lobby_members)

lemma typed_run_room_job:
  assumes t: "typed w" and r: "r < length (rooms w)"
  shows "typed (run_room_job r w)"
proof (cases "room_jobs (rooms w ! r)")
  case (Cons j js)
  let ?w = "upd_room r (\<lambda>c. c\<lparr>room_jobs := js\<rparr>) w"
  have j: "room_job_ok w j" using typedD(3)[OF t r] Cons by (simp add: room_ok_def)
  have "typed ?w" using typedD(3)[OF t r] Cons t by (intro typed_upd_room) (auto simp: room_ok_def)
  then show ?thesis using j r Cons
    by (cases j) (auto simp: run_room_job_def Room_Broadcast_def intro: typed_Room_Enter typed_Room_Leave typed_broadcast)
qed (use t in \<open>simp add: run_room_job_def\<close>)

lemma typed_run_lobby_job:
  assumes t: "typed w" and l: "l < length (lobbies w)"
  shows "typed (run_lobby_job l w)"
proof (cases "lobby_jobs (lobbies w ! l)")
  case (Cons j js)
  let ?w = "upd_lobby l (\<lambda>c. c\<lparr>lobby_jobs := js\<rparr>) w"
  have j: "lobby_job_ok w j" using typedD(5)[OF t l] Cons by (simp add: lobby_ok_def)
  have "typed ?w" using typedD(5)[OF t l] Cons t by (intro typed_upd_lobby) (auto simp: lobby_ok_def)
  then show ?thesis using j l Cons
    by (cases j) (auto simp: run_lobby_job_def Lobby_Chat_def Lobby_Broadcast_def intro: typed_Lobby_Enter typed_Lobby_Exit typed_broadcast)
qed (use t in \<open>simp add: run_lobby_job_def\<close>)

section \<open>Handlers\<close>

text \<open>A reserved slot changes no reference; a new room and a new player only add objects.\<close>

lemma typed_reserve_room:
  assumes "typed w" "GetNotFullRoom w = Some (r, w')"
  shows "typed w'" "players w' = players w" "r < length (rooms w')"
proof -
  obtain c where c: "r < length (rooms w)" "Room_TryReserveSlot (rooms w ! r) = (True, c)" "w' = w\<lparr>rooms := (rooms w)[r := c]\<rparr>"
    using GetNotFullRoom_Some[OF assms(2)] by blast
  then have "w' = upd_room r (\<lambda>x. x\<lparr>room_slots := room_slots x - 1\<rparr>) w"
    by (auto simp: upd_room_def Room_TryReserveSlot_def Let_def split: if_splits)
  then show "typed w'" "players w' = players w" "r < length (rooms w')" using assms(1) typedD(3)[OF assms(1)] c(1)
    by (auto intro!: typed_upd_room simp: room_ok_def)
qed

lemma typed_AssignLobby:
  assumes "typed w" "AssignLobby w = Some (l, w')"
  shows "typed w'" "players w' = players w"
proof -
  obtain c where c: "l < length (lobbies w)" "Lobby_TryReserveSlot (lobbies w ! l) = (True, c)" "w' = w\<lparr>lobbies := (lobbies w)[l := c]\<rparr>"
    using AssignLobby_Some[OF assms(2)] by blast
  then have "w' = upd_lobby l (\<lambda>x. x\<lparr>lobby_slots := lobby_slots x - 1\<rparr>) w"
    by (auto simp: upd_lobby_def Lobby_TryReserveSlot_def Let_def split: if_splits)
  then show "typed w'" "players w' = players w" using assms(1) typedD(5)[OF assms(1)]
    by (auto intro!: typed_upd_lobby simp: lobby_ok_def)
qed

lemma typed_MakeRoom:
  assumes "typed w" "MakeRoom w = Inr (r, w')"
  shows "typed w'" "players w' = players w"
proof -
  have w': "w' = w\<lparr>rooms := rooms w @ [Room_ctor\<lparr>m_roomIndex := int (length (rooms w)), room_slots := MAX_ROOM_PLAYER - 1\<rparr>]\<rparr>"
    using assms(2) by (auto simp: MakeRoom_ok)
  then have e: "extends w w'" by (simp add: extends_def)
  show "players w' = players w" using w' by simp
  show "typed w'" using assms(1) extends_ok[OF e] w' unfolding typed_def
    by (auto simp: nth_append less_Suc_eq) (auto simp: room_ok_def Room_ctor_def)
qed

lemma typed_room_enter:
  assumes "typed w" "HandleReqRoomEnterPacket mem s w = Inr (b, w')"
  shows "typed w'"
proof (cases "player_of w s")
  case (Some p)
  let ?w1 = "LeaveLobby p w"
  have p: "p < length (players w)" using typedD(6)[OF assms(1) Some] by simp
  note t = typed_LeaveLobby[OF assms(1) p]
  show ?thesis
  proof (cases "GetNotFullRoom ?w1")
    case None
    then obtain r w2 where "MakeRoom ?w1 = Inr (r, w2)" "w' = post_room r (RoomEnter p) w2"
      using assms(2) Some by (auto simp: HandleReqRoomEnterPacket_def Let_def MakeRoom_ok)
    then show ?thesis using typed_MakeRoom[OF t, of r w2] p typed_post_room[of w2 "RoomEnter p" r] by simp
  next
    case (Some rw)
    then obtain r w2 where rw: "GetNotFullRoom ?w1 = Some (r, w2)" by (cases rw) auto
    then have "w' = post_room r (RoomEnter p) w2"
      using assms(2) \<open>player_of w s = Some p\<close> by (simp add: HandleReqRoomEnterPacket_def Let_def)
    then show ?thesis using typed_reserve_room[OF t rw] p typed_post_room[of w2 "RoomEnter p" r] by simp
  qed
qed (use assms in \<open>simp add: HandleReqRoomEnterPacket_def\<close>)

lemma typed_room_exit:
  assumes "typed w" "HandleReqRoomExitPacket mem s w = Inr (b, w')"
  shows "typed w'"
proof (cases "player_of w s")
  case (Some p)
  have p: "p < length (players w)" using typedD(6)[OF assms(1) Some] by simp
  note t = typed_LeaveRoom[OF assms(1) p]
  have "typed (post_lobby l (LobbyEnter p) w2)" if "AssignLobby (LeaveRoom p w) = Some (l, w2)" for l w2
    using typed_AssignLobby[OF t that] p typed_post_lobby[of w2 "LobbyEnter p" l] by simp
  then have "typed (LeaveRoomAndReenterLobby p w)" using t by (simp add: LeaveRoomAndReenterLobby_def Let_def split: option.split)
  then show ?thesis using assms(2) Some by (simp add: HandleReqRoomExitPacket_def)
qed (use assms in \<open>simp add: HandleReqRoomExitPacket_def\<close>)

lemma typed_Disconnect:
  assumes "typed w"
  shows "typed (World_Disconnect s w)"
proof (cases "connected w s")
  case True
  let ?w = "w\<lparr>connected := (connected w)(s := False)\<rparr>"
  have t: "typed ?w" using assms by (rule typed_cong) simp_all
  show ?thesis
  proof (cases "player_of w s")
    case None
    then show ?thesis using t True
      by (auto simp: World_Disconnect_def GameSession_OnDisconnected_def GameSessionSystem_Remove_def
          intro!: typed_cong[OF t] split: if_splits)
  next
    case (Some p)
    then have "typed (LeaveRoom p (LeaveLobby p ?w))" using t typedD(6)[OF assms Some] by (intro typed_LeaveRoom typed_LeaveLobby) simp_all
    then show ?thesis using True Some
      by (auto simp: World_Disconnect_def GameSession_OnDisconnected_def GameSessionSystem_Remove_def PlayerSystem_Remove_def
          map_erase_def Let_def elim!: typed_cong split: if_splits)
  qed
qed (use assms in \<open>simp add: World_Disconnect_def\<close>)

lemma typed_login:
  assumes "typed w"
  shows "typed (OnLoginResult ok i n s w)"
proof -
  let ?w1 = "w\<lparr>login_done := (login_done w)(s := True)\<rparr>" and ?p = "length (players w)"
  let ?w3 = "PlayerSystem_Add ?p (?w1\<lparr>players := players w @ [Player_ctor s i n], player_of := (player_of w)(s := Some ?p)\<rparr>)"
  have w1: "typed ?w1" using assms by (rule typed_cong) simp_all
  have e: "extends w ?w3" by (simp add: extends_def PlayerSystem_Add_def nth_append)
  have on: "set (online ?w3) \<subseteq> insert (i, ?p) (set (online w))"
    by (auto simp: PlayerSystem_Add_def try_emplace_def Player_ctor_def set_map_insert)
  have "member_ok ?w3 (i, ?p)" "player_ok ?w3 (Player_ctor s i n)"
    by (simp_all add: member_ok_def player_ok_def PlayerSystem_Add_def Player_ctor_def)
  moreover have "players ?w3 = players w @ [Player_ctor s i n]" "rooms ?w3 = rooms w" "lobbies ?w3 = lobbies w"
    "player_of ?w3 = (player_of w)(s := Some ?p)" by (simp_all add: PlayerSystem_Add_def)
  ultimately have w3: "typed ?w3" using assms extends_ok[OF e] on unfolding typed_def
    by (auto simp: nth_append less_Suc_eq Player_ctor_def split: if_splits)
  let ?w4 = "send_to s (Msg_ResLogin (GetPlayerId ?p ?w3) (GetPlayerName ?p ?w3)) ?w3"
  have w4: "typed ?w4" using w3 by (rule typed_send)
  have "typed (post_lobby l (LobbyEnter ?p) w5)" if "AssignLobby ?w4 = Some (l, w5)" for l w5
    using typed_AssignLobby[OF w4 that] by (intro typed_post_lobby) (auto simp: PlayerSystem_Add_def)
  then show ?thesis using assms w1 w4 typed_Disconnect[OF typed_send[OF w1]]
    by (auto simp: OnLoginResult_def Let_def split: option.split)
qed

section \<open>The invariant\<close>

interpretation objects: invariant_system "\<lambda>w. w = world0" wstep typed
proof
  show "typed w" if "w = world0" for w using that
    by (auto simp: typed_def world0_def LobbySystem_ctor_def lobby_ok_def Lobby_ctor_def)
  fix w w' assume t: "typed w" and step: "wstep w w'"
  from step show "typed w'"
  proof cases
    case (connect s)
    then show ?thesis
      by (auto simp: GameSession_OnConnected_def GameSessionSystem_Add_def intro: typed_cong[OF t])
  next
    case (room_chat s mem b)
    then show ?thesis using t typed_RoomChat
      by (auto simp: HandleReqRoomChatPacket_def cstring_def split: option.splits if_splits)
  next
    case (lobby_chat s mem b)
    then show ?thesis using t typed_Player_LobbyChat typedD(6)[OF t]
      by (auto simp: HandleReqLobbyChatPacket_def cstring_def split: option.splits if_splits)
  next
    case (room_list s mem b)
    then show ?thesis using t typed_send by (auto simp: HandleReqRoomListPacket_def Let_def split: option.splits)
  next
    case (destroy s)
    then show ?thesis by (auto intro: typed_cong[OF t])
  qed (auto intro: t typed_login typed_Disconnect typed_run_room_job typed_run_lobby_job typed_room_enter typed_room_exit)
qed

lemmas typed_reachable = objects.inv_reachable[OF refl]

section \<open>No fault\<close>

text \<open>The session a packet came in on outlives its handler, so a player's owner is there to be answered.\<close>

lemma owner_alive:
  assumes "wstep\<^sup>*\<^sup>* world0 w" "connected w s" "player_of w s = Some p"
  shows "GetOwnerSession p w = Some s"
  using typedD(6)[OF typed_reachable[OF assms(1)] assms(3)] roster_reachable[OF assms(1)] assms(2)
  by (auto simp: GetOwnerSession_def roster_def)

definition answers :: "(bool \<times> world) outcome \<Rightarrow> bool \<Rightarrow> bool" where
  "answers r ok \<longleftrightarrow> (\<exists>w'. r = Inr (ok, w') \<and> typed w')"



end
