(* ===== verification/Wire.thy ===== *)
theory Wire
  imports Prelude
begin

text \<open>
  The wire format of protocol buffers, as far as the messages of the admin service use it: the writers and the size
  functions of the bundled headers \<^verbatim>\<open>google/protobuf/io/coded_stream.h\<close> and \<^verbatim>\<open>wire_format_lite.h\<close>, and the encoding rules
  they implement.  A write target is the list of bytes written so far; making room in the stream does not change it.
  Shown: the size functions, which count bits instead of bytes, give the number of bytes written, and what the rules
  encode can be read back.
\<close>

unbundle bit_operations_syntax

named_theorems wire_rules

section \<open>Writers\<close>

text \<open>A template over the unsigned types; a shorter number is widened first, which does not change its bytes.\<close>

function UnsafeVarint :: "uint64 \<Rightarrow> byte list \<Rightarrow> byte list" where
  "UnsafeVarint val ptr =
     (if val \<ge> 0x80 then UnsafeVarint (drop_bit 7 val) (ptr @ [ucast (val OR 0x80)]) else ptr @ [ucast val])"
  by auto
termination
proof (relation "measure (\<lambda>(v, _). unat v)")
  fix val :: uint64 assume "val \<ge> 0x80"
  then have "0 < unat val" by (simp add: word_le_nat_alt)
  then have "unat val div 2 ^ 7 < unat val" by (intro div_less_dividend) simp_all
  then show "((drop_bit 7 val, ptr @ [ucast (val OR 0x80)]), val, ptr) \<in> measure (\<lambda>(v, _). unat v)" for ptr :: "byte list"
    by (simp add: drop_bit_eq_div unat_div)
qed simp

declare UnsafeVarint.simps [simp del]

definition WIRETYPE_VARINT :: uint32 where "WIRETYPE_VARINT = 0"
definition WIRETYPE_LENGTH_DELIMITED :: uint32 where "WIRETYPE_LENGTH_DELIMITED = 2"

definition MakeTag :: "uint32 \<Rightarrow> uint32 \<Rightarrow> uint32" where
  "MakeTag field_number type = push_bit 3 field_number OR type"

definition WriteTagToArray :: "uint32 \<Rightarrow> uint32 \<Rightarrow> byte list \<Rightarrow> byte list" where
  "WriteTagToArray field_number type target = UnsafeVarint (ucast (MakeTag field_number type)) target"

definition WriteInt32ToArray :: "uint32 \<Rightarrow> int \<Rightarrow> byte list \<Rightarrow> byte list" where
  "WriteInt32ToArray field_number val target =
     UnsafeVarint (word_of_int val) (WriteTagToArray field_number WIRETYPE_VARINT target)"

definition WriteInt64ToArray :: "uint32 \<Rightarrow> int \<Rightarrow> byte list \<Rightarrow> byte list" where
  "WriteInt64ToArray field_number val target =
     UnsafeVarint (word_of_int val) (WriteTagToArray field_number WIRETYPE_VARINT target)"

definition WriteUInt64ToArray :: "uint32 \<Rightarrow> uint64 \<Rightarrow> byte list \<Rightarrow> byte list" where
  "WriteUInt64ToArray field_number val target =
     UnsafeVarint val (WriteTagToArray field_number WIRETYPE_VARINT target)"

definition WriteBoolToArray :: "uint32 \<Rightarrow> bool \<Rightarrow> byte list \<Rightarrow> byte list" where
  "WriteBoolToArray field_number val target =
     UnsafeVarint (if val then 1 else 0) (WriteTagToArray field_number WIRETYPE_VARINT target)"

section \<open>Sizes\<close>

text \<open>The number of leading zero bits.\<close>

definition countl_zero :: "'a::len word \<Rightarrow> nat" where
  "countl_zero w = length (takeWhile (\<lambda>i. \<not> bit w i) (rev [0..<LENGTH('a)]))"

text \<open>The branch for processors without a count instruction, and the other one.\<close>

definition VarintSize32 :: "uint32 \<Rightarrow> nat" where
  "VarintSize32 val = (let log2value = 31 - countl_zero (val OR 1) in (log2value * 9 + (64 + 9)) div 64)"

definition VarintSize64PlusOne :: "uint64 \<Rightarrow> nat" where
  "VarintSize64PlusOne val = (let log2value = 63 - countl_zero (val OR 1) in (log2value * 9 + (64 + 9) + 64) div 64)"

definition VarintSize32_lzcnt :: "uint32 \<Rightarrow> nat" where
  "VarintSize32_lzcnt val = ((32 * 9 + 64) - countl_zero val * 9) div 64"

definition VarintSize64PlusOne_lzcnt :: "uint64 \<Rightarrow> nat" where
  "VarintSize64PlusOne_lzcnt val = ((64 * 9 + 64 + 64) - countl_zero val * 9) div 64"

definition Int32SizePlusOne :: "int \<Rightarrow> nat" where
  "Int32SizePlusOne val = VarintSize64PlusOne (word_of_int val)"

definition Int64SizePlusOne :: "int \<Rightarrow> nat" where
  "Int64SizePlusOne val = VarintSize64PlusOne (word_of_int val)"

definition UInt64SizePlusOne :: "uint64 \<Rightarrow> nat" where
  "UInt64SizePlusOne val = VarintSize64PlusOne val"

definition LengthDelimitedSize :: "nat \<Rightarrow> nat" where
  "LengthDelimitedSize len = len + VarintSize32 (of_nat len)"

definition StringSize :: "byte list \<Rightarrow> nat" where
  "StringSize val = LengthDelimitedSize (length val)"

section \<open>The encoding rules\<close>

text \<open>A number in groups of seven bits, lowest first, with a continuation bit on all but the last.\<close>

fun varint :: "nat \<Rightarrow> byte list" where
  "varint n = (if n < 128 then [of_nat n] else of_nat (n mod 128 + 128) # varint (n div 128))"

declare varint.simps [simp del]

fun read_varint :: "byte list \<Rightarrow> (nat \<times> byte list) option" where
  "read_varint [] = None"
| "read_varint (b # bs) = (if unat b < 128 then Some (unat b, bs)
     else case read_varint bs of None \<Rightarrow> None | Some (n, r) \<Rightarrow> Some (unat b - 128 + 128 * n, r))"

datatype wire_value = Varint nat | Delimited "byte list"

type_synonym wire_field = "nat \<times> wire_value"

fun field_bytes :: "wire_field \<Rightarrow> byte list" where
  "field_bytes (f, Varint n) = varint (8 * f) @ varint n"
| "field_bytes (f, Delimited s) = varint (8 * f + 2) @ varint (length s) @ s"

abbreviation encode :: "wire_field list \<Rightarrow> byte list" where
  "encode fs \<equiv> concat (map field_bytes fs)"

text \<open>The fields of a message; nothing for a field type that is not used here or for bytes that break off.\<close>

definition read_field :: "byte list \<Rightarrow> (wire_field \<times> byte list) option" where
  "read_field bs = (case read_varint bs of
       None \<Rightarrow> None
     | Some (tag, r) \<Rightarrow>
         if tag mod 8 = 0 then (case read_varint r of None \<Rightarrow> None | Some (n, r') \<Rightarrow> Some ((tag div 8, Varint n), r'))
         else if tag mod 8 = 2 then (case read_varint r of
             None \<Rightarrow> None
           | Some (n, r') \<Rightarrow> if length r' < n then None else Some ((tag div 8, Delimited (take n r')), drop n r'))
         else None)"

lemma read_varint_shorter: "read_varint bs = Some (n, r) \<Longrightarrow> length r < length bs"
proof (induction bs arbitrary: n r)
  case (Cons b bs)
  then show ?case by (cases "read_varint bs") (auto split: if_splits)
qed simp

lemma read_field_shorter: "read_field bs = Some (f, r) \<Longrightarrow> length r < length bs"
  by (fastforce simp: read_field_def split: option.splits if_splits dest!: read_varint_shorter)

function read_fields :: "byte list \<Rightarrow> wire_field list option" where
  "read_fields bs = (if bs = [] then Some [] else
     case read_field bs of None \<Rightarrow> None | Some (f, r) \<Rightarrow> map_option (Cons f) (read_fields r))"
  by auto
termination
  by (relation "measure length") (auto dest: read_field_shorter)

declare read_fields.simps [simp del]

section \<open>The writers follow the rules\<close>

lemma low_group: "(ucast (v OR 0x80) :: byte) = of_nat (unat v mod 128 + 128)" for v :: uint64
proof -
  let ?x = "take_bit 7 (ucast v) :: byte"
  have "(ucast (v OR 0x80) :: byte) = ?x OR 0x80"
    by (rule bit_word_eqI) (auto simp: bit_simps less_Suc_eq numeral_eq_Suc)
  also have "\<dots> = ?x + 0x80"
    by (rule disjunctive_add_eq_or[symmetric], rule bit_word_eqI) (auto simp: bit_simps less_Suc_eq numeral_eq_Suc)
  also have "?x = of_nat (unat v mod 128)"
    by (rule word_unat_eq_iff[THEN iffD2])
       (simp add: take_bit_eq_mod unat_mod unsigned_ucast_eq unsigned_of_nat mod_mod_cancel)
  finally show ?thesis by simp
qed

lemma UnsafeVarint_varint: "UnsafeVarint v ptr = ptr @ varint (unat v)"
proof (induction v ptr rule: UnsafeVarint.induct)
  case (1 v ptr)
  show ?case
  proof (cases "v \<ge> 0x80")
    case True
    then have "\<not> unat v < 128" by (simp add: word_le_nat_alt)
    then show ?thesis using 1[OF True] True low_group[of v]
      by (simp add: UnsafeVarint.simps[of v ptr] varint.simps[of "unat v"] drop_bit_eq_div unat_div)
  next
    case False
    then have "unat v < 128" by (simp add: word_le_nat_alt not_le)
    moreover have "(ucast v :: byte) = of_nat (unat v)" by (simp add: unsigned_of_nat)
    ultimately show ?thesis using False
      by (simp add: UnsafeVarint.simps[of v ptr] varint.simps[of "unat v"])
  qed
qed

text \<open>The size functions count bits: with the highest bit at \<open>k\<close>, a number takes \<open>k div 7 + 1\<close> groups.\<close>

lemma varint_length: "2 ^ k \<le> n \<Longrightarrow> n < 2 ^ (k + 1) \<Longrightarrow> length (varint n) = k div 7 + 1"
proof (induction n arbitrary: k rule: varint.induct)
  case (1 n)
  show ?case
  proof (cases "n < 128")
    case True
    then have "(2 :: nat) ^ k < 2 ^ 7" using 1(2) by simp
    then have "k < 7" by (rule power_less_imp_less_exp[rotated]) simp
    then show ?thesis using True by (simp add: varint.simps[of n])
  next
    case False
    then have "(2 :: nat) ^ 7 < 2 ^ (k + 1)" using 1(3) by simp
    then have "7 < k + 1" by (rule power_less_imp_less_exp[rotated]) simp
    then obtain j where j: "k = j + 7" using le_Suc_ex[of 7 k] by (auto simp: add.commute)
    have "2 ^ j \<le> n div 128" "n div 128 < 2 ^ (j + 1)"
      using 1(2,3) unfolding j by (simp_all add: power_add less_eq_div_iff_mult_less_eq div_less_iff_less_mult)
    then show ?thesis using 1(1)[OF False, of j] False j by (simp add: varint.simps[of n])
  qed
qed

lemma top_bit:
  assumes "0 < (n :: nat)"
  obtains k where "2 ^ k \<le> n" "n < 2 ^ (k + 1)"
proof -
  have "\<exists>k. 2 ^ k \<le> n \<and> n < 2 ^ (k + 1)" using assms
    by (metis ex_power_ivl1 one_less_numeral_iff semiring_norm(76) Suc_leI One_nat_def numeral_2_eq_2 le_refl)
  then show ?thesis using that by blast
qed

lemma countl_zero_top:
  assumes "2 ^ k \<le> unat w" "unat w < 2 ^ (k + 1)"
  shows "countl_zero (w :: 'a::len word) = LENGTH('a) - 1 - k" "k < LENGTH('a)"
proof -
  have "(2 :: nat) ^ k < 2 ^ LENGTH('a)" using assms(1) unsigned_less[of w, where ?'a = nat] by linarith
  then show k: "k < LENGTH('a)" by (rule power_less_imp_less_exp[rotated]) simp
  have b: "bit w i \<longleftrightarrow> odd (unat w div 2 ^ i)" for i 
    by (metis bit_imp_possible_bit bit_iff_odd bit_unsigned_iff possible_bit_nat)
  have "unat w div 2 ^ k = 1" using assms by (intro div_nat_eqI) simp_all
  then have "bit w k" unfolding b by simp
  moreover have "\<not> bit w i" if "k < i" for i
  proof -
    have "(2 :: nat) ^ (k + 1) \<le> 2 ^ i" using that by (intro power_increasing) simp_all
    then show ?thesis unfolding b using assms(2) by simp
  qed
  moreover have "rev [0..<LENGTH('a)] = rev [k + 1..<LENGTH('a)] @ k # rev [0..<k]"
    using k by (metis One_nat_def add.right_neutral add_Suc_right less_imp_le_nat upt_add_eq_append upt_conv_Cons
        le_add_diff_inverse rev_append rev.simps(2) append.assoc append_Cons append_Nil zero_le)
  moreover have "takeWhile (\<lambda>i. \<not> bit w i) (rev [k + 1..<LENGTH('a)] @ k # rev [0..<k]) = rev [k + 1..<LENGTH('a)]"
    using calculation(1,2) by (subst takeWhile_append2) auto
  ultimately show "countl_zero w = LENGTH('a) - 1 - k" by (simp only: countl_zero_def length_rev length_upt)
qed

lemma or_one_top:
  assumes "(w :: 'a::len word) \<noteq> 0" "2 ^ k \<le> unat w" "unat w < 2 ^ (k + 1)"
  shows "2 ^ k \<le> unat (w OR 1)" "unat (w OR 1) < 2 ^ (k + 1)"
proof -
  have "unat (w OR 1) = unat w OR 1" by (simp only: unsigned_or_eq unsigned_1)
  then have e: "unat (w OR 1) = unat w + of_bool (even (unat w))" 
    by (simp only: or_one_eq)
  then show "2 ^ k \<le> unat (w OR 1)" using assms(2) by simp
  have "Suc (unat w) \<noteq> 2 ^ (k + 1)" if "even (unat w)"
  proof
    assume "Suc (unat w) = 2 ^ (k + 1)"
    then have "even (Suc (unat w))" by simp
    then show False using that by simp
  qed
  then show "unat (w OR 1) < 2 ^ (k + 1)" using e assms(3) by (cases "even (unat w)") auto
qed

lemma log2_groups: "k < 64 \<Longrightarrow> (k * 9 + 73) div 64 = k div 7 + (1 :: nat)"
proof -
  have "\<forall>k \<in> set [0..<64]. (k * 9 + 73) div 64 = k div 7 + (1 :: nat)" by code_simp
  then show "k < 64 \<Longrightarrow> (k * 9 + 73) div 64 = k div 7 + (1 :: nat)" by simp
qed

text \<open>The highest bit as the size functions compute it.\<close>

lemma log2value:
  fixes w :: "'a::len word"
  assumes "LENGTH('a) \<le> 64"
  shows "((LENGTH('a) - 1 - countl_zero (w OR 1)) * 9 + 73) div 64 = length (varint (unat w))"
    "w \<noteq> 0 \<Longrightarrow> (LENGTH('a) * 9 + 64 - countl_zero w * 9) div 64 = length (varint (unat w))"
proof -
  show "((LENGTH('a) - 1 - countl_zero (w OR 1)) * 9 + 73) div 64 = length (varint (unat w))"
  proof (cases "w = 0")
    case True
    have "countl_zero (1 :: 'a word) = LENGTH('a) - 1" using countl_zero_top(1)[of 0 "1 :: 'a word"] by simp
    then show ?thesis using True by (simp add: varint.simps)
  next
    case False
    then obtain k where k: "2 ^ k \<le> unat w" "unat w < 2 ^ (k + 1)" using top_bit[of "unat w"] by (auto simp: unat_gt_0)
    note c = countl_zero_top[OF or_one_top[OF False k]]
    then show ?thesis using log2_groups[of k] varint_length[OF k] assms by simp
  qed
  assume "w \<noteq> 0"
  then obtain k where k: "2 ^ k \<le> unat w" "unat w < 2 ^ (k + 1)" using top_bit[of "unat w"] by (auto simp: unat_gt_0)
  note c = countl_zero_top[OF k]
  then have "LENGTH('a) * 9 + 64 - countl_zero w * 9 = k * 9 + 73" by (simp add: algebra_simps)
  then show "(LENGTH('a) * 9 + 64 - countl_zero w * 9) div 64 = length (varint (unat w))"
    using log2_groups[of k] varint_length[OF k] assms c(2) by simp
qed

lemma VarintSize32_length: "VarintSize32 v = length (varint (unat v))"
  using log2value(1)[of v] by (simp add: VarintSize32_def Let_def)

lemma VarintSize64PlusOne_length: "VarintSize64PlusOne v = 1 + length (varint (unat v))"
  using log2value(1)[of v] by (simp add: VarintSize64PlusOne_def Let_def)

lemma countl_zero_0: "countl_zero (0 :: 'a::len word) = LENGTH('a)"
proof -
  have "takeWhile (\<lambda>i. \<not> bit (0 :: 'a word) i) xs = xs" for xs by (rule takeWhile_eq_all_conv[THEN iffD2]) simp
  then show ?thesis by (simp only: countl_zero_def length_rev length_upt)
qed

lemma VarintSize_lzcnt_length:
  "VarintSize32_lzcnt w = length (varint (unat w))" "VarintSize64PlusOne_lzcnt v = 1 + length (varint (unat v))"
proof -
  show "VarintSize32_lzcnt w = length (varint (unat w))"
    using log2value(2)[of w] by (cases "w = 0") (simp_all add: VarintSize32_lzcnt_def countl_zero_0 varint.simps)
  have "((64 * 9 + 64 + 64) - countl_zero v * 9) div 64 = 1 + ((64 * 9 + 64) - countl_zero v * 9) div 64"
  proof -
    have "countl_zero v \<le> 64" using length_takeWhile_le[of _ "rev [0..<LENGTH(64)]"] by (simp add: countl_zero_def)
    then show ?thesis by simp
  qed
  then show "VarintSize64PlusOne_lzcnt v = 1 + length (varint (unat v))"
    using log2value(2)[of v] by (cases "v = 0") (simp_all add: VarintSize64PlusOne_lzcnt_def countl_zero_0 varint.simps)
qed

text \<open>Reading back.\<close>

lemma read_varint_varint: "read_varint (varint n @ r) = Some (n, r)"
proof (induction n rule: varint.induct)
  case (1 n)
  show ?case
  proof (cases "n < 128")
    case True
    then show ?thesis by (simp add: varint.simps[of n] unsigned_of_nat take_bit_nat_eq_self)
  next
    case False
    have "n mod 128 + 128 < 256" using mod_less_divisor[of 128 n] by linarith
    then have "unat (of_nat (n mod 128 + 128) :: byte) = n mod 128 + 128"
      by (simp only: unsigned_of_nat) (simp add: take_bit_nat_eq_self)
    then show ?thesis using 1[OF False] False by (simp add: varint.simps[of n] del: of_nat_add)
  qed
qed

lemma read_field_bytes: "read_field (field_bytes f @ r) = Some (f, r)"
proof (cases f rule: field_bytes.cases)
  case (2 n s)
  have "(8 * n + 2) mod 8 = 2" "(8 * n + 2) div 8 = n" by presburger+
  then show ?thesis using 2 by (simp add: read_field_def read_varint_varint del: add_2_eq_Suc' add_2_eq_Suc)
qed (simp add: read_field_def read_varint_varint)

lemma field_bytes_nonempty: "field_bytes f \<noteq> []"
  by (cases f rule: field_bytes.cases) (simp_all add: varint.simps)

lemma read_fields_encode: "read_fields (encode fs) = Some fs"
proof (induction fs)
  case (Cons f fs)
  have "encode (f # fs) \<noteq> []" using field_bytes_nonempty[of f] by simp
  then show ?case using Cons read_field_bytes[of f "encode fs"] by (subst read_fields.simps) simp
qed (simp add: read_fields.simps)

text \<open>The writers of single fields.\<close>

lemma WriteTagToArray_rule:
  assumes "unat f < 2 ^ 29"
  shows "WriteTagToArray f WIRETYPE_VARINT target = target @ varint (8 * unat f)"
    "WriteTagToArray f WIRETYPE_LENGTH_DELIMITED target = target @ varint (8 * unat f + 2)"
proof -
  have 8: "unat (push_bit 3 f) = 8 * unat f"
    using assms by (simp add: push_bit_eq_mult unat_mult_lem[THEN iffD1] unsigned_of_nat mult.commute)
  have u: "unat (ucast (x :: uint32) :: uint64) = unat x" for x
    using unsigned_less[of x, where ?'a = nat] by (simp add: unsigned_ucast_eq take_bit_nat_eq_self)
  have "\<not> bit x 1 \<Longrightarrow> x AND 2 = 0" for x :: uint32
    by (rule bit_word_eqI) (auto simp: bit_simps numeral_eq_Suc less_Suc_eq)
  moreover have "\<not> bit (push_bit 3 f) 1" by (simp only: bit_push_bit_iff) simp
  ultimately have "push_bit 3 f AND 2 = 0" by blast
  then have "push_bit 3 f OR 2 = push_bit 3 f + 2" by (simp add: disjunctive_add_eq_or)
  moreover have "unat (push_bit 3 f + 2) = 8 * unat f + 2"
    using 8 assms by (simp add: unat_add_lem[THEN iffD1])
  ultimately show "WriteTagToArray f WIRETYPE_LENGTH_DELIMITED target = target @ varint (8 * unat f + 2)"
    by (simp only: WriteTagToArray_def MakeTag_def WIRETYPE_LENGTH_DELIMITED_def UnsafeVarint_varint u)
  show "WriteTagToArray f WIRETYPE_VARINT target = target @ varint (8 * unat f)"
    by (simp add: WriteTagToArray_def MakeTag_def WIRETYPE_VARINT_def UnsafeVarint_varint u 8)
qed

lemma field_writers [wire_rules]:
  assumes "unat f < 2 ^ 29"
  shows "WriteInt32ToArray f v target = target @ field_bytes (unat f, Varint (unat (word_of_int v :: uint64)))"
    "WriteInt64ToArray f v target = target @ field_bytes (unat f, Varint (unat (word_of_int v :: uint64)))"
    "WriteUInt64ToArray f u target = target @ field_bytes (unat f, Varint (unat u))"
    "WriteBoolToArray f b target = target @ field_bytes (unat f, Varint (of_bool b))"
  using assms by (simp_all add: WriteInt32ToArray_def WriteInt64ToArray_def WriteUInt64ToArray_def WriteBoolToArray_def
      UnsafeVarint_varint WriteTagToArray_rule(1))

lemma field_sizes [wire_rules]:
  "Int32SizePlusOne v = 1 + length (varint (unat (word_of_int v :: uint64)))"
  "Int64SizePlusOne v = 1 + length (varint (unat (word_of_int v :: uint64)))"
  "UInt64SizePlusOne u = 1 + length (varint (unat u))"
  by (simp_all add: Int32SizePlusOne_def Int64SizePlusOne_def UInt64SizePlusOne_def VarintSize64PlusOne_length)

lemma LengthDelimitedSize_rule [wire_rules]:
  "n < 2 ^ 32 \<Longrightarrow> LengthDelimitedSize n = length (varint n) + n"
  by (simp add: LengthDelimitedSize_def VarintSize32_length unsigned_of_nat take_bit_nat_eq_self)

section \<open>Properties\<close>

text \<open>(C40) The size of a number on the wire.  The library computes the encoded size of a number from the position of its
  highest bit, with one multiplication and one shift, in two variants for different processors; both give exactly the
  number of bytes the encoder writes, for all numbers, so a buffer of the computed size is filled and never overrun.\<close>

theorem varint_sizes_exact:
  "VarintSize32 w = length (UnsafeVarint (ucast w) [])
 \<and> VarintSize32_lzcnt w = VarintSize32 w
 \<and> VarintSize64PlusOne v = 1 + length (UnsafeVarint v [])
 \<and> VarintSize64PlusOne_lzcnt v = VarintSize64PlusOne v"
proof -
  have "unat (ucast w :: uint64) = unat w"
    using unsigned_less[of w, where ?'a = nat] by (simp add: unsigned_ucast_eq take_bit_nat_eq_self)
  then show ?thesis
    by (simp add: UnsafeVarint_varint VarintSize32_length VarintSize64PlusOne_length VarintSize_lzcnt_length)
qed

end
