(* ===== verification/IpcMessages.thy ===== *)
theory IpcMessages
  imports Wire
begin

text \<open>
  The messages of the admin service: the response classes that the protocol buffer compiler made from
  \<^verbatim>\<open>DhNet_Ipc/dhnet.proto\<close> into \<^verbatim>\<open>generated/dhnet.pb.{h,cc}\<close>, with the operations the server runs on them: construction,
  the setters, the size computation and the serialization.  What the library does out of line is a parameter, with its
  documented behaviour in \<open>protobuf_rules\<close>; the check for valid UTF-8 only writes a log line and is left out.
  Shown: each class writes exactly the fields the schema lists, and announces exactly the number of bytes it writes.
\<close>

section \<open>The library\<close>

text \<open>The presence bits, what is left of the stream's buffer, and the functions that are not in the headers.\<close>

record protobuf =
  CheckHasBit :: "uint32 \<Rightarrow> uint32 \<Rightarrow> bool"
  BatchCheckHasBit :: "uint32 \<Rightarrow> uint32 \<Rightarrow> bool"
  SetHasBit :: "uint32 \<Rightarrow> uint32 \<Rightarrow> uint32"
  CheckHasBitForRepeated :: "uint32 \<Rightarrow> uint32 \<Rightarrow> bool"
  SetHasBitForRepeated :: "uint32 \<Rightarrow> uint32 \<Rightarrow> uint32"
  space :: "byte list \<Rightarrow> int"
  WriteStringMaybeAliasedOutline :: "uint32 \<Rightarrow> byte list \<Rightarrow> byte list \<Rightarrow> byte list"
  InternalWriteMessage :: "uint32 \<Rightarrow> (byte list \<Rightarrow> byte list) \<Rightarrow> nat \<Rightarrow> byte list \<Rightarrow> byte list"
  InternalSerializeUnknownFieldsToArray :: "byte list \<Rightarrow> byte list \<Rightarrow> byte list"
  MaybeComputeUnknownFieldsSize :: "nat \<Rightarrow> byte list \<Rightarrow> nat"

text \<open>Presence bits are bits of the word; a repeated field is looked at once an element was added to it.  A string, and a
  message of a known size, are written as a delimited field; unknown fields are written as they were read.\<close>

definition protobuf_rules :: "protobuf \<Rightarrow> bool" where
  "protobuf_rules pb \<longleftrightarrow>
     (\<forall>bits mask. CheckHasBit pb bits mask \<longleftrightarrow> bits AND mask \<noteq> 0)
   \<and> (\<forall>bits mask. BatchCheckHasBit pb bits mask \<longleftrightarrow> bits AND mask \<noteq> 0)
   \<and> (\<forall>bits mask. SetHasBit pb bits mask = bits OR mask)
   \<and> (\<forall>bits mask. mask \<noteq> 0 \<longrightarrow> CheckHasBitForRepeated pb (SetHasBitForRepeated pb bits mask) mask)
   \<and> (\<forall>f s target. unat f < 2 ^ 29 \<longrightarrow> length s < 2 ^ 31 \<longrightarrow>
        WriteStringMaybeAliasedOutline pb f s target = target @ field_bytes (unat f, Delimited s))
   \<and> (\<forall>f body n target. unat f < 2 ^ 29 \<longrightarrow> n < 2 ^ 31 \<longrightarrow>
        InternalWriteMessage pb f body n target = body (target @ varint (8 * unat f + 2) @ varint n))
   \<and> (\<forall>u target. InternalSerializeUnknownFieldsToArray pb u target = target @ u)
   \<and> (\<forall>n u. MaybeComputeUnknownFieldsSize pb n u = n + length u)"

text \<open>The inlined writer for strings.\<close>

definition TagSize :: "uint32 \<Rightarrow> int" where
  "TagSize tag = (if tag < 2 ^ 7 then 1 else if tag < 2 ^ 14 then 2 else if tag < 2 ^ 21 then 3 else if tag < 2 ^ 28 then 4 else 5)"

definition WriteStringMaybeAliased :: "protobuf \<Rightarrow> uint32 \<Rightarrow> byte list \<Rightarrow> byte list \<Rightarrow> byte list" where
  "WriteStringMaybeAliased pb num s ptr =
     (let size = length s in
      if size \<ge> 128 \<or> space pb ptr + 16 - TagSize (push_bit 3 num) - 1 < int size
      then WriteStringMaybeAliasedOutline pb num s ptr
      else UnsafeVarint (ucast (push_bit 3 num OR 2)) ptr @ [of_nat size] @ s)"

section \<open>The classes\<close>

text \<open>What all classes have: the presence bits, the size found last, the fields that were read and not understood.\<close>

record Message =
  has_bits :: uint32
  cached_size :: nat
  unknown_fields :: "byte list"

text \<open>The end of every serialization and of every size computation.\<close>

definition SerializeUnknown :: "protobuf \<Rightarrow> 'm Message_scheme \<Rightarrow> byte list \<Rightarrow> byte list" where
  "SerializeUnknown pb m target =
     (if unknown_fields m \<noteq> [] then InternalSerializeUnknownFieldsToArray pb (unknown_fields m) target else target)"

definition FinishSize :: "protobuf \<Rightarrow> nat \<Rightarrow> 'm Message_scheme \<Rightarrow> nat \<times> 'm Message_scheme" where
  "FinishSize pb total_size m =
     (let n = MaybeComputeUnknownFieldsSize pb total_size (unknown_fields m) in (n, m\<lparr>cached_size := n\<rparr>))"

subsection \<open>HealthCheckResponse\<close>

record HealthCheckResponse = Message +
  HealthCheckResponse_status :: "byte list"

definition HealthCheckResponse_ctor :: HealthCheckResponse where
  "HealthCheckResponse_ctor = \<lparr>has_bits = 0, cached_size = 0, unknown_fields = [],
     HealthCheckResponse_status = []\<rparr>"

definition HealthCheckResponse_set_status :: "protobuf \<Rightarrow> byte list \<Rightarrow> HealthCheckResponse \<Rightarrow> HealthCheckResponse" where
  "HealthCheckResponse_set_status pb v m = (m\<lparr>has_bits := SetHasBit pb (has_bits m) 1\<rparr>)\<lparr>HealthCheckResponse_status := v\<rparr>"

definition HealthCheckResponse_InternalSerialize :: "protobuf \<Rightarrow> HealthCheckResponse \<Rightarrow> byte list \<Rightarrow> byte list" where
  "HealthCheckResponse_InternalSerialize pb m target =
     (let bits = has_bits m;
          target = (if CheckHasBit pb bits 1 \<and> HealthCheckResponse_status m \<noteq> []
                    then WriteStringMaybeAliased pb 1 (HealthCheckResponse_status m) target else target)
      in SerializeUnknown pb m target)"

definition HealthCheckResponse_ByteSizeLong :: "protobuf \<Rightarrow> HealthCheckResponse \<Rightarrow> nat \<times> HealthCheckResponse" where
  "HealthCheckResponse_ByteSizeLong pb m =
     (let bits = has_bits m;
          total_size = (if CheckHasBit pb bits 1 \<and> HealthCheckResponse_status m \<noteq> []
               then 1 + StringSize (HealthCheckResponse_status m) else 0)
      in FinishSize pb total_size m)"

subsection \<open>RoomInfo\<close>

record RoomInfo = Message +
  RoomInfo_id :: int
  RoomInfo_name :: "byte list"
  RoomInfo_playercount :: int
  RoomInfo_capacity :: int

definition RoomInfo_ctor :: RoomInfo where
  "RoomInfo_ctor = \<lparr>has_bits = 0, cached_size = 0, unknown_fields = [],
     RoomInfo_id = 0, RoomInfo_name = [], RoomInfo_playercount = 0, RoomInfo_capacity = 0\<rparr>"

definition RoomInfo_set_id :: "protobuf \<Rightarrow> int \<Rightarrow> RoomInfo \<Rightarrow> RoomInfo" where
  "RoomInfo_set_id pb v m = (m\<lparr>RoomInfo_id := v\<rparr>)\<lparr>has_bits := SetHasBit pb (has_bits m) 2\<rparr>"

definition RoomInfo_set_name :: "protobuf \<Rightarrow> byte list \<Rightarrow> RoomInfo \<Rightarrow> RoomInfo" where
  "RoomInfo_set_name pb v m = (m\<lparr>has_bits := SetHasBit pb (has_bits m) 1\<rparr>)\<lparr>RoomInfo_name := v\<rparr>"

definition RoomInfo_set_playercount :: "protobuf \<Rightarrow> int \<Rightarrow> RoomInfo \<Rightarrow> RoomInfo" where
  "RoomInfo_set_playercount pb v m = (m\<lparr>RoomInfo_playercount := v\<rparr>)\<lparr>has_bits := SetHasBit pb (has_bits m) 4\<rparr>"

definition RoomInfo_set_capacity :: "protobuf \<Rightarrow> int \<Rightarrow> RoomInfo \<Rightarrow> RoomInfo" where
  "RoomInfo_set_capacity pb v m = (m\<lparr>RoomInfo_capacity := v\<rparr>)\<lparr>has_bits := SetHasBit pb (has_bits m) 8\<rparr>"

definition RoomInfo_InternalSerialize :: "protobuf \<Rightarrow> RoomInfo \<Rightarrow> byte list \<Rightarrow> byte list" where
  "RoomInfo_InternalSerialize pb m target =
     (let bits = has_bits m;
          target = (if CheckHasBit pb bits 2 \<and> RoomInfo_id m \<noteq> 0
                    then WriteInt64ToArray 1 (RoomInfo_id m) target else target);
          target = (if CheckHasBit pb bits 1 \<and> RoomInfo_name m \<noteq> []
                    then WriteStringMaybeAliased pb 2 (RoomInfo_name m) target else target);
          target = (if CheckHasBit pb bits 4 \<and> RoomInfo_playercount m \<noteq> 0
                    then WriteInt32ToArray 3 (RoomInfo_playercount m) target else target);
          target = (if CheckHasBit pb bits 8 \<and> RoomInfo_capacity m \<noteq> 0
                    then WriteInt32ToArray 4 (RoomInfo_capacity m) target else target)
      in SerializeUnknown pb m target)"

definition RoomInfo_ByteSizeLong :: "protobuf \<Rightarrow> RoomInfo \<Rightarrow> nat \<times> RoomInfo" where
  "RoomInfo_ByteSizeLong pb m =
     (let bits = has_bits m;
          total_size = (if BatchCheckHasBit pb bits 15 then
              (if CheckHasBit pb bits 1 \<and> RoomInfo_name m \<noteq> []
               then 1 + StringSize (RoomInfo_name m) else 0)
            + (if CheckHasBit pb bits 2 \<and> RoomInfo_id m \<noteq> 0
               then Int64SizePlusOne (RoomInfo_id m) else 0)
            + (if CheckHasBit pb bits 4 \<and> RoomInfo_playercount m \<noteq> 0
               then Int32SizePlusOne (RoomInfo_playercount m) else 0)
            + (if CheckHasBit pb bits 8 \<and> RoomInfo_capacity m \<noteq> 0
               then Int32SizePlusOne (RoomInfo_capacity m) else 0)
            else 0)
      in FinishSize pb total_size m)"

subsection \<open>BroadcastResponse\<close>

record BroadcastResponse = Message +
  BroadcastResponse_success :: bool
  BroadcastResponse_detail :: "byte list"

definition BroadcastResponse_ctor :: BroadcastResponse where
  "BroadcastResponse_ctor = \<lparr>has_bits = 0, cached_size = 0, unknown_fields = [],
     BroadcastResponse_success = False, BroadcastResponse_detail = []\<rparr>"

definition BroadcastResponse_set_success :: "protobuf \<Rightarrow> bool \<Rightarrow> BroadcastResponse \<Rightarrow> BroadcastResponse" where
  "BroadcastResponse_set_success pb v m = (m\<lparr>BroadcastResponse_success := v\<rparr>)\<lparr>has_bits := SetHasBit pb (has_bits m) 2\<rparr>"

definition BroadcastResponse_set_detail :: "protobuf \<Rightarrow> byte list \<Rightarrow> BroadcastResponse \<Rightarrow> BroadcastResponse" where
  "BroadcastResponse_set_detail pb v m = (m\<lparr>has_bits := SetHasBit pb (has_bits m) 1\<rparr>)\<lparr>BroadcastResponse_detail := v\<rparr>"

definition BroadcastResponse_InternalSerialize :: "protobuf \<Rightarrow> BroadcastResponse \<Rightarrow> byte list \<Rightarrow> byte list" where
  "BroadcastResponse_InternalSerialize pb m target =
     (let bits = has_bits m;
          target = (if CheckHasBit pb bits 2 \<and> BroadcastResponse_success m
                    then WriteBoolToArray 1 (BroadcastResponse_success m) target else target);
          target = (if CheckHasBit pb bits 1 \<and> BroadcastResponse_detail m \<noteq> []
                    then WriteStringMaybeAliased pb 2 (BroadcastResponse_detail m) target else target)
      in SerializeUnknown pb m target)"

definition BroadcastResponse_ByteSizeLong :: "protobuf \<Rightarrow> BroadcastResponse \<Rightarrow> nat \<times> BroadcastResponse" where
  "BroadcastResponse_ByteSizeLong pb m =
     (let bits = has_bits m;
          total_size = (if BatchCheckHasBit pb bits 3 then
              (if CheckHasBit pb bits 1 \<and> BroadcastResponse_detail m \<noteq> []
               then 1 + StringSize (BroadcastResponse_detail m) else 0)
            + (if CheckHasBit pb bits 2 \<and> BroadcastResponse_success m
               then 2 else 0)
            else 0)
      in FinishSize pb total_size m)"

subsection \<open>PlayerInfo\<close>

record PlayerInfo = Message +
  PlayerInfo_id :: uint64
  PlayerInfo_name :: "byte list"
  PlayerInfo_lobbyindex :: int
  PlayerInfo_roomindex :: int

definition PlayerInfo_ctor :: PlayerInfo where
  "PlayerInfo_ctor = \<lparr>has_bits = 0, cached_size = 0, unknown_fields = [],
     PlayerInfo_id = 0, PlayerInfo_name = [], PlayerInfo_lobbyindex = 0, PlayerInfo_roomindex = 0\<rparr>"

definition PlayerInfo_set_id :: "protobuf \<Rightarrow> uint64 \<Rightarrow> PlayerInfo \<Rightarrow> PlayerInfo" where
  "PlayerInfo_set_id pb v m = (m\<lparr>PlayerInfo_id := v\<rparr>)\<lparr>has_bits := SetHasBit pb (has_bits m) 2\<rparr>"

definition PlayerInfo_set_name :: "protobuf \<Rightarrow> byte list \<Rightarrow> PlayerInfo \<Rightarrow> PlayerInfo" where
  "PlayerInfo_set_name pb v m = (m\<lparr>has_bits := SetHasBit pb (has_bits m) 1\<rparr>)\<lparr>PlayerInfo_name := v\<rparr>"

definition PlayerInfo_set_lobbyindex :: "protobuf \<Rightarrow> int \<Rightarrow> PlayerInfo \<Rightarrow> PlayerInfo" where
  "PlayerInfo_set_lobbyindex pb v m = (m\<lparr>PlayerInfo_lobbyindex := v\<rparr>)\<lparr>has_bits := SetHasBit pb (has_bits m) 4\<rparr>"

definition PlayerInfo_set_roomindex :: "protobuf \<Rightarrow> int \<Rightarrow> PlayerInfo \<Rightarrow> PlayerInfo" where
  "PlayerInfo_set_roomindex pb v m = (m\<lparr>PlayerInfo_roomindex := v\<rparr>)\<lparr>has_bits := SetHasBit pb (has_bits m) 8\<rparr>"

definition PlayerInfo_InternalSerialize :: "protobuf \<Rightarrow> PlayerInfo \<Rightarrow> byte list \<Rightarrow> byte list" where
  "PlayerInfo_InternalSerialize pb m target =
     (let bits = has_bits m;
          target = (if CheckHasBit pb bits 2 \<and> PlayerInfo_id m \<noteq> 0
                    then WriteUInt64ToArray 1 (PlayerInfo_id m) target else target);
          target = (if CheckHasBit pb bits 1 \<and> PlayerInfo_name m \<noteq> []
                    then WriteStringMaybeAliased pb 2 (PlayerInfo_name m) target else target);
          target = (if CheckHasBit pb bits 4 \<and> PlayerInfo_lobbyindex m \<noteq> 0
                    then WriteInt32ToArray 3 (PlayerInfo_lobbyindex m) target else target);
          target = (if CheckHasBit pb bits 8 \<and> PlayerInfo_roomindex m \<noteq> 0
                    then WriteInt32ToArray 4 (PlayerInfo_roomindex m) target else target)
      in SerializeUnknown pb m target)"

definition PlayerInfo_ByteSizeLong :: "protobuf \<Rightarrow> PlayerInfo \<Rightarrow> nat \<times> PlayerInfo" where
  "PlayerInfo_ByteSizeLong pb m =
     (let bits = has_bits m;
          total_size = (if BatchCheckHasBit pb bits 15 then
              (if CheckHasBit pb bits 1 \<and> PlayerInfo_name m \<noteq> []
               then 1 + StringSize (PlayerInfo_name m) else 0)
            + (if CheckHasBit pb bits 2 \<and> PlayerInfo_id m \<noteq> 0
               then UInt64SizePlusOne (PlayerInfo_id m) else 0)
            + (if CheckHasBit pb bits 4 \<and> PlayerInfo_lobbyindex m \<noteq> 0
               then Int32SizePlusOne (PlayerInfo_lobbyindex m) else 0)
            + (if CheckHasBit pb bits 8 \<and> PlayerInfo_roomindex m \<noteq> 0
               then Int32SizePlusOne (PlayerInfo_roomindex m) else 0)
            else 0)
      in FinishSize pb total_size m)"

subsection \<open>KickPlayerResponse\<close>

record KickPlayerResponse = Message +
  KickPlayerResponse_success :: bool
  KickPlayerResponse_detail :: "byte list"

definition KickPlayerResponse_ctor :: KickPlayerResponse where
  "KickPlayerResponse_ctor = \<lparr>has_bits = 0, cached_size = 0, unknown_fields = [],
     KickPlayerResponse_success = False, KickPlayerResponse_detail = []\<rparr>"

definition KickPlayerResponse_set_success :: "protobuf \<Rightarrow> bool \<Rightarrow> KickPlayerResponse \<Rightarrow> KickPlayerResponse" where
  "KickPlayerResponse_set_success pb v m = (m\<lparr>KickPlayerResponse_success := v\<rparr>)\<lparr>has_bits := SetHasBit pb (has_bits m) 2\<rparr>"

definition KickPlayerResponse_set_detail :: "protobuf \<Rightarrow> byte list \<Rightarrow> KickPlayerResponse \<Rightarrow> KickPlayerResponse" where
  "KickPlayerResponse_set_detail pb v m = (m\<lparr>has_bits := SetHasBit pb (has_bits m) 1\<rparr>)\<lparr>KickPlayerResponse_detail := v\<rparr>"

definition KickPlayerResponse_InternalSerialize :: "protobuf \<Rightarrow> KickPlayerResponse \<Rightarrow> byte list \<Rightarrow> byte list" where
  "KickPlayerResponse_InternalSerialize pb m target =
     (let bits = has_bits m;
          target = (if CheckHasBit pb bits 2 \<and> KickPlayerResponse_success m
                    then WriteBoolToArray 1 (KickPlayerResponse_success m) target else target);
          target = (if CheckHasBit pb bits 1 \<and> KickPlayerResponse_detail m \<noteq> []
                    then WriteStringMaybeAliased pb 2 (KickPlayerResponse_detail m) target else target)
      in SerializeUnknown pb m target)"

definition KickPlayerResponse_ByteSizeLong :: "protobuf \<Rightarrow> KickPlayerResponse \<Rightarrow> nat \<times> KickPlayerResponse" where
  "KickPlayerResponse_ByteSizeLong pb m =
     (let bits = has_bits m;
          total_size = (if BatchCheckHasBit pb bits 3 then
              (if CheckHasBit pb bits 1 \<and> KickPlayerResponse_detail m \<noteq> []
               then 1 + StringSize (KickPlayerResponse_detail m) else 0)
            + (if CheckHasBit pb bits 2 \<and> KickPlayerResponse_success m
               then 2 else 0)
            else 0)
      in FinishSize pb total_size m)"

subsection \<open>LobbyInfo\<close>

record LobbyInfo = Message +
  LobbyInfo_id :: int
  LobbyInfo_playercount :: int
  LobbyInfo_capacity :: int

definition LobbyInfo_ctor :: LobbyInfo where
  "LobbyInfo_ctor = \<lparr>has_bits = 0, cached_size = 0, unknown_fields = [],
     LobbyInfo_id = 0, LobbyInfo_playercount = 0, LobbyInfo_capacity = 0\<rparr>"

definition LobbyInfo_set_id :: "protobuf \<Rightarrow> int \<Rightarrow> LobbyInfo \<Rightarrow> LobbyInfo" where
  "LobbyInfo_set_id pb v m = (m\<lparr>LobbyInfo_id := v\<rparr>)\<lparr>has_bits := SetHasBit pb (has_bits m) 1\<rparr>"

definition LobbyInfo_set_playercount :: "protobuf \<Rightarrow> int \<Rightarrow> LobbyInfo \<Rightarrow> LobbyInfo" where
  "LobbyInfo_set_playercount pb v m = (m\<lparr>LobbyInfo_playercount := v\<rparr>)\<lparr>has_bits := SetHasBit pb (has_bits m) 2\<rparr>"

definition LobbyInfo_set_capacity :: "protobuf \<Rightarrow> int \<Rightarrow> LobbyInfo \<Rightarrow> LobbyInfo" where
  "LobbyInfo_set_capacity pb v m = (m\<lparr>LobbyInfo_capacity := v\<rparr>)\<lparr>has_bits := SetHasBit pb (has_bits m) 4\<rparr>"

definition LobbyInfo_InternalSerialize :: "protobuf \<Rightarrow> LobbyInfo \<Rightarrow> byte list \<Rightarrow> byte list" where
  "LobbyInfo_InternalSerialize pb m target =
     (let bits = has_bits m;
          target = (if CheckHasBit pb bits 1 \<and> LobbyInfo_id m \<noteq> 0
                    then WriteInt32ToArray 1 (LobbyInfo_id m) target else target);
          target = (if CheckHasBit pb bits 2 \<and> LobbyInfo_playercount m \<noteq> 0
                    then WriteInt32ToArray 2 (LobbyInfo_playercount m) target else target);
          target = (if CheckHasBit pb bits 4 \<and> LobbyInfo_capacity m \<noteq> 0
                    then WriteInt32ToArray 3 (LobbyInfo_capacity m) target else target)
      in SerializeUnknown pb m target)"

definition LobbyInfo_ByteSizeLong :: "protobuf \<Rightarrow> LobbyInfo \<Rightarrow> nat \<times> LobbyInfo" where
  "LobbyInfo_ByteSizeLong pb m =
     (let bits = has_bits m;
          total_size = (if BatchCheckHasBit pb bits 7 then
              (if CheckHasBit pb bits 1 \<and> LobbyInfo_id m \<noteq> 0
               then Int32SizePlusOne (LobbyInfo_id m) else 0)
            + (if CheckHasBit pb bits 2 \<and> LobbyInfo_playercount m \<noteq> 0
               then Int32SizePlusOne (LobbyInfo_playercount m) else 0)
            + (if CheckHasBit pb bits 4 \<and> LobbyInfo_capacity m \<noteq> 0
               then Int32SizePlusOne (LobbyInfo_capacity m) else 0)
            else 0)
      in FinishSize pb total_size m)"

subsection \<open>ListRoomsResponse\<close>

record ListRoomsResponse = Message +
  ListRoomsResponse_rooms :: "RoomInfo list"

definition ListRoomsResponse_ctor :: ListRoomsResponse where
  "ListRoomsResponse_ctor = \<lparr>has_bits = 0, cached_size = 0, unknown_fields = [], ListRoomsResponse_rooms = []\<rparr>"

text \<open>\<^verbatim>\<open>add_rooms\<close> and what the caller then writes into the new element.\<close>

definition ListRoomsResponse_add_rooms :: "protobuf \<Rightarrow> (RoomInfo \<Rightarrow> RoomInfo) \<Rightarrow> ListRoomsResponse \<Rightarrow> ListRoomsResponse" where
  "ListRoomsResponse_add_rooms pb fill m = (m\<lparr>ListRoomsResponse_rooms := ListRoomsResponse_rooms m @ [fill RoomInfo_ctor]\<rparr>)
     \<lparr>has_bits := SetHasBitForRepeated pb (has_bits m) 1\<rparr>"

definition ListRoomsResponse_InternalSerialize :: "protobuf \<Rightarrow> ListRoomsResponse \<Rightarrow> byte list \<Rightarrow> byte list" where
  "ListRoomsResponse_InternalSerialize pb m target =
     (let bits = has_bits m;
          target = (if CheckHasBitForRepeated pb bits 1
            then fold (\<lambda>r target. InternalWriteMessage pb 1 (RoomInfo_InternalSerialize pb r) (cached_size r) target) (ListRoomsResponse_rooms m) target
            else target)
      in SerializeUnknown pb m target)"

definition ListRoomsResponse_ByteSizeLong :: "protobuf \<Rightarrow> ListRoomsResponse \<Rightarrow> nat \<times> ListRoomsResponse" where
  "ListRoomsResponse_ByteSizeLong pb m =
     (let bits = has_bits m in
      if CheckHasBitForRepeated pb bits 1
      then let sized = map (RoomInfo_ByteSizeLong pb) (ListRoomsResponse_rooms m);
               total_size = 1 * length sized + sum_list (map (\<lambda>(n, r). LengthDelimitedSize n) sized)
           in FinishSize pb total_size (m\<lparr>ListRoomsResponse_rooms := map snd sized\<rparr>)
      else FinishSize pb 0 m)"

subsection \<open>ListPlayersResponse\<close>

record ListPlayersResponse = Message +
  ListPlayersResponse_players :: "PlayerInfo list"

definition ListPlayersResponse_ctor :: ListPlayersResponse where
  "ListPlayersResponse_ctor = \<lparr>has_bits = 0, cached_size = 0, unknown_fields = [], ListPlayersResponse_players = []\<rparr>"

text \<open>\<^verbatim>\<open>add_players\<close> and what the caller then writes into the new element.\<close>

definition ListPlayersResponse_add_players :: "protobuf \<Rightarrow> (PlayerInfo \<Rightarrow> PlayerInfo) \<Rightarrow> ListPlayersResponse \<Rightarrow> ListPlayersResponse" where
  "ListPlayersResponse_add_players pb fill m = (m\<lparr>ListPlayersResponse_players := ListPlayersResponse_players m @ [fill PlayerInfo_ctor]\<rparr>)
     \<lparr>has_bits := SetHasBitForRepeated pb (has_bits m) 1\<rparr>"

definition ListPlayersResponse_InternalSerialize :: "protobuf \<Rightarrow> ListPlayersResponse \<Rightarrow> byte list \<Rightarrow> byte list" where
  "ListPlayersResponse_InternalSerialize pb m target =
     (let bits = has_bits m;
          target = (if CheckHasBitForRepeated pb bits 1
            then fold (\<lambda>r target. InternalWriteMessage pb 1 (PlayerInfo_InternalSerialize pb r) (cached_size r) target) (ListPlayersResponse_players m) target
            else target)
      in SerializeUnknown pb m target)"

definition ListPlayersResponse_ByteSizeLong :: "protobuf \<Rightarrow> ListPlayersResponse \<Rightarrow> nat \<times> ListPlayersResponse" where
  "ListPlayersResponse_ByteSizeLong pb m =
     (let bits = has_bits m in
      if CheckHasBitForRepeated pb bits 1
      then let sized = map (PlayerInfo_ByteSizeLong pb) (ListPlayersResponse_players m);
               total_size = 1 * length sized + sum_list (map (\<lambda>(n, r). LengthDelimitedSize n) sized)
           in FinishSize pb total_size (m\<lparr>ListPlayersResponse_players := map snd sized\<rparr>)
      else FinishSize pb 0 m)"

subsection \<open>ListLobbiesResponse\<close>

record ListLobbiesResponse = Message +
  ListLobbiesResponse_lobbies :: "LobbyInfo list"

definition ListLobbiesResponse_ctor :: ListLobbiesResponse where
  "ListLobbiesResponse_ctor = \<lparr>has_bits = 0, cached_size = 0, unknown_fields = [], ListLobbiesResponse_lobbies = []\<rparr>"

text \<open>\<^verbatim>\<open>add_lobbies\<close> and what the caller then writes into the new element.\<close>

definition ListLobbiesResponse_add_lobbies :: "protobuf \<Rightarrow> (LobbyInfo \<Rightarrow> LobbyInfo) \<Rightarrow> ListLobbiesResponse \<Rightarrow> ListLobbiesResponse" where
  "ListLobbiesResponse_add_lobbies pb fill m = (m\<lparr>ListLobbiesResponse_lobbies := ListLobbiesResponse_lobbies m @ [fill LobbyInfo_ctor]\<rparr>)
     \<lparr>has_bits := SetHasBitForRepeated pb (has_bits m) 1\<rparr>"

definition ListLobbiesResponse_InternalSerialize :: "protobuf \<Rightarrow> ListLobbiesResponse \<Rightarrow> byte list \<Rightarrow> byte list" where
  "ListLobbiesResponse_InternalSerialize pb m target =
     (let bits = has_bits m;
          target = (if CheckHasBitForRepeated pb bits 1
            then fold (\<lambda>r target. InternalWriteMessage pb 1 (LobbyInfo_InternalSerialize pb r) (cached_size r) target) (ListLobbiesResponse_lobbies m) target
            else target)
      in SerializeUnknown pb m target)"

definition ListLobbiesResponse_ByteSizeLong :: "protobuf \<Rightarrow> ListLobbiesResponse \<Rightarrow> nat \<times> ListLobbiesResponse" where
  "ListLobbiesResponse_ByteSizeLong pb m =
     (let bits = has_bits m in
      if CheckHasBitForRepeated pb bits 1
      then let sized = map (LobbyInfo_ByteSizeLong pb) (ListLobbiesResponse_lobbies m);
               total_size = 1 * length sized + sum_list (map (\<lambda>(n, r). LengthDelimitedSize n) sized)
           in FinishSize pb total_size (m\<lparr>ListLobbiesResponse_lobbies := map snd sized\<rparr>)
      else FinishSize pb 0 m)"

section \<open>The schema\<close>

text \<open>What \<^verbatim>\<open>dhnet.proto\<close> says a message consists of: the numbered fields that differ from their default, in order.\<close>

definition int_field :: "nat \<Rightarrow> int \<Rightarrow> wire_field list" where
  "int_field f v = (if v = 0 then [] else [(f, Varint (unat (word_of_int v :: uint64)))])"

definition uint_field :: "nat \<Rightarrow> uint64 \<Rightarrow> wire_field list" where
  "uint_field f v = (if v = 0 then [] else [(f, Varint (unat v))])"

definition bool_field :: "nat \<Rightarrow> bool \<Rightarrow> wire_field list" where
  "bool_field f v = (if v then [(f, Varint 1)] else [])"

definition string_field :: "nat \<Rightarrow> byte list \<Rightarrow> wire_field list" where
  "string_field f v = (if v = [] then [] else [(f, Delimited v)])"

definition HealthCheckResponse_fields :: "HealthCheckResponse \<Rightarrow> wire_field list" where
  "HealthCheckResponse_fields m = string_field 1 (HealthCheckResponse_status m)"

definition RoomInfo_fields :: "RoomInfo \<Rightarrow> wire_field list" where
  "RoomInfo_fields m = int_field 1 (RoomInfo_id m) @ string_field 2 (RoomInfo_name m) @ int_field 3 (RoomInfo_playercount m) @ int_field 4 (RoomInfo_capacity m)"

definition BroadcastResponse_fields :: "BroadcastResponse \<Rightarrow> wire_field list" where
  "BroadcastResponse_fields m = bool_field 1 (BroadcastResponse_success m) @ string_field 2 (BroadcastResponse_detail m)"

definition PlayerInfo_fields :: "PlayerInfo \<Rightarrow> wire_field list" where
  "PlayerInfo_fields m = uint_field 1 (PlayerInfo_id m) @ string_field 2 (PlayerInfo_name m) @ int_field 3 (PlayerInfo_lobbyindex m) @ int_field 4 (PlayerInfo_roomindex m)"

definition KickPlayerResponse_fields :: "KickPlayerResponse \<Rightarrow> wire_field list" where
  "KickPlayerResponse_fields m = bool_field 1 (KickPlayerResponse_success m) @ string_field 2 (KickPlayerResponse_detail m)"

definition LobbyInfo_fields :: "LobbyInfo \<Rightarrow> wire_field list" where
  "LobbyInfo_fields m = int_field 1 (LobbyInfo_id m) @ int_field 2 (LobbyInfo_playercount m) @ int_field 3 (LobbyInfo_capacity m)"

definition ListRoomsResponse_fields :: "ListRoomsResponse \<Rightarrow> wire_field list" where
  "ListRoomsResponse_fields m = map (\<lambda>r. (1, Delimited (encode (RoomInfo_fields r)))) (ListRoomsResponse_rooms m)"

definition ListPlayersResponse_fields :: "ListPlayersResponse \<Rightarrow> wire_field list" where
  "ListPlayersResponse_fields m = map (\<lambda>r. (1, Delimited (encode (PlayerInfo_fields r)))) (ListPlayersResponse_players m)"

definition ListLobbiesResponse_fields :: "ListLobbiesResponse \<Rightarrow> wire_field list" where
  "ListLobbiesResponse_fields m = map (\<lambda>r. (1, Delimited (encode (LobbyInfo_fields r)))) (ListLobbiesResponse_lobbies m)"

section \<open>Well-formed messages\<close>

text \<open>A field that differs from its default has its presence bit, and no string is longer than the format allows.\<close>

definition HealthCheckResponse_wf :: "HealthCheckResponse \<Rightarrow> bool" where
  "HealthCheckResponse_wf m \<longleftrightarrow> (HealthCheckResponse_status m \<noteq> [] \<longrightarrow> has_bits m AND 1 \<noteq> 0)
   \<and> length (HealthCheckResponse_status m) < 2 ^ 31"

definition RoomInfo_wf :: "RoomInfo \<Rightarrow> bool" where
  "RoomInfo_wf m \<longleftrightarrow> (RoomInfo_id m \<noteq> 0 \<longrightarrow> has_bits m AND 2 \<noteq> 0)
   \<and> (RoomInfo_name m \<noteq> [] \<longrightarrow> has_bits m AND 1 \<noteq> 0)
   \<and> (RoomInfo_playercount m \<noteq> 0 \<longrightarrow> has_bits m AND 4 \<noteq> 0)
   \<and> (RoomInfo_capacity m \<noteq> 0 \<longrightarrow> has_bits m AND 8 \<noteq> 0)
   \<and> length (RoomInfo_name m) < 2 ^ 31"

definition BroadcastResponse_wf :: "BroadcastResponse \<Rightarrow> bool" where
  "BroadcastResponse_wf m \<longleftrightarrow> (BroadcastResponse_success m \<longrightarrow> has_bits m AND 2 \<noteq> 0)
   \<and> (BroadcastResponse_detail m \<noteq> [] \<longrightarrow> has_bits m AND 1 \<noteq> 0)
   \<and> length (BroadcastResponse_detail m) < 2 ^ 31"

definition PlayerInfo_wf :: "PlayerInfo \<Rightarrow> bool" where
  "PlayerInfo_wf m \<longleftrightarrow> (PlayerInfo_id m \<noteq> 0 \<longrightarrow> has_bits m AND 2 \<noteq> 0)
   \<and> (PlayerInfo_name m \<noteq> [] \<longrightarrow> has_bits m AND 1 \<noteq> 0)
   \<and> (PlayerInfo_lobbyindex m \<noteq> 0 \<longrightarrow> has_bits m AND 4 \<noteq> 0)
   \<and> (PlayerInfo_roomindex m \<noteq> 0 \<longrightarrow> has_bits m AND 8 \<noteq> 0)
   \<and> length (PlayerInfo_name m) < 2 ^ 31"

definition KickPlayerResponse_wf :: "KickPlayerResponse \<Rightarrow> bool" where
  "KickPlayerResponse_wf m \<longleftrightarrow> (KickPlayerResponse_success m \<longrightarrow> has_bits m AND 2 \<noteq> 0)
   \<and> (KickPlayerResponse_detail m \<noteq> [] \<longrightarrow> has_bits m AND 1 \<noteq> 0)
   \<and> length (KickPlayerResponse_detail m) < 2 ^ 31"

definition LobbyInfo_wf :: "LobbyInfo \<Rightarrow> bool" where
  "LobbyInfo_wf m \<longleftrightarrow> (LobbyInfo_id m \<noteq> 0 \<longrightarrow> has_bits m AND 1 \<noteq> 0)
   \<and> (LobbyInfo_playercount m \<noteq> 0 \<longrightarrow> has_bits m AND 2 \<noteq> 0)
   \<and> (LobbyInfo_capacity m \<noteq> 0 \<longrightarrow> has_bits m AND 4 \<noteq> 0)"

text \<open>A list of well-formed elements without unknown fields, each short enough, behind a presence bit.\<close>

definition ListRoomsResponse_wf :: "protobuf \<Rightarrow> ListRoomsResponse \<Rightarrow> bool" where
  "ListRoomsResponse_wf pb m \<longleftrightarrow> (ListRoomsResponse_rooms m \<noteq> [] \<longrightarrow> CheckHasBitForRepeated pb (has_bits m) 1)
   \<and> (\<forall>r \<in> set (ListRoomsResponse_rooms m). RoomInfo_wf r \<and> unknown_fields r = [] \<and> length (encode (RoomInfo_fields r)) < 2 ^ 31)"

definition ListPlayersResponse_wf :: "protobuf \<Rightarrow> ListPlayersResponse \<Rightarrow> bool" where
  "ListPlayersResponse_wf pb m \<longleftrightarrow> (ListPlayersResponse_players m \<noteq> [] \<longrightarrow> CheckHasBitForRepeated pb (has_bits m) 1)
   \<and> (\<forall>r \<in> set (ListPlayersResponse_players m). PlayerInfo_wf r \<and> unknown_fields r = [] \<and> length (encode (PlayerInfo_fields r)) < 2 ^ 31)"

definition ListLobbiesResponse_wf :: "protobuf \<Rightarrow> ListLobbiesResponse \<Rightarrow> bool" where
  "ListLobbiesResponse_wf pb m \<longleftrightarrow> (ListLobbiesResponse_lobbies m \<noteq> [] \<longrightarrow> CheckHasBitForRepeated pb (has_bits m) 1)
   \<and> (\<forall>r \<in> set (ListLobbiesResponse_lobbies m). LobbyInfo_wf r \<and> unknown_fields r = [] \<and> length (encode (LobbyInfo_fields r)) < 2 ^ 31)"

section \<open>The classes follow the schema\<close>

lemma varint_small: "n < 128 \<Longrightarrow> varint n = [of_nat n]"
  by (subst varint.simps) simp

lemma protobuf_rulesD:
  assumes "protobuf_rules pb"
  shows "CheckHasBit pb = (\<lambda>bits mask. bits AND mask \<noteq> 0)" "BatchCheckHasBit pb = (\<lambda>bits mask. bits AND mask \<noteq> 0)"
    "SetHasBit pb = (\<lambda>bits mask. bits OR mask)"
    "k \<noteq> 0 \<Longrightarrow> CheckHasBitForRepeated pb (SetHasBitForRepeated pb bits k) k"
    "unat f < 2 ^ 29 \<Longrightarrow> length s < 2 ^ 31 \<Longrightarrow>
       WriteStringMaybeAliasedOutline pb f s target = target @ field_bytes (unat f, Delimited s)"
    "unat f < 2 ^ 29 \<Longrightarrow> n < 2 ^ 31 \<Longrightarrow> InternalWriteMessage pb f body n target = body (target @ varint (8 * unat f + 2) @ varint n)"
    "SerializeUnknown pb m target = target @ unknown_fields (m :: 'm Message_scheme)"
    "FinishSize pb n m = (n + length (unknown_fields m), m\<lparr>cached_size := n + length (unknown_fields m)\<rparr>)"
  using assms by (simp_all add: protobuf_rules_def SerializeUnknown_def FinishSize_def Let_def fun_eq_iff)

lemma WriteStringMaybeAliased_rule:
  assumes "protobuf_rules pb" "unat f < 2 ^ 29" "length s < 2 ^ 31"
  shows "WriteStringMaybeAliased pb f s target = target @ field_bytes (unat f, Delimited s)"
  using protobuf_rulesD(5)[OF assms] WriteTagToArray_rule(2)[OF assms(2), of target] varint_small[of "length s"]
  by (auto simp: WriteStringMaybeAliased_def Let_def WriteTagToArray_def MakeTag_def WIRETYPE_LENGTH_DELIMITED_def)

lemma batch_bits:
  "bits AND 15 = 0 \<Longrightarrow> bits AND 1 = 0 \<and> bits AND 2 = 0 \<and> bits AND 4 = 0 \<and> bits AND 8 = 0"
  "bits AND 7 = 0 \<Longrightarrow> bits AND 1 = 0 \<and> bits AND 2 = 0 \<and> bits AND 4 = 0"
  "bits AND 3 = 0 \<Longrightarrow> bits AND 1 = 0 \<and> bits AND 2 = 0" for bits :: uint32
proof -
  have sub: "bits AND m = 0" if "bits AND b = 0" "b AND m = m" for b m :: uint32
  proof -
    have "bits AND m = (bits AND b) AND m" using that(2) by (simp only: and.assoc)
    then show ?thesis using that(1) by simp
  qed
  show "bits AND 15 = 0 \<Longrightarrow> bits AND 1 = 0 \<and> bits AND 2 = 0 \<and> bits AND 4 = 0 \<and> bits AND 8 = 0"
    using sub[of 15 1] sub[of 15 2] sub[of 15 4] sub[of 15 8] by simp
  show "bits AND 7 = 0 \<Longrightarrow> bits AND 1 = 0 \<and> bits AND 2 = 0 \<and> bits AND 4 = 0"
    using sub[of 7 1] sub[of 7 2] sub[of 7 4] by simp
  show "bits AND 3 = 0 \<Longrightarrow> bits AND 1 = 0 \<and> bits AND 2 = 0" using sub[of 3 1] sub[of 3 2] by simp
qed

text \<open>A presence bit that is there whenever it matters does not matter.\<close>

lemma present: "(differs \<longrightarrow> bit_set) \<Longrightarrow> (bit_set \<and> differs) = differs"
  by blast

lemma field_lengths:
  assumes "f < 16"
  shows "length (encode (int_field f v)) = (if v \<noteq> 0 then 1 + length (varint (unat (word_of_int v :: uint64))) else 0)"
    "length (encode (uint_field f u)) = (if u \<noteq> 0 then 1 + length (varint (unat u)) else 0)"
    "length (encode (bool_field f b)) = (if b then 2 else 0)"
    "length s < 2 ^ 31 \<Longrightarrow> length (encode (string_field f s)) = (if s \<noteq> [] then 1 + StringSize s else 0)"
  using assms by (simp_all add: int_field_def uint_field_def bool_field_def string_field_def varint_small StringSize_def
      LengthDelimitedSize_rule)

lemma fields_written:
  assumes "unat f < 2 ^ 29"
  shows "(if v \<noteq> 0 then WriteInt32ToArray f v target else target) = target @ encode (int_field (unat f) v)"
    "(if v \<noteq> 0 then WriteInt64ToArray f v target else target) = target @ encode (int_field (unat f) v)"
    "(if u \<noteq> 0 then WriteUInt64ToArray f u target else target) = target @ encode (uint_field (unat f) u)"
    "(if b then WriteBoolToArray f b target else target) = target @ encode (bool_field (unat f) b)"
    "protobuf_rules pb \<Longrightarrow> length s < 2 ^ 31 \<Longrightarrow>
       (if s \<noteq> [] then WriteStringMaybeAliased pb f s target else target) = target @ encode (string_field (unat f) s)"
  using assms by (simp_all add: field_writers int_field_def uint_field_def bool_field_def string_field_def
      WriteStringMaybeAliased_rule del: field_bytes.simps)

lemma field_numbers: "(1 :: nat) < 16" "(2 :: nat) < 16" "(3 :: nat) < 16" "(4 :: nat) < 16"
  by simp_all

lemmas message_simps = present fields_written field_lengths field_sizes

lemma HealthCheckResponse_written:
  assumes "protobuf_rules pb" "HealthCheckResponse_wf m"
  shows "HealthCheckResponse_InternalSerialize pb m target = target @ encode (HealthCheckResponse_fields m) @ unknown_fields m"
    "HealthCheckResponse_ByteSizeLong pb m = FinishSize pb (length (encode (HealthCheckResponse_fields m))) m"
proof -
  note rules = protobuf_rulesD[OF assms(1)]
  show "HealthCheckResponse_InternalSerialize pb m target = target @ encode (HealthCheckResponse_fields m) @ unknown_fields m"
    using assms by (simp add: HealthCheckResponse_InternalSerialize_def HealthCheckResponse_wf_def HealthCheckResponse_fields_def rules message_simps Let_def)
  show "HealthCheckResponse_ByteSizeLong pb m = FinishSize pb (length (encode (HealthCheckResponse_fields m))) m"
  using assms(2)
    by (simp add: HealthCheckResponse_ByteSizeLong_def HealthCheckResponse_wf_def HealthCheckResponse_fields_def rules message_simps)
qed

lemma RoomInfo_written:
  assumes "protobuf_rules pb" "RoomInfo_wf m"
  shows "RoomInfo_InternalSerialize pb m target = target @ encode (RoomInfo_fields m) @ unknown_fields m"
    "RoomInfo_ByteSizeLong pb m = FinishSize pb (length (encode (RoomInfo_fields m))) m"
proof -
  note rules = protobuf_rulesD[OF assms(1)]
  show "RoomInfo_InternalSerialize pb m target = target @ encode (RoomInfo_fields m) @ unknown_fields m"
    using assms by (simp add: RoomInfo_InternalSerialize_def RoomInfo_wf_def RoomInfo_fields_def rules message_simps Let_def)
  show "RoomInfo_ByteSizeLong pb m = FinishSize pb (length (encode (RoomInfo_fields m))) m"
  proof (cases "has_bits m AND 15 = 0")
    case True
    then show ?thesis using assms(2) batch_bits(1)[OF True]
      by (simp add: RoomInfo_ByteSizeLong_def RoomInfo_wf_def RoomInfo_fields_def rules message_simps)
  next
    case False
    then show ?thesis using assms(2) unfolding RoomInfo_wf_def
      by (elim conjE) (simp only: RoomInfo_ByteSizeLong_def RoomInfo_fields_def rules(1,2) message_simps field_numbers Let_def if_True
          map_append concat_append length_append simp_thms add.assoc add.commute add.left_commute)
  qed
qed

lemma BroadcastResponse_written:
  assumes "protobuf_rules pb" "BroadcastResponse_wf m"
  shows "BroadcastResponse_InternalSerialize pb m target = target @ encode (BroadcastResponse_fields m) @ unknown_fields m"
    "BroadcastResponse_ByteSizeLong pb m = FinishSize pb (length (encode (BroadcastResponse_fields m))) m"
proof -
  note rules = protobuf_rulesD[OF assms(1)]
  show "BroadcastResponse_InternalSerialize pb m target = target @ encode (BroadcastResponse_fields m) @ unknown_fields m"
    using assms by (simp add: BroadcastResponse_InternalSerialize_def BroadcastResponse_wf_def BroadcastResponse_fields_def rules message_simps Let_def)
  show "BroadcastResponse_ByteSizeLong pb m = FinishSize pb (length (encode (BroadcastResponse_fields m))) m"
  proof (cases "has_bits m AND 3 = 0")
    case True
    then show ?thesis using assms(2) batch_bits(3)[OF True]
      by (simp add: BroadcastResponse_ByteSizeLong_def BroadcastResponse_wf_def BroadcastResponse_fields_def rules message_simps)
  next
    case False
    then show ?thesis using assms(2) unfolding BroadcastResponse_wf_def
      by (elim conjE) (simp only: BroadcastResponse_ByteSizeLong_def BroadcastResponse_fields_def rules(1,2) message_simps field_numbers Let_def if_True
          map_append concat_append length_append simp_thms add.assoc add.commute add.left_commute)
  qed
qed

lemma PlayerInfo_written:
  assumes "protobuf_rules pb" "PlayerInfo_wf m"
  shows "PlayerInfo_InternalSerialize pb m target = target @ encode (PlayerInfo_fields m) @ unknown_fields m"
    "PlayerInfo_ByteSizeLong pb m = FinishSize pb (length (encode (PlayerInfo_fields m))) m"
proof -
  note rules = protobuf_rulesD[OF assms(1)]
  show "PlayerInfo_InternalSerialize pb m target = target @ encode (PlayerInfo_fields m) @ unknown_fields m"
    using assms by (simp add: PlayerInfo_InternalSerialize_def PlayerInfo_wf_def PlayerInfo_fields_def rules message_simps Let_def)
  show "PlayerInfo_ByteSizeLong pb m = FinishSize pb (length (encode (PlayerInfo_fields m))) m"
  proof (cases "has_bits m AND 15 = 0")
    case True
    then show ?thesis using assms(2) batch_bits(1)[OF True]
      by (simp add: PlayerInfo_ByteSizeLong_def PlayerInfo_wf_def PlayerInfo_fields_def rules message_simps)
  next
    case False
    then show ?thesis using assms(2) unfolding PlayerInfo_wf_def
      by (elim conjE) (simp only: PlayerInfo_ByteSizeLong_def PlayerInfo_fields_def rules(1,2) message_simps field_numbers Let_def if_True
          map_append concat_append length_append simp_thms add.assoc add.commute add.left_commute)
  qed
qed

lemma KickPlayerResponse_written:
  assumes "protobuf_rules pb" "KickPlayerResponse_wf m"
  shows "KickPlayerResponse_InternalSerialize pb m target = target @ encode (KickPlayerResponse_fields m) @ unknown_fields m"
    "KickPlayerResponse_ByteSizeLong pb m = FinishSize pb (length (encode (KickPlayerResponse_fields m))) m"
proof -
  note rules = protobuf_rulesD[OF assms(1)]
  show "KickPlayerResponse_InternalSerialize pb m target = target @ encode (KickPlayerResponse_fields m) @ unknown_fields m"
    using assms by (simp add: KickPlayerResponse_InternalSerialize_def KickPlayerResponse_wf_def KickPlayerResponse_fields_def rules message_simps Let_def)
  show "KickPlayerResponse_ByteSizeLong pb m = FinishSize pb (length (encode (KickPlayerResponse_fields m))) m"
  proof (cases "has_bits m AND 3 = 0")
    case True
    then show ?thesis using assms(2) batch_bits(3)[OF True]
      by (simp add: KickPlayerResponse_ByteSizeLong_def KickPlayerResponse_wf_def KickPlayerResponse_fields_def rules message_simps)
  next
    case False
    then show ?thesis using assms(2) unfolding KickPlayerResponse_wf_def
      by (elim conjE) (simp only: KickPlayerResponse_ByteSizeLong_def KickPlayerResponse_fields_def rules(1,2) message_simps field_numbers Let_def if_True
          map_append concat_append length_append simp_thms add.assoc add.commute add.left_commute)
  qed
qed

lemma LobbyInfo_written:
  assumes "protobuf_rules pb" "LobbyInfo_wf m"
  shows "LobbyInfo_InternalSerialize pb m target = target @ encode (LobbyInfo_fields m) @ unknown_fields m"
    "LobbyInfo_ByteSizeLong pb m = FinishSize pb (length (encode (LobbyInfo_fields m))) m"
proof -
  note rules = protobuf_rulesD[OF assms(1)]
  show "LobbyInfo_InternalSerialize pb m target = target @ encode (LobbyInfo_fields m) @ unknown_fields m"
    using assms by (simp add: LobbyInfo_InternalSerialize_def LobbyInfo_wf_def LobbyInfo_fields_def rules message_simps Let_def)
  show "LobbyInfo_ByteSizeLong pb m = FinishSize pb (length (encode (LobbyInfo_fields m))) m"
  proof (cases "has_bits m AND 7 = 0")
    case True
    then show ?thesis using assms(2) batch_bits(2)[OF True]
      by (simp add: LobbyInfo_ByteSizeLong_def LobbyInfo_wf_def LobbyInfo_fields_def rules message_simps)
  next
    case False
    then show ?thesis using assms(2) unfolding LobbyInfo_wf_def
      by (elim conjE) (simp only: LobbyInfo_ByteSizeLong_def LobbyInfo_fields_def rules(1,2) message_simps field_numbers Let_def if_True
          map_append concat_append length_append simp_thms add.assoc add.commute add.left_commute)
  qed
qed

text \<open>Lists of messages: each element is written with the size that was found for it.\<close>

lemma messages_written:
  assumes "protobuf_rules pb"
    and "\<forall>r \<in> set rs. (\<forall>t. ser r t = t @ encode (flds r)) \<and> cached_size r = length (encode (flds r)) \<and> cached_size r < 2 ^ 31"
  shows "fold (\<lambda>r t. InternalWriteMessage pb 1 (ser r) (cached_size r) t) rs target
     = target @ encode (map (\<lambda>r. (1, Delimited (encode (flds r)))) rs)"
  using assms(2)
proof (induction rs arbitrary: target)
  case (Cons r rs)
  then have "InternalWriteMessage pb 1 (ser r) (cached_size r) target
      = target @ field_bytes (1, Delimited (encode (flds r)))"
    by (simp add: protobuf_rulesD(6)[OF assms(1)])
  moreover have "\<forall>r \<in> set rs. (\<forall>t. ser r t = t @ encode (flds r)) \<and> cached_size r = length (encode (flds r)) \<and> cached_size r < 2 ^ 31"
    using Cons.prems by (meson list.set_intros(2))
  ultimately show ?case by (simp only: Cons.IH fold_simps list.map concat.simps append_assoc)
qed simp

lemma messages_length:
  assumes "\<forall>r \<in> set rs. length (encode (flds r)) < 2 ^ 31"
  shows "length (encode (map (\<lambda>r. (1, Delimited (encode (flds r)))) rs))
     = length rs + sum_list (map (\<lambda>r. LengthDelimitedSize (length (encode (flds r)))) rs)"
  using assms by (induction rs) (simp_all add: LengthDelimitedSize_rule varint_small)

lemma ListRoomsResponse_written:
  assumes "protobuf_rules pb" "ListRoomsResponse_wf pb m"
  shows "fst (ListRoomsResponse_ByteSizeLong pb m) = length (encode (ListRoomsResponse_fields m) @ unknown_fields m)"
    "ListRoomsResponse_InternalSerialize pb (snd (ListRoomsResponse_ByteSizeLong pb m)) target = target @ encode (ListRoomsResponse_fields m) @ unknown_fields m"
proof -
  note rules = protobuf_rulesD[OF assms(1)]
  let ?size = "\<lambda>r. length (encode (RoomInfo_fields r))" and ?es = "ListRoomsResponse_rooms m"
  let ?sized = "\<lambda>r. r\<lparr>cached_size := ?size r\<rparr>"
  have wf: "\<forall>r \<in> set ?es. RoomInfo_wf r \<and> unknown_fields r = [] \<and> ?size r < 2 ^ 31" using assms(2) by (simp add: ListRoomsResponse_wf_def)
  have "RoomInfo_ByteSizeLong pb r = (?size r, ?sized r)" if "r \<in> set ?es" for r
    using wf that RoomInfo_written(2)[OF assms(1), of r] by (simp add: rules(8))
  then have sized: "map (RoomInfo_ByteSizeLong pb) ?es = map (\<lambda>r. (?size r, ?sized r)) ?es" by simp
  have lengths: "length (encode (ListRoomsResponse_fields m)) = length ?es + sum_list (map (\<lambda>r. LengthDelimitedSize (?size r)) ?es)"
    unfolding ListRoomsResponse_fields_def by (rule messages_length) (use wf in blast)
  have total: "ListRoomsResponse_ByteSizeLong pb m = FinishSize pb (length (encode (ListRoomsResponse_fields m))) (m\<lparr>ListRoomsResponse_rooms := map ?sized ?es\<rparr>)"
  proof (cases "CheckHasBitForRepeated pb (has_bits m) 1")
    case True
    then show ?thesis using lengths by (simp add: ListRoomsResponse_ByteSizeLong_def sized comp_def Let_def)
  next
    case False
    then have "?es = []" using assms(2) by (auto simp: ListRoomsResponse_wf_def)
    then show ?thesis using False by (cases m) (simp add: ListRoomsResponse_ByteSizeLong_def ListRoomsResponse_fields_def)
  qed
  then show "fst (ListRoomsResponse_ByteSizeLong pb m) = length (encode (ListRoomsResponse_fields m) @ unknown_fields m)" by (simp add: rules(8))
  have "RoomInfo_InternalSerialize pb (?sized r) t = t @ encode (RoomInfo_fields (?sized r))" if "r \<in> set ?es" for r t
    using RoomInfo_written(1)[OF assms(1), of "?sized r" t] wf that by (simp add: RoomInfo_wf_def)
  then have "fold (\<lambda>r t. InternalWriteMessage pb 1 (RoomInfo_InternalSerialize pb r) (cached_size r) t) (map ?sized ?es) target
      = target @ encode (map (\<lambda>r. (1, Delimited (encode (RoomInfo_fields r)))) (map ?sized ?es))"
    by (intro messages_written[OF assms(1)]) (use wf in \<open>auto simp: RoomInfo_fields_def\<close>)
  moreover have "RoomInfo_fields (?sized r) = RoomInfo_fields r" for r by (simp add: RoomInfo_fields_def)
  ultimately show "ListRoomsResponse_InternalSerialize pb (snd (ListRoomsResponse_ByteSizeLong pb m)) target = target @ encode (ListRoomsResponse_fields m) @ unknown_fields m"
    using assms(2) unfolding total by (auto simp: rules(7,8) ListRoomsResponse_InternalSerialize_def ListRoomsResponse_fields_def ListRoomsResponse_wf_def comp_def Let_def)
qed

lemma ListPlayersResponse_written:
  assumes "protobuf_rules pb" "ListPlayersResponse_wf pb m"
  shows "fst (ListPlayersResponse_ByteSizeLong pb m) = length (encode (ListPlayersResponse_fields m) @ unknown_fields m)"
    "ListPlayersResponse_InternalSerialize pb (snd (ListPlayersResponse_ByteSizeLong pb m)) target = target @ encode (ListPlayersResponse_fields m) @ unknown_fields m"
proof -
  note rules = protobuf_rulesD[OF assms(1)]
  let ?size = "\<lambda>r. length (encode (PlayerInfo_fields r))" and ?es = "ListPlayersResponse_players m"
  let ?sized = "\<lambda>r. r\<lparr>cached_size := ?size r\<rparr>"
  have wf: "\<forall>r \<in> set ?es. PlayerInfo_wf r \<and> unknown_fields r = [] \<and> ?size r < 2 ^ 31" using assms(2) by (simp add: ListPlayersResponse_wf_def)
  have "PlayerInfo_ByteSizeLong pb r = (?size r, ?sized r)" if "r \<in> set ?es" for r
    using wf that PlayerInfo_written(2)[OF assms(1), of r] by (simp add: rules(8))
  then have sized: "map (PlayerInfo_ByteSizeLong pb) ?es = map (\<lambda>r. (?size r, ?sized r)) ?es" by simp
  have lengths: "length (encode (ListPlayersResponse_fields m)) = length ?es + sum_list (map (\<lambda>r. LengthDelimitedSize (?size r)) ?es)"
    unfolding ListPlayersResponse_fields_def by (rule messages_length) (use wf in blast)
  have total: "ListPlayersResponse_ByteSizeLong pb m = FinishSize pb (length (encode (ListPlayersResponse_fields m))) (m\<lparr>ListPlayersResponse_players := map ?sized ?es\<rparr>)"
  proof (cases "CheckHasBitForRepeated pb (has_bits m) 1")
    case True
    then show ?thesis using lengths by (simp add: ListPlayersResponse_ByteSizeLong_def sized comp_def Let_def)
  next
    case False
    then have "?es = []" using assms(2) by (auto simp: ListPlayersResponse_wf_def)
    then show ?thesis using False by (cases m) (simp add: ListPlayersResponse_ByteSizeLong_def ListPlayersResponse_fields_def)
  qed
  then show "fst (ListPlayersResponse_ByteSizeLong pb m) = length (encode (ListPlayersResponse_fields m) @ unknown_fields m)" by (simp add: rules(8))
  have "PlayerInfo_InternalSerialize pb (?sized r) t = t @ encode (PlayerInfo_fields (?sized r))" if "r \<in> set ?es" for r t
    using PlayerInfo_written(1)[OF assms(1), of "?sized r" t] wf that by (simp add: PlayerInfo_wf_def)
  then have "fold (\<lambda>r t. InternalWriteMessage pb 1 (PlayerInfo_InternalSerialize pb r) (cached_size r) t) (map ?sized ?es) target
      = target @ encode (map (\<lambda>r. (1, Delimited (encode (PlayerInfo_fields r)))) (map ?sized ?es))"
    by (intro messages_written[OF assms(1)]) (use wf in \<open>auto simp: PlayerInfo_fields_def\<close>)
  moreover have "PlayerInfo_fields (?sized r) = PlayerInfo_fields r" for r by (simp add: PlayerInfo_fields_def)
  ultimately show "ListPlayersResponse_InternalSerialize pb (snd (ListPlayersResponse_ByteSizeLong pb m)) target = target @ encode (ListPlayersResponse_fields m) @ unknown_fields m"
    using assms(2) unfolding total by (auto simp: rules(7,8) ListPlayersResponse_InternalSerialize_def ListPlayersResponse_fields_def ListPlayersResponse_wf_def comp_def Let_def)
qed

lemma ListLobbiesResponse_written:
  assumes "protobuf_rules pb" "ListLobbiesResponse_wf pb m"
  shows "fst (ListLobbiesResponse_ByteSizeLong pb m) = length (encode (ListLobbiesResponse_fields m) @ unknown_fields m)"
    "ListLobbiesResponse_InternalSerialize pb (snd (ListLobbiesResponse_ByteSizeLong pb m)) target = target @ encode (ListLobbiesResponse_fields m) @ unknown_fields m"
proof -
  note rules = protobuf_rulesD[OF assms(1)]
  let ?size = "\<lambda>r. length (encode (LobbyInfo_fields r))" and ?es = "ListLobbiesResponse_lobbies m"
  let ?sized = "\<lambda>r. r\<lparr>cached_size := ?size r\<rparr>"
  have wf: "\<forall>r \<in> set ?es. LobbyInfo_wf r \<and> unknown_fields r = [] \<and> ?size r < 2 ^ 31" using assms(2) by (simp add: ListLobbiesResponse_wf_def)
  have "LobbyInfo_ByteSizeLong pb r = (?size r, ?sized r)" if "r \<in> set ?es" for r
    using wf that LobbyInfo_written(2)[OF assms(1), of r] by (simp add: rules(8))
  then have sized: "map (LobbyInfo_ByteSizeLong pb) ?es = map (\<lambda>r. (?size r, ?sized r)) ?es" by simp
  have lengths: "length (encode (ListLobbiesResponse_fields m)) = length ?es + sum_list (map (\<lambda>r. LengthDelimitedSize (?size r)) ?es)"
    unfolding ListLobbiesResponse_fields_def by (rule messages_length) (use wf in blast)
  have total: "ListLobbiesResponse_ByteSizeLong pb m = FinishSize pb (length (encode (ListLobbiesResponse_fields m))) (m\<lparr>ListLobbiesResponse_lobbies := map ?sized ?es\<rparr>)"
  proof (cases "CheckHasBitForRepeated pb (has_bits m) 1")
    case True
    then show ?thesis using lengths by (simp add: ListLobbiesResponse_ByteSizeLong_def sized comp_def Let_def)
  next
    case False
    then have "?es = []" using assms(2) by (auto simp: ListLobbiesResponse_wf_def)
    then show ?thesis using False by (cases m) (simp add: ListLobbiesResponse_ByteSizeLong_def ListLobbiesResponse_fields_def)
  qed
  then show "fst (ListLobbiesResponse_ByteSizeLong pb m) = length (encode (ListLobbiesResponse_fields m) @ unknown_fields m)" by (simp add: rules(8))
  have "LobbyInfo_InternalSerialize pb (?sized r) t = t @ encode (LobbyInfo_fields (?sized r))" if "r \<in> set ?es" for r t
    using LobbyInfo_written(1)[OF assms(1), of "?sized r" t] wf that by (simp add: LobbyInfo_wf_def)
  then have "fold (\<lambda>r t. InternalWriteMessage pb 1 (LobbyInfo_InternalSerialize pb r) (cached_size r) t) (map ?sized ?es) target
      = target @ encode (map (\<lambda>r. (1, Delimited (encode (LobbyInfo_fields r)))) (map ?sized ?es))"
    by (intro messages_written[OF assms(1)]) (use wf in \<open>auto simp: LobbyInfo_fields_def\<close>)
  moreover have "LobbyInfo_fields (?sized r) = LobbyInfo_fields r" for r by (simp add: LobbyInfo_fields_def)
  ultimately show "ListLobbiesResponse_InternalSerialize pb (snd (ListLobbiesResponse_ByteSizeLong pb m)) target = target @ encode (ListLobbiesResponse_fields m) @ unknown_fields m"
    using assms(2) unfolding total by (auto simp: rules(7,8) ListLobbiesResponse_InternalSerialize_def ListLobbiesResponse_fields_def ListLobbiesResponse_wf_def comp_def Let_def)
qed

section \<open>Responses\<close>

text \<open>The responses of the service.  The library asks a response for its size, makes a buffer of that size and has the
  response write itself.\<close>

datatype response =
    HealthCheck HealthCheckResponse
  | ListRooms ListRoomsResponse
  | Broadcast BroadcastResponse
  | ListPlayers ListPlayersResponse
  | KickPlayer KickPlayerResponse
  | ListLobbies ListLobbiesResponse

fun serialize_response :: "protobuf \<Rightarrow> response \<Rightarrow> nat \<times> byte list" where
  "serialize_response pb (HealthCheck m) = (let (n, m) = HealthCheckResponse_ByteSizeLong pb m in (n, HealthCheckResponse_InternalSerialize pb m []))"
| "serialize_response pb (ListRooms m) = (let (n, m) = ListRoomsResponse_ByteSizeLong pb m in (n, ListRoomsResponse_InternalSerialize pb m []))"
| "serialize_response pb (Broadcast m) = (let (n, m) = BroadcastResponse_ByteSizeLong pb m in (n, BroadcastResponse_InternalSerialize pb m []))"
| "serialize_response pb (ListPlayers m) = (let (n, m) = ListPlayersResponse_ByteSizeLong pb m in (n, ListPlayersResponse_InternalSerialize pb m []))"
| "serialize_response pb (KickPlayer m) = (let (n, m) = KickPlayerResponse_ByteSizeLong pb m in (n, KickPlayerResponse_InternalSerialize pb m []))"
| "serialize_response pb (ListLobbies m) = (let (n, m) = ListLobbiesResponse_ByteSizeLong pb m in (n, ListLobbiesResponse_InternalSerialize pb m []))"

fun response_fields :: "response \<Rightarrow> wire_field list" where
  "response_fields (HealthCheck m) = HealthCheckResponse_fields m"
| "response_fields (ListRooms m) = ListRoomsResponse_fields m"
| "response_fields (Broadcast m) = BroadcastResponse_fields m"
| "response_fields (ListPlayers m) = ListPlayersResponse_fields m"
| "response_fields (KickPlayer m) = KickPlayerResponse_fields m"
| "response_fields (ListLobbies m) = ListLobbiesResponse_fields m"

fun response_wf :: "protobuf \<Rightarrow> response \<Rightarrow> bool" where
  "response_wf pb (HealthCheck m) \<longleftrightarrow> HealthCheckResponse_wf m \<and> unknown_fields m = []"
| "response_wf pb (ListRooms m) \<longleftrightarrow> ListRoomsResponse_wf pb m \<and> unknown_fields m = []"
| "response_wf pb (Broadcast m) \<longleftrightarrow> BroadcastResponse_wf m \<and> unknown_fields m = []"
| "response_wf pb (ListPlayers m) \<longleftrightarrow> ListPlayersResponse_wf pb m \<and> unknown_fields m = []"
| "response_wf pb (KickPlayer m) \<longleftrightarrow> KickPlayerResponse_wf m \<and> unknown_fields m = []"
| "response_wf pb (ListLobbies m) \<longleftrightarrow> ListLobbiesResponse_wf pb m \<and> unknown_fields m = []"

lemmas cached_simps = HealthCheckResponse_wf_def HealthCheckResponse_fields_def BroadcastResponse_wf_def BroadcastResponse_fields_def KickPlayerResponse_wf_def KickPlayerResponse_fields_def

lemma cached_size_irrelevant:
  "HealthCheckResponse_wf (m1\<lparr>cached_size := n\<rparr>) \<longleftrightarrow> HealthCheckResponse_wf m1" "HealthCheckResponse_fields (m1\<lparr>cached_size := n\<rparr>) = HealthCheckResponse_fields m1"
  "BroadcastResponse_wf (m2\<lparr>cached_size := n\<rparr>) \<longleftrightarrow> BroadcastResponse_wf m2" "BroadcastResponse_fields (m2\<lparr>cached_size := n\<rparr>) = BroadcastResponse_fields m2"
  "KickPlayerResponse_wf (m3\<lparr>cached_size := n\<rparr>) \<longleftrightarrow> KickPlayerResponse_wf m3" "KickPlayerResponse_fields (m3\<lparr>cached_size := n\<rparr>) = KickPlayerResponse_fields m3"
  by (simp_all add: cached_simps)

lemma serialized:
  assumes "protobuf_rules pb" "response_wf pb r"
  shows "serialize_response pb r = (length (encode (response_fields r)), encode (response_fields r))"
proof (cases r)
  case (HealthCheck m)
  then have "HealthCheckResponse_wf m" "unknown_fields m = []" using assms(2) by simp_all
  then show ?thesis using HealthCheckResponse_written[OF assms(1)] HealthCheck
    by (simp add: protobuf_rulesD(8)[OF assms(1)] cached_size_irrelevant)
next
  case (ListRooms m)
  then show ?thesis using assms ListRoomsResponse_written[OF assms(1), of m] by (cases "ListRoomsResponse_ByteSizeLong pb m") simp
next
  case (Broadcast m)
  then have "BroadcastResponse_wf m" "unknown_fields m = []" using assms(2) by simp_all
  then show ?thesis using BroadcastResponse_written[OF assms(1)] Broadcast
    by (simp add: protobuf_rulesD(8)[OF assms(1)] cached_size_irrelevant)
next
  case (ListPlayers m)
  then show ?thesis using assms ListPlayersResponse_written[OF assms(1), of m] by (cases "ListPlayersResponse_ByteSizeLong pb m") simp
next
  case (KickPlayer m)
  then have "KickPlayerResponse_wf m" "unknown_fields m = []" using assms(2) by simp_all
  then show ?thesis using KickPlayerResponse_written[OF assms(1)] KickPlayer
    by (simp add: protobuf_rulesD(8)[OF assms(1)] cached_size_irrelevant)
next
  case (ListLobbies m)
  then show ?thesis using assms ListLobbiesResponse_written[OF assms(1), of m] by (cases "ListLobbiesResponse_ByteSizeLong pb m") simp
qed

section \<open>Properties\<close>

text \<open>(C17) Responses on the wire.  Whatever the runtime library, as long as it keeps to its rules, a response whose presence
  bits are set writes the fields that the schema lists for it, announces exactly the number of bytes it writes, and a
  reader of the wire format gets exactly those fields back.\<close>

theorem responses_on_the_wire:
  assumes "protobuf_rules pb" "response_wf pb r"
  shows "case serialize_response pb r of (announced, bytes) \<Rightarrow>
     announced = length bytes \<and> bytes = encode (response_fields r) \<and> read_fields bytes = Some (response_fields r)"
  using serialized[OF assms] by (simp add: read_fields_encode)

text \<open>A library that keeps to the rules, with a stream that is always full.\<close>

definition protobuf_model :: protobuf where
  "protobuf_model = \<lparr>CheckHasBit = (\<lambda>bits mask. bits AND mask \<noteq> 0), BatchCheckHasBit = (\<lambda>bits mask. bits AND mask \<noteq> 0),
     SetHasBit = (\<lambda>bits mask. bits OR mask), CheckHasBitForRepeated = (\<lambda>bits mask. bits AND mask \<noteq> 0),
     SetHasBitForRepeated = (\<lambda>bits mask. bits OR mask), space = (\<lambda>_. 0),
     WriteStringMaybeAliasedOutline = (\<lambda>f s target. target @ field_bytes (unat f, Delimited s)),
     InternalWriteMessage = (\<lambda>f body n target. body (target @ varint (8 * unat f + 2) @ varint n)),
     InternalSerializeUnknownFieldsToArray = (\<lambda>u target. target @ u),
     MaybeComputeUnknownFieldsSize = (\<lambda>n u. n + length u)\<rparr>"


lemmas message_ops = protobuf_model_def ListPlayersResponse_add_players_def ListPlayersResponse_ctor_def PlayerInfo_ctor_def
  PlayerInfo_set_id_def PlayerInfo_set_name_def PlayerInfo_set_lobbyindex_def

lemma protobuf_model_rules: "protobuf_rules protobuf_model"
proof -
  have "(bits OR k) AND k = k" for bits k :: uint32 by (rule bit_word_eqI) (auto simp: bit_simps)
  then show ?thesis by (simp add: protobuf_rules_def protobuf_model_def)
qed

theorem responses_on_the_wire_witness:
  "let r = ListPlayers (ListPlayersResponse_add_players protobuf_model
       (\<lambda>p. PlayerInfo_set_lobbyindex protobuf_model (-1) (PlayerInfo_set_name protobuf_model [65, 66]
         (PlayerInfo_set_id protobuf_model 7 p))) ListPlayersResponse_ctor) in
   case serialize_response protobuf_model r of (announced, bytes) \<Rightarrow>
     announced = length bytes \<and> announced = 19 \<and> read_fields bytes = Some (response_fields r)"
proof -
  let ?r = "ListPlayers (ListPlayersResponse_add_players protobuf_model
       (\<lambda>p. PlayerInfo_set_lobbyindex protobuf_model (-1) (PlayerInfo_set_name protobuf_model [65, 66]
         (PlayerInfo_set_id protobuf_model 7 p))) ListPlayersResponse_ctor)"
  let ?p = "PlayerInfo_set_lobbyindex protobuf_model (-1) (PlayerInfo_set_name protobuf_model [65, 66]
         (PlayerInfo_set_id protobuf_model 7 PlayerInfo_ctor))"
  have "unat (- 1 :: uint64) = 18446744073709551615" by (simp add: unsigned_minus_1_eq_mask mask_eq_exp_minus_1)
  then have "PlayerInfo_fields ?p = [(1, Varint 7), (2, Delimited [65, 66]), (3, Varint 18446744073709551615)]"
    by (simp add: PlayerInfo_fields_def message_ops int_field_def uint_field_def string_field_def)
  then have l: "length (encode (PlayerInfo_fields ?p)) = 17" by (simp add: varint.simps)
  have ps: "ListPlayersResponse_players (ListPlayersResponse_add_players protobuf_model
      (\<lambda>p. PlayerInfo_set_lobbyindex protobuf_model (-1) (PlayerInfo_set_name protobuf_model [65, 66]
         (PlayerInfo_set_id protobuf_model 7 p))) ListPlayersResponse_ctor) = [?p]"
    by (simp add: ListPlayersResponse_add_players_def ListPlayersResponse_ctor_def)
  have "length (encode (response_fields ?r)) = 19" using l by (simp add: ListPlayersResponse_fields_def ps varint_small)
  moreover have "response_wf protobuf_model ?r" using l
    by (simp add: ListPlayersResponse_wf_def ps) (simp add: PlayerInfo_wf_def message_ops)
  note wf = this
  ultimately show ?thesis using responses_on_the_wire[OF protobuf_model_rules wf] by (auto simp: Let_def split: prod.splits)
qed

end
