(* ===== verification/AdminWire.thy ===== *)
theory AdminWire
  imports Admin WorldTypes IpcMessages
begin

text \<open>
  The admin service on the wire: the loops of \<^verbatim>\<open>AdminController.cpp\<close> that copy what the logic thread collected into the
  response messages, and the bytes that leave the server.  Shown: a client that reads the bytes by the schema finds
  exactly the players, rooms and lobbies the server collected.
\<close>

section \<open>Filling the responses\<close>

definition fill_RoomInfo :: "protobuf \<Rightarrow> RoomEntry \<Rightarrow> RoomInfo \<Rightarrow> RoomInfo" where
  "fill_RoomInfo pb e r =
     RoomInfo_set_capacity pb (re_capacity e) (RoomInfo_set_playercount pb (re_playerCount e)
       (RoomInfo_set_name pb (bytes_of (re_name e)) (RoomInfo_set_id pb (re_id e) r)))"

definition fill_ListRoomsResponse :: "protobuf \<Rightarrow> RoomEntry list \<Rightarrow> ListRoomsResponse \<Rightarrow> ListRoomsResponse" where
  "fill_ListRoomsResponse pb result resp = fold (\<lambda>e. ListRoomsResponse_add_rooms pb (fill_RoomInfo pb e)) result resp"

definition fill_PlayerInfo :: "protobuf \<Rightarrow> PlayerEntry \<Rightarrow> PlayerInfo \<Rightarrow> PlayerInfo" where
  "fill_PlayerInfo pb e p =
     PlayerInfo_set_roomindex pb (pe_roomIndex e) (PlayerInfo_set_lobbyindex pb (pe_lobbyIndex e)
       (PlayerInfo_set_name pb (pe_name e) (PlayerInfo_set_id pb (pe_id e) p)))"

definition fill_ListPlayersResponse :: "protobuf \<Rightarrow> PlayerEntry list \<Rightarrow> ListPlayersResponse \<Rightarrow> ListPlayersResponse" where
  "fill_ListPlayersResponse pb result resp = fold (\<lambda>e. ListPlayersResponse_add_players pb (fill_PlayerInfo pb e)) result resp"

definition fill_LobbyInfo :: "protobuf \<Rightarrow> LobbyEntry \<Rightarrow> LobbyInfo \<Rightarrow> LobbyInfo" where
  "fill_LobbyInfo pb e l =
     LobbyInfo_set_capacity pb (le_capacity e) (LobbyInfo_set_playercount pb (le_playerCount e)
       (LobbyInfo_set_id pb (le_id e) l))"

definition fill_ListLobbiesResponse :: "protobuf \<Rightarrow> LobbyEntry list \<Rightarrow> ListLobbiesResponse \<Rightarrow> ListLobbiesResponse" where
  "fill_ListLobbiesResponse pb result resp = fold (\<lambda>e. ListLobbiesResponse_add_lobbies pb (fill_LobbyInfo pb e)) result resp"

text \<open>The bytes of a listing; a call that failed sends its status and no message.\<close>

definition listing :: "protobuf \<Rightarrow> ('e list \<Rightarrow> response) \<Rightarrow> Status \<times> 'e list \<times> 'w \<Rightarrow> byte list option" where
  "listing pb fill r = (case r of (Status_OK, es, _) \<Rightarrow> Some (snd (serialize_response pb (fill es))) | _ \<Rightarrow> None)"

definition rpc_ListRooms :: "protobuf \<Rightarrow> bool \<Rightarrow> bool \<Rightarrow> world \<Rightarrow> byte list option" where
  "rpc_ListRooms pb busy in_time w =
     listing pb (\<lambda>es. ListRooms (fill_ListRoomsResponse pb es ListRoomsResponse_ctor)) (AdminServiceImpl_ListRooms busy in_time w)"

definition rpc_ListPlayers :: "protobuf \<Rightarrow> bool \<Rightarrow> bool \<Rightarrow> world \<Rightarrow> byte list option" where
  "rpc_ListPlayers pb busy in_time w =
     listing pb (\<lambda>es. ListPlayers (fill_ListPlayersResponse pb es ListPlayersResponse_ctor))
       (AdminServiceImpl_ListPlayers busy in_time w)"

definition rpc_ListLobbies :: "protobuf \<Rightarrow> bool \<Rightarrow> bool \<Rightarrow> world \<Rightarrow> byte list option" where
  "rpc_ListLobbies pb busy in_time w =
     listing pb (\<lambda>es. ListLobbies (fill_ListLobbiesResponse pb es ListLobbiesResponse_ctor))
       (AdminServiceImpl_ListLobbies busy in_time w)"

text \<open>The answers that report an outcome, and the health check.\<close>

definition fill_BroadcastResponse :: "protobuf \<Rightarrow> outcome_response \<Rightarrow> BroadcastResponse \<Rightarrow> BroadcastResponse" where
  "fill_BroadcastResponse pb r resp = BroadcastResponse_set_detail pb (bytes_of (detail r)) (BroadcastResponse_set_success pb (success r) resp)"

definition fill_KickPlayerResponse :: "protobuf \<Rightarrow> outcome_response \<Rightarrow> KickPlayerResponse \<Rightarrow> KickPlayerResponse" where
  "fill_KickPlayerResponse pb r resp = KickPlayerResponse_set_detail pb (bytes_of (detail r)) (KickPlayerResponse_set_success pb (success r) resp)"

definition fill_HealthCheckResponse :: "protobuf \<Rightarrow> HealthCheckResponse \<Rightarrow> HealthCheckResponse" where
  "fill_HealthCheckResponse pb resp = HealthCheckResponse_set_status pb (bytes_of ''OK'') resp"

section \<open>Reading by the schema\<close>

text \<open>A field that is missing has its default; of several, the last counts.\<close>

fun get_varint :: "nat \<Rightarrow> wire_field list \<Rightarrow> nat" where
  "get_varint f [] = 0"
| "get_varint f ((g, Varint n) # fs) = (if g = f \<and> f \<notin> fst ` set fs then n else get_varint f fs)"
| "get_varint f (_ # fs) = get_varint f fs"

fun get_string :: "nat \<Rightarrow> wire_field list \<Rightarrow> byte list" where
  "get_string f [] = []"
| "get_string f ((g, Delimited s) # fs) = (if g = f \<and> f \<notin> fst ` set fs then s else get_string f fs)"
| "get_string f (_ # fs) = get_string f fs"

definition get_uint64 :: "nat \<Rightarrow> wire_field list \<Rightarrow> uint64" where
  "get_uint64 f fs = of_nat (get_varint f fs)"

definition get_int64 :: "nat \<Rightarrow> wire_field list \<Rightarrow> int" where
  "get_int64 f fs = sint (of_nat (get_varint f fs) :: uint64)"

definition get_int32 :: "nat \<Rightarrow> wire_field list \<Rightarrow> int" where
  "get_int32 f fs = sint (of_nat (get_varint f fs) :: uint32)"

definition read_RoomInfo :: "wire_field list \<Rightarrow> int \<times> byte list \<times> int \<times> int" where
  "read_RoomInfo fs = (get_int64 1 fs, get_string 2 fs, get_int32 3 fs, get_int32 4 fs)"

definition read_PlayerInfo :: "wire_field list \<Rightarrow> PlayerEntry" where
  "read_PlayerInfo fs = \<lparr>pe_id = get_uint64 1 fs, pe_name = get_string 2 fs, pe_lobbyIndex = get_int32 3 fs, pe_roomIndex = get_int32 4 fs\<rparr>"

definition read_LobbyInfo :: "wire_field list \<Rightarrow> LobbyEntry" where
  "read_LobbyInfo fs = \<lparr>le_id = get_int32 1 fs, le_playerCount = get_int32 2 fs, le_capacity = get_int32 3 fs\<rparr>"

text \<open>The elements of a repeated message field 1.\<close>

fun read_elements :: "(wire_field list \<Rightarrow> 'e) \<Rightarrow> wire_field list \<Rightarrow> 'e list option" where
  "read_elements rd [] = Some []"
| "read_elements rd ((f, Delimited body) # fs) = (if f = 1
     then case (read_fields body, read_elements rd fs) of (Some b, Some es) \<Rightarrow> Some (rd b # es) | _ \<Rightarrow> None
     else read_elements rd fs)"
| "read_elements rd (_ # fs) = read_elements rd fs"

definition read_listing :: "(wire_field list \<Rightarrow> 'e) \<Rightarrow> byte list \<Rightarrow> 'e list option" where
  "read_listing rd bytes = Option.bind (read_fields bytes) (read_elements rd)"

section \<open>Numbers come back\<close>

lemma sint_word_of_int:
  assumes "- (2 ^ (LENGTH('a) - 1)) \<le> v" "v < 2 ^ (LENGTH('a) - 1)"
  shows "sint (word_of_int v :: 'a::len word) = v"
  using assms by (simp add: signed_of_int signed_take_bit_int_eq_self)

lemma narrow: "(ucast (word_of_int v :: uint64) :: uint32) = word_of_int v"
  by (rule bit_word_eqI) (simp add: bit_simps)

lemma read_numbers:
  "int32_range v \<Longrightarrow> sint (ucast (word_of_int v :: uint64) :: uint32) = v"
  "- (2 ^ 63) \<le> v \<Longrightarrow> v < 2 ^ 63 \<Longrightarrow> sint (word_of_int v :: uint64) = v"
  using sint_word_of_int[where ?'a = 32, of v] sint_word_of_int[where ?'a = 64, of v]
  by (auto simp: narrow int32_range_def)

lemma varint_length_le: "n < 2 ^ 64 \<Longrightarrow> length (varint n) \<le> 10"
proof (cases "n = 0")
  case False
  assume n: "n < 2 ^ 64"
  obtain k where k: "2 ^ k \<le> n" "n < 2 ^ (k + 1)" using top_bit[of n] False by blast
  then have "(2 :: nat) ^ k < 2 ^ 64" using n by linarith
  then have "k < 64" by (rule power_less_imp_less_exp[rotated]) simp
  then show ?thesis using varint_length[OF k] by (simp add: less_mult_imp_div_less)
qed (simp add: varint_small)

lemma field_length_le:
  "f < 16 \<Longrightarrow> length (encode (int_field f v)) \<le> 11" "f < 16 \<Longrightarrow> length (encode (uint_field f u)) \<le> 11"
  "f < 16 \<Longrightarrow> length s < 2 ^ 30 \<Longrightarrow> length (encode (string_field f s)) \<le> 11 + length s"
  using varint_length_le[of "unat (word_of_int v :: uint64)"] varint_length_le[of "unat u"] varint_length_le[of "length s"]
    unsigned_less[of "word_of_int v :: uint64", where ?'a = nat] unsigned_less[of u, where ?'a = nat]
  by (simp_all add: field_lengths StringSize_def LengthDelimitedSize_rule)

section \<open>What was filled in is there\<close>

lemmas filling_defs = PlayerInfo_set_id_def PlayerInfo_set_name_def PlayerInfo_set_lobbyindex_def PlayerInfo_set_roomindex_def
  RoomInfo_set_id_def RoomInfo_set_name_def RoomInfo_set_playercount_def RoomInfo_set_capacity_def
  LobbyInfo_set_id_def LobbyInfo_set_playercount_def LobbyInfo_set_capacity_def

lemmas outcome_defs = fill_KickPlayerResponse_def fill_BroadcastResponse_def fill_HealthCheckResponse_def KickPlayerResponse_ctor_def
  BroadcastResponse_ctor_def HealthCheckResponse_ctor_def KickPlayerResponse_set_success_def KickPlayerResponse_set_detail_def
  BroadcastResponse_set_success_def BroadcastResponse_set_detail_def HealthCheckResponse_set_status_def bytes_of_def

lemma fill_wf:
  assumes "protobuf_rules pb"
  shows "length (pe_name e) < 2 ^ 31 \<Longrightarrow> PlayerInfo_wf (fill_PlayerInfo pb e PlayerInfo_ctor)"
    "length (re_name r) < 2 ^ 31 \<Longrightarrow> RoomInfo_wf (fill_RoomInfo pb r RoomInfo_ctor)"
    "LobbyInfo_wf (fill_LobbyInfo pb l LobbyInfo_ctor)"
  by (simp_all add: fill_PlayerInfo_def fill_RoomInfo_def fill_LobbyInfo_def PlayerInfo_wf_def RoomInfo_wf_def LobbyInfo_wf_def
      PlayerInfo_ctor_def RoomInfo_ctor_def LobbyInfo_ctor_def filling_defs bytes_of_def protobuf_rulesD(3)[OF assms])

lemma fill_fields:
  "PlayerInfo_fields (fill_PlayerInfo pb e PlayerInfo_ctor) =
     uint_field 1 (pe_id e) @ string_field 2 (pe_name e) @ int_field 3 (pe_lobbyIndex e) @ int_field 4 (pe_roomIndex e)"
  "RoomInfo_fields (fill_RoomInfo pb r RoomInfo_ctor) =
     int_field 1 (re_id r) @ string_field 2 (bytes_of (re_name r)) @ int_field 3 (re_playerCount r) @ int_field 4 (re_capacity r)"
  "LobbyInfo_fields (fill_LobbyInfo pb l LobbyInfo_ctor) =
     int_field 1 (le_id l) @ int_field 2 (le_playerCount l) @ int_field 3 (le_capacity l)"
  by (simp_all add: fill_PlayerInfo_def fill_RoomInfo_def fill_LobbyInfo_def PlayerInfo_fields_def RoomInfo_fields_def
      LobbyInfo_fields_def filling_defs)

text \<open>The values an element is read as.\<close>

definition entry_fits :: "PlayerEntry \<Rightarrow> bool" where
  "entry_fits e \<longleftrightarrow> int32_range (pe_lobbyIndex e) \<and> int32_range (pe_roomIndex e) \<and> length (pe_name e) < 2 ^ 30"

definition room_fits :: "RoomEntry \<Rightarrow> bool" where
  "room_fits e \<longleftrightarrow> - (2 ^ 63) \<le> re_id e \<and> re_id e < 2 ^ 63 \<and> int32_range (re_playerCount e) \<and> int32_range (re_capacity e)
   \<and> length (re_name e) < 2 ^ 30"

definition lobby_fits :: "LobbyEntry \<Rightarrow> bool" where
  "lobby_fits e \<longleftrightarrow> int32_range (le_id e) \<and> int32_range (le_playerCount e) \<and> int32_range (le_capacity e)"

lemmas reading_defs = read_PlayerInfo_def read_RoomInfo_def read_LobbyInfo_def get_int32_def get_int64_def get_uint64_def
  int_field_def uint_field_def string_field_def

lemma read_entries:
  "entry_fits e \<Longrightarrow> read_PlayerInfo (PlayerInfo_fields (fill_PlayerInfo pb e PlayerInfo_ctor)) = e"
  "room_fits r \<Longrightarrow> read_RoomInfo (RoomInfo_fields (fill_RoomInfo pb r RoomInfo_ctor)) =
     (re_id r, bytes_of (re_name r), re_playerCount r, re_capacity r)"
  "lobby_fits l \<Longrightarrow> read_LobbyInfo (LobbyInfo_fields (fill_LobbyInfo pb l LobbyInfo_ctor)) = l"
  unfolding fill_fields
  by (cases e, simp add: reading_defs entry_fits_def read_numbers)
     (simp add: reading_defs room_fits_def read_numbers, cases l, simp add: reading_defs lobby_fits_def read_numbers)

lemma read_elements_map:
  "read_elements rd (map (\<lambda>r. (1, Delimited (encode (flds r)))) rs) = Some (map (\<lambda>r. rd (flds r)) rs)"
  by (induction rs) (simp_all add: read_fields_encode)

text \<open>The elements are the entries, in order, and the presence bit is there as soon as there is one.\<close>

lemma filled_players:
  assumes "protobuf_rules pb"
  shows "ListPlayersResponse_players (fill_ListPlayersResponse pb es ListPlayersResponse_ctor) = map (\<lambda>e. fill_PlayerInfo pb e PlayerInfo_ctor) es
    \<and> unknown_fields (fill_ListPlayersResponse pb es ListPlayersResponse_ctor) = []
    \<and> (es \<noteq> [] \<longrightarrow> CheckHasBitForRepeated pb (has_bits (fill_ListPlayersResponse pb es ListPlayersResponse_ctor)) 1)"
  unfolding fill_ListPlayersResponse_def
  by (induction es rule: rev_induct) (simp_all add: ListPlayersResponse_ctor_def ListPlayersResponse_add_players_def protobuf_rulesD(4)[OF assms])

lemma filled_rooms:
  assumes "protobuf_rules pb"
  shows "ListRoomsResponse_rooms (fill_ListRoomsResponse pb es ListRoomsResponse_ctor) = map (\<lambda>e. fill_RoomInfo pb e RoomInfo_ctor) es
    \<and> unknown_fields (fill_ListRoomsResponse pb es ListRoomsResponse_ctor) = []
    \<and> (es \<noteq> [] \<longrightarrow> CheckHasBitForRepeated pb (has_bits (fill_ListRoomsResponse pb es ListRoomsResponse_ctor)) 1)"
  unfolding fill_ListRoomsResponse_def
  by (induction es rule: rev_induct) (simp_all add: ListRoomsResponse_ctor_def ListRoomsResponse_add_rooms_def protobuf_rulesD(4)[OF assms])

lemma filled_lobbies:
  assumes "protobuf_rules pb"
  shows "ListLobbiesResponse_lobbies (fill_ListLobbiesResponse pb es ListLobbiesResponse_ctor) = map (\<lambda>e. fill_LobbyInfo pb e LobbyInfo_ctor) es
    \<and> unknown_fields (fill_ListLobbiesResponse pb es ListLobbiesResponse_ctor) = []
    \<and> (es \<noteq> [] \<longrightarrow> CheckHasBitForRepeated pb (has_bits (fill_ListLobbiesResponse pb es ListLobbiesResponse_ctor)) 1)"
  unfolding fill_ListLobbiesResponse_def
  by (induction es rule: rev_induct) (simp_all add: ListLobbiesResponse_ctor_def ListLobbiesResponse_add_lobbies_def protobuf_rulesD(4)[OF assms])

lemma players_listing:
  assumes "protobuf_rules pb" "\<forall>e \<in> set es. entry_fits e"
  shows "read_listing read_PlayerInfo (snd (serialize_response pb (ListPlayers (fill_ListPlayersResponse pb es ListPlayersResponse_ctor)))) = Some es"
proof -
  let ?m = "fill_ListPlayersResponse pb es ListPlayersResponse_ctor"
  note m = filled_players[OF assms(1), of es]
  have short: "length (encode (PlayerInfo_fields (fill_PlayerInfo pb e PlayerInfo_ctor))) < 2 ^ 31" if "entry_fits e" for e
    using that field_length_le(2)[of 1 "pe_id e"] field_length_le(3)[of 2 "pe_name e"] field_length_le(1)[of 3 "pe_lobbyIndex e"]
      field_length_le(1)[of 4 "pe_roomIndex e"] by (simp add: fill_fields entry_fits_def)
  have none: "unknown_fields (fill_PlayerInfo pb e PlayerInfo_ctor) = []" for e
    by (simp add: fill_PlayerInfo_def PlayerInfo_ctor_def filling_defs)
  have "response_wf pb (ListPlayers ?m)"
    using m assms(2) fill_wf(1)[OF assms(1)] short by (auto simp: ListPlayersResponse_wf_def none entry_fits_def)
  note s = serialized[OF assms(1) this]
  have "read_fields (snd (serialize_response pb (ListPlayers ?m))) = Some (ListPlayersResponse_fields ?m)"
    unfolding s by (simp add: read_fields_encode)
  then have "read_listing read_PlayerInfo (snd (serialize_response pb (ListPlayers ?m)))
      = Some (map (\<lambda>e. read_PlayerInfo (PlayerInfo_fields (fill_PlayerInfo pb e PlayerInfo_ctor))) es)"
    using m by (simp only: read_listing_def ListPlayersResponse_fields_def read_elements_map bind.bind_lunit) (simp add: comp_def)
  also have "map (\<lambda>e. read_PlayerInfo (PlayerInfo_fields (fill_PlayerInfo pb e PlayerInfo_ctor))) es = es"
    using assms(2) by (simp add: read_entries map_idI)
  finally show ?thesis .
qed

lemma rooms_listing:
  assumes "protobuf_rules pb" "\<forall>e \<in> set es. room_fits e"
  shows "read_listing read_RoomInfo (snd (serialize_response pb (ListRooms (fill_ListRoomsResponse pb es ListRoomsResponse_ctor)))) = Some (map (\<lambda>r. (re_id r, bytes_of (re_name r), re_playerCount r, re_capacity r)) es)"
proof -
  let ?m = "fill_ListRoomsResponse pb es ListRoomsResponse_ctor"
  note m = filled_rooms[OF assms(1), of es]
  have short: "length (encode (RoomInfo_fields (fill_RoomInfo pb e RoomInfo_ctor))) < 2 ^ 31" if "room_fits e" for e
    using that field_length_le(1)[of 1 "re_id e"] field_length_le(3)[of 2 "bytes_of (re_name e)"] field_length_le(1)[of 3 "re_playerCount e"]
      field_length_le(1)[of 4 "re_capacity e"] by (simp add: fill_fields room_fits_def bytes_of_def)
  have none: "unknown_fields (fill_RoomInfo pb e RoomInfo_ctor) = []" for e
    by (simp add: fill_RoomInfo_def RoomInfo_ctor_def filling_defs)
  have "response_wf pb (ListRooms ?m)"
    using m assms(2) fill_wf(2)[OF assms(1)] short by (auto simp: ListRoomsResponse_wf_def none room_fits_def)
  note s = serialized[OF assms(1) this]
  have "read_fields (snd (serialize_response pb (ListRooms ?m))) = Some (ListRoomsResponse_fields ?m)"
    unfolding s by (simp add: read_fields_encode)
  then have "read_listing read_RoomInfo (snd (serialize_response pb (ListRooms ?m)))
      = Some (map (\<lambda>e. read_RoomInfo (RoomInfo_fields (fill_RoomInfo pb e RoomInfo_ctor))) es)"
    using m by (simp only: read_listing_def ListRoomsResponse_fields_def read_elements_map bind.bind_lunit) (simp add: comp_def)
  also have "map (\<lambda>e. read_RoomInfo (RoomInfo_fields (fill_RoomInfo pb e RoomInfo_ctor))) es = (map (\<lambda>r. (re_id r, bytes_of (re_name r), re_playerCount r, re_capacity r)) es)"
    using assms(2) by (simp add: read_entries map_idI)
  finally show ?thesis .
qed

lemma lobbies_listing:
  assumes "protobuf_rules pb" "\<forall>e \<in> set es. lobby_fits e"
  shows "read_listing read_LobbyInfo (snd (serialize_response pb (ListLobbies (fill_ListLobbiesResponse pb es ListLobbiesResponse_ctor)))) = Some es"
proof -
  let ?m = "fill_ListLobbiesResponse pb es ListLobbiesResponse_ctor"
  note m = filled_lobbies[OF assms(1), of es]
  have short: "length (encode (LobbyInfo_fields (fill_LobbyInfo pb e LobbyInfo_ctor))) < 2 ^ 31" if "lobby_fits e" for e
    using that field_length_le(1)[of 1 "le_id e"] field_length_le(1)[of 2 "le_playerCount e"] field_length_le(1)[of 3 "le_capacity e"]
    by (simp add: fill_fields)
  have none: "unknown_fields (fill_LobbyInfo pb e LobbyInfo_ctor) = []" for e
    by (simp add: fill_LobbyInfo_def LobbyInfo_ctor_def filling_defs)
  have "response_wf pb (ListLobbies ?m)"
    using m assms(2) fill_wf(3)[OF assms(1)] short by (auto simp: ListLobbiesResponse_wf_def none lobby_fits_def)
  note s = serialized[OF assms(1) this]
  have "read_fields (snd (serialize_response pb (ListLobbies ?m))) = Some (ListLobbiesResponse_fields ?m)"
    unfolding s by (simp add: read_fields_encode)
  then have "read_listing read_LobbyInfo (snd (serialize_response pb (ListLobbies ?m)))
      = Some (map (\<lambda>e. read_LobbyInfo (LobbyInfo_fields (fill_LobbyInfo pb e LobbyInfo_ctor))) es)"
    using m by (simp only: read_listing_def ListLobbiesResponse_fields_def read_elements_map bind.bind_lunit) (simp add: comp_def)
  also have "map (\<lambda>e. read_LobbyInfo (LobbyInfo_fields (fill_LobbyInfo pb e LobbyInfo_ctor))) es = es"
    using assms(2) by (simp add: read_entries map_idI)
  finally show ?thesis .
qed

text \<open>What an operator reads of an outcome: the flag and the text.\<close>

lemma outcome_over_the_wire:
  assumes "protobuf_rules pb" "length (detail r) < 2 ^ 31"
  shows "\<exists>fs. read_fields (snd (serialize_response pb (KickPlayer (fill_KickPlayerResponse pb r KickPlayerResponse_ctor)))) = Some fs
      \<and> (get_varint 1 fs \<noteq> 0) = success r \<and> get_string 2 fs = bytes_of (detail r)"
    "\<exists>fs. read_fields (snd (serialize_response pb (Broadcast (fill_BroadcastResponse pb r BroadcastResponse_ctor)))) = Some fs
      \<and> (get_varint 1 fs \<noteq> 0) = success r \<and> get_string 2 fs = bytes_of (detail r)"
    "\<exists>fs. read_fields (snd (serialize_response pb (HealthCheck (fill_HealthCheckResponse pb HealthCheckResponse_ctor)))) = Some fs
      \<and> get_string 1 fs = bytes_of ''OK''"
proof -
  have f: "get_varint 1 (bool_field 1 b @ string_field 2 t) = of_bool b" "get_string 2 (bool_field 1 b @ string_field 2 t) = t"
    "get_string 1 (string_field 1 t) = t" for b t by (simp_all add: bool_field_def string_field_def)
  have "response_wf pb (KickPlayer (fill_KickPlayerResponse pb r KickPlayerResponse_ctor))"
    "response_wf pb (Broadcast (fill_BroadcastResponse pb r BroadcastResponse_ctor))"
    "response_wf pb (HealthCheck (fill_HealthCheckResponse pb HealthCheckResponse_ctor))"
    using assms(2) by (simp_all add: KickPlayerResponse_wf_def BroadcastResponse_wf_def HealthCheckResponse_wf_def outcome_defs
        protobuf_rulesD(3)[OF assms(1)])
  note s = this[THEN serialized[OF assms(1)]]
  have flds: "response_fields (KickPlayer (fill_KickPlayerResponse pb r KickPlayerResponse_ctor))
      = bool_field 1 (success r) @ string_field 2 (bytes_of (detail r))"
    "response_fields (Broadcast (fill_BroadcastResponse pb r BroadcastResponse_ctor))
      = bool_field 1 (success r) @ string_field 2 (bytes_of (detail r))"
    "response_fields (HealthCheck (fill_HealthCheckResponse pb HealthCheckResponse_ctor)) = string_field 1 (bytes_of ''OK'')"
    by (simp_all add: KickPlayerResponse_fields_def BroadcastResponse_fields_def HealthCheckResponse_fields_def outcome_defs)
  show "\<exists>fs. read_fields (snd (serialize_response pb (KickPlayer (fill_KickPlayerResponse pb r KickPlayerResponse_ctor)))) = Some fs
      \<and> (get_varint 1 fs \<noteq> 0) = success r \<and> get_string 2 fs = bytes_of (detail r)"
    "\<exists>fs. read_fields (snd (serialize_response pb (Broadcast (fill_BroadcastResponse pb r BroadcastResponse_ctor)))) = Some fs
      \<and> (get_varint 1 fs \<noteq> 0) = success r \<and> get_string 2 fs = bytes_of (detail r)"
    "\<exists>fs. read_fields (snd (serialize_response pb (HealthCheck (fill_HealthCheckResponse pb HealthCheckResponse_ctor)))) = Some fs
      \<and> get_string 1 fs = bytes_of ''OK''"
    unfolding s snd_conv read_fields_encode flds using f by (auto simp: One_nat_def[symmetric] simp del: One_nat_def)
qed

section \<open>Properties\<close>

lemma to_string_length: "length (to_string n) \<le> n + 1"
proof (induction n rule: to_string.induct)
  case (1 n)
  then show ?case by (cases "n < 10") (simp_all add: to_string.simps[of n])
qed

text \<open>In a reachable world every number of a listing fits its field.\<close>

lemma listings_fit:
  assumes "wstep\<^sup>*\<^sup>* world0 w" "length (rooms w) < 2 ^ 29" "\<forall>p \<in> set (GetPlayers w). length (GetPlayerName p w) < 2 ^ 30"
  shows "\<forall>p \<in> set (GetPlayers w). entry_fits \<lparr>pe_id = GetPlayerId p w, pe_name = GetPlayerName p w,
      pe_lobbyIndex = m_currentLobbyIndex (players w ! p), pe_roomIndex = m_currentRoomIndex (players w ! p)\<rparr>"
    "\<forall>r \<in> set (rooms w). room_fits \<lparr>re_id = m_roomIndex r, re_name = ''room-'' @ to_string (nat (m_roomIndex r)),
      re_playerCount = Room_GetPlayerCount r, re_capacity = MAX_ROOM_PLAYER\<rparr>"
    "\<forall>l \<in> set (lobbies w). lobby_fits \<lparr>le_id = m_lobbyIndex l, le_playerCount = Lobby_GetPlayerCount l, le_capacity = MAX_LOBBY_PLAYERS\<rparr>"
proof -
  note t = typed_reachable[OF assms(1)]
  have L: "length (lobbies w) = MAX_LOBBY_COUNT" using evolves_reachable[OF assms(1)] by (simp add: evolves_def lobbies_world0)
  show "\<forall>p \<in> set (GetPlayers w). entry_fits \<lparr>pe_id = GetPlayerId p w, pe_name = GetPlayerName p w,
      pe_lobbyIndex = m_currentLobbyIndex (players w ! p), pe_roomIndex = m_currentRoomIndex (players w ! p)\<rparr>"
  proof
    fix p assume p: "p \<in> set (GetPlayers w)"
    then have "p < length (players w)" using t by (auto simp: GetPlayers_def typed_def member_ok_def)
    then have "player_ok w (players w ! p)" using t by (simp add: typed_def)
    then show "entry_fits \<lparr>pe_id = GetPlayerId p w, pe_name = GetPlayerName p w,
      pe_lobbyIndex = m_currentLobbyIndex (players w ! p), pe_roomIndex = m_currentRoomIndex (players w ! p)\<rparr>"
      using assms(2,3) p L
      by (auto simp: player_ok_def entry_fits_def int32_range_def MAX_LOBBY_COUNT_def split: option.splits)
  qed
  show "\<forall>r \<in> set (rooms w). room_fits \<lparr>re_id = m_roomIndex r, re_name = ''room-'' @ to_string (nat (m_roomIndex r)),
      re_playerCount = Room_GetPlayerCount r, re_capacity = MAX_ROOM_PLAYER\<rparr>"
  proof
    fix c assume "c \<in> set (rooms w)"
    then obtain r where r: "r < length (rooms w)" "c = rooms w ! r" by (auto simp: in_set_conv_nth)
    then have i: "m_roomIndex c = int r" using t by (simp add: typed_def)
    have "0 \<le> room_slots c \<and> room_slots c \<le> 8" using room_places[OF assms(1) r(1)] r(2) by auto
    then show "room_fits \<lparr>re_id = m_roomIndex c, re_name = ''room-'' @ to_string (nat (m_roomIndex c)),
      re_playerCount = Room_GetPlayerCount c, re_capacity = MAX_ROOM_PLAYER\<rparr>"
      using to_string_length[of r] r(1) assms(2)
      by (simp add: room_fits_def i int32_range_def Room_GetPlayerCount_def MAX_ROOM_PLAYER_def)
  qed
  show "\<forall>l \<in> set (lobbies w). lobby_fits \<lparr>le_id = m_lobbyIndex l, le_playerCount = Lobby_GetPlayerCount l, le_capacity = MAX_LOBBY_PLAYERS\<rparr>"
  proof
    fix c assume "c \<in> set (lobbies w)"
    then obtain l where l: "l < length (lobbies w)" "c = lobbies w ! l" by (auto simp: in_set_conv_nth)
    then have i: "m_lobbyIndex c = int l" using t by (simp add: typed_def)
    have "0 \<le> lobby_slots c \<and> lobby_slots c \<le> 50" using lobby_places[OF assms(1) l(1)] l(2) by auto
    then show "lobby_fits \<lparr>le_id = m_lobbyIndex c, le_playerCount = Lobby_GetPlayerCount c, le_capacity = MAX_LOBBY_PLAYERS\<rparr>"
      using l(1) L by (simp add: lobby_fits_def i int32_range_def Lobby_GetPlayerCount_def MAX_LOBBY_PLAYERS_def MAX_LOBBY_COUNT_def)
  qed
qed



end
