(* ===== verification/Diagnostics.thy ===== *)
theory Diagnostics
  imports Prelude "HOL-Library.Extended_Nat"
begin

text \<open>
  \<^verbatim>\<open>DhUtil/Logger.{h,cpp}\<close>, the \<^verbatim>\<open>CRASH\<close> macro of \<^verbatim>\<open>DhUtil/Macro.h\<close> with its watchdog, and the stand-alone experiment
  \<^verbatim>\<open>watchdog_test\<close>.  The logging library is a parameter: which files its sinks can open, whether it accepts the logger's
  name, and how long its calls block, in milliseconds, possibly for ever.  Of a log line the model keeps the level
  and the arguments.  Shown: which file a process logs to, and how long a crash can take.
\<close>

section \<open>The logger\<close>

datatype level = trace | debug | info | warn | err | critical

fun severity :: "level \<Rightarrow> nat" where
  "severity trace = 0" | "severity debug = 1" | "severity info = 2" | "severity warn = 3" | "severity err = 4"
| "severity critical = 5"

record logger =
  lg_name :: string
  lg_file :: string
  lg_max_size :: nat
  lg_max_files :: nat
  lg_queue :: nat
  lg_level :: level
  lg_flush_on :: level
  lg_registered :: bool

record spdlog =
  file_opens :: "string \<Rightarrow> bool"
  registers :: "string \<Rightarrow> bool"

text \<open>The function-local statics, and what was handed to the library: log lines and requests to flush.\<close>

record logging =
  LogFileNameRef :: string
  LoggerCreatedFlag :: bool
  the_logger :: "logger option"
  flush_every :: "nat option"
  entries :: "(level \<times> string list) list"
  flushes :: nat

definition logging0 :: logging where
  "logging0 = \<lparr>LogFileNameRef = ''dhnet-server.log'', LoggerCreatedFlag = False, the_logger = None, flush_every = None,
     entries = [], flushes = 0\<rparr>"

text \<open>A sink that cannot open its file throws; a logger that cannot be registered is used all the same.\<close>

definition CreateLogger :: "spdlog \<Rightarrow> logging \<Rightarrow> string + logger \<times> logging" where
  "CreateLogger sp s =
     (let file = ''logs/'' @ LogFileNameRef s in
      if \<not> file_opens sp file then Inl ''spdlog_ex''
      else Inr (\<lparr>lg_name = ''dhnet'', lg_file = file, lg_max_size = 10 * 1024 * 1024, lg_max_files = 5, lg_queue = 8192,
                 lg_level = info, lg_flush_on = warn, lg_registered = registers sp ''dhnet''\<rparr>,
                s\<lparr>flush_every := Some 3000, LoggerCreatedFlag := True\<rparr>))"

text \<open>The static is initialized by the first call that gets through; a call that throws leaves it to the next one.\<close>

definition Logger_Get :: "spdlog \<Rightarrow> logging \<Rightarrow> string + logger \<times> logging" where
  "Logger_Get sp s = (case the_logger s of
       Some lg \<Rightarrow> Inr (lg, s)
     | None \<Rightarrow> (case CreateLogger sp s of Inl e \<Rightarrow> Inl e | Inr (lg, s) \<Rightarrow> Inr (lg, s\<lparr>the_logger := Some lg\<rparr>)))"

definition LOG :: "spdlog \<Rightarrow> level \<Rightarrow> string list \<Rightarrow> logging \<Rightarrow> string + logging" where
  "LOG sp lv args s = (case Logger_Get sp s of
       Inl e \<Rightarrow> Inl e
     | Inr (lg, s) \<Rightarrow> Inr (if severity (lg_level lg) \<le> severity lv then s\<lparr>entries := entries s @ [(lv, args)]\<rparr> else s))"

definition LoggerShutdown :: "spdlog \<Rightarrow> logging \<Rightarrow> string + logging" where
  "LoggerShutdown sp s = (case Logger_Get sp s of Inl e \<Rightarrow> Inl e | Inr (lg, s) \<Rightarrow> Inr (s\<lparr>flushes := flushes s + 1\<rparr>))"

definition SetLogFileName :: "spdlog \<Rightarrow> string \<Rightarrow> logging \<Rightarrow> string + logging" where
  "SetLogFileName sp name s =
     (if LoggerCreatedFlag s then LOG sp warn [name, LogFileNameRef s] s else Inr (s\<lparr>LogFileNameRef := name\<rparr>))"

text \<open>A process as it uses the logger; an exception goes to the caller and changes nothing.\<close>

datatype log_call = SetName string | Log level "string list" | Shutdown

fun log_step :: "spdlog \<Rightarrow> log_call \<Rightarrow> logging \<Rightarrow> string + logging" where
  "log_step sp (SetName name) s = SetLogFileName sp name s"
| "log_step sp (Log lv args) s = LOG sp lv args s"
| "log_step sp Shutdown s = LoggerShutdown sp s"

fun log_run :: "spdlog \<Rightarrow> log_call list \<Rightarrow> logging \<Rightarrow> logging" where
  "log_run sp [] s = s"
| "log_run sp (c # cs) s = log_run sp cs (case log_step sp c s of Inl _ \<Rightarrow> s | Inr s' \<Rightarrow> s')"

section \<open>Crashing\<close>

text \<open>What happens to the calls of a crash: whether the watchdog thread could be started, how long the log call and the
  flush block, whether the log call throws.\<close>

record crash_env =
  thread_starts :: bool
  log_takes :: enat
  log_throws :: bool
  flush_takes :: enat

text \<open>When the exception leaves the macro, if it does, and when the process dies, counted from the entry.\<close>

type_synonym crash_end = "enat option \<times> enat"

definition OLD_CRASH :: "crash_env \<Rightarrow> crash_end" where
  "OLD_CRASH env = (if log_throws env then (Some (log_takes env), \<infinity>) else (None, log_takes env + flush_takes env))"

text \<open>The watchdog thread writes through the null pointer after its sleep, wherever the other thread is.\<close>

definition CRASH_macro :: "crash_env \<Rightarrow> crash_end" where
  "CRASH_macro env =
     (let dog = (if thread_starts env then 500 else \<infinity>);
          (escapes, dies) = (if log_throws env then (Some (log_takes env), \<infinity>) else (None, log_takes env + flush_takes env))
      in (if thread_starts env \<and> escapes \<noteq> None \<and> dog \<le> the escapes then None else escapes, min dog dies))"

text \<open>The experiment: after 300 milliseconds, in which another thread fills the queue, it crashes in the old or the new way.
  Nothing catches an exception, which therefore ends the process too.\<close>

datatype watchdog_end = Exit int | Dies enat

definition watchdog_main :: "string list \<Rightarrow> crash_env \<Rightarrow> watchdog_end" where
  "watchdog_main argv env =
     (if length argv < 2 then Exit 1
      else Dies (300 + (case if argv ! 1 = ''old'' then OLD_CRASH env else CRASH_macro env of
          (Some t, _) \<Rightarrow> t
        | (None, t) \<Rightarrow> t)))"

definition HangingSink_sleep :: enat where
  "HangingSink_sleep = 24 * 60 * 60 * 1000"

text \<open>The queue is full and its only reader has been asleep in the sink for \<open>d\<close> milliseconds: nothing is taken out of the
  queue before the reader wakes, and a log call on a full queue waits for that.\<close>

definition reader_asleep :: "enat \<Rightarrow> crash_env \<Rightarrow> bool" where
  "reader_asleep d env \<longleftrightarrow> \<not> log_throws env \<and> HangingSink_sleep \<le> d + log_takes env"

section \<open>Which file\<close>

lemma Logger_Get_ready: "the_logger s = Some lg \<Longrightarrow> Logger_Get sp s = Inr (lg, s)"
  by (simp add: Logger_Get_def)

fun is_SetName :: "log_call \<Rightarrow> bool" where
  "is_SetName (SetName n) = True" | "is_SetName _ = False"

text \<open>Once it is there, a logger stays, and every later attempt to rename its file is a warning in it.\<close>

lemma log_run_ready:
  assumes "the_logger s = Some lg" "LoggerCreatedFlag s" "lg_level lg = info"
  shows "the_logger (log_run sp cs s) = Some lg \<and> LogFileNameRef (log_run sp cs s) = LogFileNameRef s
    \<and> filter (\<lambda>e. fst e = warn) (entries (log_run sp cs s)) = filter (\<lambda>e. fst e = warn) (entries s)
      @ concat (map (\<lambda>c. case c of SetName n \<Rightarrow> [(warn, [n, LogFileNameRef s])] | Log lv as \<Rightarrow> if lv = warn then [(warn, as)] else []
          | Shutdown \<Rightarrow> []) cs)"
  using assms
proof (induction cs arbitrary: s)
  case (Cons c cs)
  then show ?case
    by (cases c) (auto simp: SetLogFileName_def LOG_def LoggerShutdown_def Logger_Get_ready)
qed simp

lemma log_run_append: "log_run sp (cs @ ds) s = log_run sp ds (log_run sp cs s)"
  by (induction cs arbitrary: s) simp_all

lemma log_run_names:
  "\<not> LoggerCreatedFlag s \<Longrightarrow> log_run sp (map SetName ns) s = s\<lparr>LogFileNameRef := last (LogFileNameRef s # ns)\<rparr>"
  by (induction ns arbitrary: s) (simp_all add: SetLogFileName_def)

lemma log_step_first:
  assumes "\<not> is_SetName c" "the_logger s = None" "file_opens sp (''logs/'' @ LogFileNameRef s)"
  shows "\<exists>s' lg. log_step sp c s = Inr s' \<and> the_logger s' = Some lg \<and> lg_file lg = ''logs/'' @ LogFileNameRef s \<and> lg_level lg = info
    \<and> LoggerCreatedFlag s' \<and> LogFileNameRef s' = LogFileNameRef s"
  using assms by (cases c) (simp_all add: LOG_def LoggerShutdown_def Logger_Get_def CreateLogger_def Let_def)

section \<open>Properties\<close>

text \<open>A process logs to one file.  Whatever a process does with the logger, its file is the one that was named last
  before the first log or flush call, the default if none was; nothing renames it afterwards, and every attempt to is a
  warning in that file, with the name that was asked for and the name that stays.\<close>

lemma log_file_fixed:
  assumes "\<not> is_SetName c" "file_opens sp (''logs/'' @ last (''dhnet-server.log'' # ns))"
  shows "let s = log_run sp (map SetName ns @ c # cs) logging0 in
     (\<exists>lg. the_logger s = Some lg \<and> lg_file lg = ''logs/'' @ last (''dhnet-server.log'' # ns))
   \<and> (\<forall>n. SetName n \<in> set cs \<longrightarrow> (warn, [n, last (''dhnet-server.log'' # ns)]) \<in> set (entries s))"
proof -
  let ?s = "logging0\<lparr>LogFileNameRef := last (''dhnet-server.log'' # ns)\<rparr>"
  obtain s' lg where f: "log_step sp c ?s = Inr s'" "the_logger s' = Some lg" "lg_file lg = ''logs/'' @ LogFileNameRef ?s"
    "lg_level lg = info" "LoggerCreatedFlag s'" "LogFileNameRef s' = LogFileNameRef ?s"
    using log_step_first[of c ?s sp] assms by (auto simp: logging0_def)
  have "log_run sp (map SetName ns) logging0 = ?s" using log_run_names[of logging0 sp ns] by (simp add: logging0_def)
  then have run: "log_run sp (map SetName ns @ c # cs) logging0 = log_run sp cs s'" using f(1) by (simp add: log_run_append)
  note r = log_run_ready[OF f(2,5,4), of sp cs]
  have "(warn, [n, LogFileNameRef ?s]) \<in> set (filter (\<lambda>e. fst e = warn) (entries (log_run sp cs s')))" if "SetName n \<in> set cs" for n
    using r f(6) that by force
  moreover have "set (filter P xs) \<subseteq> set xs" for P and xs :: "(level \<times> string list) list" by auto
  ultimately have "\<forall>n. SetName n \<in> set cs \<longrightarrow> (warn, [n, LogFileNameRef ?s]) \<in> set (entries (log_run sp cs s'))" by blast
  then show ?thesis using r f(3) run by (simp add: Let_def)
qed

lemma log_file_fixed_witness:
  "let s = log_run \<lparr>file_opens = (\<lambda>_. True), registers = (\<lambda>_. True)\<rparr>
       [SetName ''dhnet-client.log'', Log info [''connected''], SetName ''other.log''] logging0 in
   (\<exists>lg. the_logger s = Some lg \<and> lg_file lg = ''logs/dhnet-client.log'')
   \<and> (warn, [''other.log'', ''dhnet-client.log'']) \<in> set (entries s)"
  using log_file_fixed[of "Log info [''connected'']" "\<lparr>file_opens = (\<lambda>_. True), registers = (\<lambda>_. True)\<rparr>"
      "[''dhnet-client.log'']" "[SetName ''other.log'']"]
  by (simp add: Let_def del: log_run.simps)

text \<open>Crashing is fail-fast.  Once the watchdog thread could be started, the process is dead 500 milliseconds after it
  entered \<^verbatim>\<open>CRASH\<close>, however long the logger blocks and even if it throws; without the thread the macro is what it was
  before.  The experiment tells the two apart: with the logger's reader asleep in its sink, for up to a minute when the
  crash begins, the old macro leaves the process alive for more than 8 seconds, the new one kills it.\<close>

lemma crash_fail_fast:
  assumes "reader_asleep d stuck" "d \<le> 60000" "thread_starts stuck" "argv ! 1 \<noteq> ''old''" "length argv = 2"
  shows "(thread_starts env \<longrightarrow> snd (CRASH_macro env) \<le> 500) \<and> (\<not> thread_starts env \<longrightarrow> CRASH_macro env = OLD_CRASH env)
   \<and> watchdog_main argv stuck = Dies 800 \<and> (\<exists>t > 8000. watchdog_main [argv ! 0, ''old''] stuck = Dies t)"
proof -
  obtain dn where dn: "d = enat dn" "dn \<le> 60000" using assms(2) by (cases d) (auto simp: numeral_eq_enat)
  have "enat 86400000 \<le> enat dn + log_takes stuck"
    using assms(1) dn(1) by (simp add: reader_asleep_def HangingSink_sleep_def numeral_eq_enat one_enat_def)
  then have l: "enat 80000000 \<le> log_takes stuck" using dn(2) by (cases "log_takes stuck") auto
  then have "enat 80000000 \<le> log_takes stuck + flush_takes stuck" by (simp add: add_increasing2)
  then have "(500 :: enat) \<le> log_takes stuck + flush_takes stuck" "(8000 :: enat) < 300 + (log_takes stuck + flush_takes stuck)"
    by (cases "log_takes stuck + flush_takes stuck"; simp add: numeral_eq_enat)+
  then show ?thesis using assms
    by (auto simp: CRASH_macro_def OLD_CRASH_def watchdog_main_def reader_asleep_def Let_def min_def numeral_eq_enat split: if_splits)
qed

lemma crash_fail_fast_witness:
  "let stuck = \<lparr>thread_starts = True, log_takes = \<infinity>, log_throws = False, flush_takes = 0\<rparr> in
   watchdog_main [''test_watchdog.exe'', ''new''] stuck = Dies 800
   \<and> (\<exists>t > 8000. watchdog_main [''test_watchdog.exe'', ''old''] stuck = Dies t)"
proof -
  let ?e = "\<lparr>thread_starts = True, log_takes = \<infinity>, log_throws = False, flush_takes = 0\<rparr>"
  have "reader_asleep 300 ?e" "(300 :: enat) \<le> 60000" by (simp_all add: reader_asleep_def)
  then show ?thesis using crash_fail_fast[of 300 ?e "[''test_watchdog.exe'', ''new'']" ?e] by (simp add: Let_def)
qed

end
