(* ===== verification/ObjectPool.thy ===== *)
theory ObjectPool
  imports Interfaces
begin

text \<open>
  \<^verbatim>\<open>DhUtil/ObjectPool.h\<close>: the free list behind every pooled object (sessions, rooms, lobbies, jobs).
  Memory is an address; \<open>operator new\<close> hands out addresses in order, \<open>fresh\<close> is the next one.  \<open>handed\<close> lists the
  objects that are out, and \<open>events\<close> the constructor and destructor calls, so that the lifetime of the
  objects in the pool's memory can be followed.  Each static method holds the write lock of the pool
  while it touches the queue, so it is one step here.
\<close>

datatype lifetime = DefaultCtor nat | Ctor nat | Dtor nat

record ObjectPool =
  m_queue :: "nat list"
  m_usedSize :: int
  m_poolSize :: int
  fresh :: nat
  handed :: "nat list"
  events :: "lifetime list"

definition ObjectPool0 :: ObjectPool where
  "ObjectPool0 = \<lparr>m_queue = [], m_usedSize = 0, m_poolSize = 0, fresh = 0, handed = [], events = []\<rparr>"

definition GetMemory :: "ObjectPool \<Rightarrow> nat \<times> ObjectPool" where
  "GetMemory b =
     (let (memory, b1) = (case m_queue b of
          a # q \<Rightarrow> (a, b\<lparr>m_queue := q\<rparr>)
        | [] \<Rightarrow> (fresh b, b\<lparr>fresh := fresh b + 1, m_poolSize := m_poolSize b + 1,
                            events := events b @ [DefaultCtor (fresh b)]\<rparr>))
      in (memory, b1\<lparr>m_usedSize := m_usedSize b1 + 1\<rparr>))"

definition Push :: "nat \<Rightarrow> ObjectPool \<Rightarrow> ObjectPool" where
  "Push obj b = b\<lparr>m_usedSize := m_usedSize b - 1, m_queue := m_queue b @ [obj], handed := remove1 obj (handed b),
     events := events b @ [Dtor obj]\<rparr>"

text \<open>The argument says whether the constructor returns; when it throws, the memory goes back and the
  exception passes on.\<close>

definition Pop :: "bool \<Rightarrow> ObjectPool \<Rightarrow> nat option \<times> ObjectPool" where
  "Pop constructs b =
     (let (memory, b1) = GetMemory b in
      if constructs then (Some memory, b1\<lparr>handed := memory # handed b1, events := events b1 @ [Ctor memory]\<rparr>)
      else (None, Push memory b1))"

definition MakeShared :: "bool \<Rightarrow> ObjectPool \<Rightarrow> (nat option \<times> ObjectPool) outcome" where
  "MakeShared constructs b = Inr (Pop constructs b)"

text \<open>The deleter of the shared pointer.\<close>

definition last_reference :: "nat \<Rightarrow> ObjectPool \<Rightarrow> ObjectPool outcome" where
  "last_reference obj b = Inr (Push obj b)"

section \<open>Invariant\<close>

definition objs_inv :: "ObjectPool \<Rightarrow> bool" where
  "objs_inv b \<longleftrightarrow> distinct (m_queue b @ handed b) \<and> set (m_queue b @ handed b) = {..<fresh b}
     \<and> m_usedSize b = int (length (handed b)) \<and> m_poolSize b = int (fresh b)"

abbreviation objs_live :: "ObjectPool \<Rightarrow> nat set" where
  "objs_live b \<equiv> set (handed b)"

lemma objs_inv0: "objs_inv ObjectPool0"
  by (simp add: objs_inv_def ObjectPool0_def)

lemma Pop_cases:
  obtains (reuse) a q where "m_queue b = a # q"
      "Pop True b = (Some a, b\<lparr>m_queue := q, m_usedSize := m_usedSize b + 1, handed := a # handed b, events := events b @ [Ctor a]\<rparr>)"
      "Pop False b = (None, Push a (b\<lparr>m_queue := q, m_usedSize := m_usedSize b + 1\<rparr>))"
  | (new) "m_queue b = []"
      "Pop True b = (Some (fresh b), b\<lparr>fresh := fresh b + 1, m_poolSize := m_poolSize b + 1,
         events := events b @ [DefaultCtor (fresh b), Ctor (fresh b)], m_usedSize := m_usedSize b + 1, handed := fresh b # handed b\<rparr>)"
      "Pop False b = (None, Push (fresh b) (b\<lparr>fresh := fresh b + 1, m_poolSize := m_poolSize b + 1,
         events := events b @ [DefaultCtor (fresh b)], m_usedSize := m_usedSize b + 1\<rparr>))"
  by (cases "m_queue b") (simp_all add: Pop_def GetMemory_def)

lemma fresh_not_out: "objs_inv b \<Longrightarrow> fresh b \<notin> set (handed b)"
  by (auto simp: objs_inv_def)

lemma objs_Pop_True:
  assumes "objs_inv b"
  shows "objs_inv (snd (Pop True b))"
    and "\<exists>a. fst (Pop True b) = Some a \<and> a \<notin> set (handed b) \<and> handed (snd (Pop True b)) = a # handed b"
proof -
  show "objs_inv (snd (Pop True b))"
  proof (cases b rule: Pop_cases)
    case (reuse a q)
    have "insert a (set q \<union> set (handed b)) = {..<fresh b}" using assms reuse(1) by (simp add: objs_inv_def)
    then show ?thesis using assms reuse(1) by (simp add: objs_inv_def reuse(2))
  next
    case new
    then show ?thesis using assms fresh_not_out[OF assms] by (simp add: objs_inv_def lessThan_Suc)
  qed
  show "\<exists>a. fst (Pop True b) = Some a \<and> a \<notin> set (handed b) \<and> handed (snd (Pop True b)) = a # handed b"
    using assms fresh_not_out[OF assms] by (cases b rule: Pop_cases) (auto simp: objs_inv_def)
qed

lemma objs_Push:
  assumes "objs_inv b" "a \<in> set (handed b)"
  shows "objs_inv (Push a b)" "set (handed (Push a b)) = set (handed b) - {a}"
proof -
  have d: "distinct (handed b)" "a \<notin> set (m_queue b)" using assms by (auto simp: objs_inv_def)
  show "set (handed (Push a b)) = set (handed b) - {a}" using d by (simp add: Push_def)
  have "length (remove1 a (handed b)) + 1 = length (handed b)"
    using assms(2) length_pos_if_in_set[OF assms(2)] by (simp add: length_remove1)
  moreover have "set (m_queue b) \<union> set (handed b) = {..<fresh b}" using assms(1) by (simp add: objs_inv_def)
  then have "set (m_queue b @ [a] @ remove1 a (handed b)) = {..<fresh b}" using assms(2) d by auto
  ultimately show "objs_inv (Push a b)" using assms d by (auto simp: objs_inv_def Push_def)
qed

text \<open>The pool keeps the contract of an allocator whose runs are single objects.\<close>

interpretation objs: run_allocator objs_inv objs_live "\<lambda>b a. {a}" "\<lambda>_::unit. MakeShared True" last_reference
proof
  fix b and q :: unit assume inv: "objs_inv b"
  show "\<exists>r b'. MakeShared True b = Inr (r, b') \<and> objs_inv b'"
    using objs_Pop_True(1)[OF inv] by (simp add: MakeShared_def) (metis prod.collapse)
next
  fix b and q :: unit and b' assume "objs_inv b" "MakeShared True b = Inr (None, b')"
  then show "b' = b" using objs_Pop_True(2)[of b] by (auto simp: MakeShared_def)
next
  fix b and q :: unit and a b' assume "objs_inv b" "MakeShared True b = Inr (Some a, b')"
  then show "a \<notin> objs_live b \<and> objs_live b' = insert a (objs_live b) \<and> (\<forall>j \<in> objs_live b. {j} = {j})"
    using objs_Pop_True(2)[of b] by (auto simp: MakeShared_def)
next
  fix b a assume "objs_inv b" "a \<in> objs_live b"
  then show "\<exists>b'. last_reference a b = Inr b' \<and> objs_inv b' \<and> objs_live b' = objs_live b - {a} \<and> (\<forall>j \<in> objs_live b'. {j} = {j})"
    using objs_Push by (simp add: last_reference_def)
qed simp

section \<open>Object lifetimes\<close>

text \<open>Constructor calls minus destructor calls on an address.\<close>

fun constructions :: "nat \<Rightarrow> lifetime list \<Rightarrow> int" where
  "constructions a [] = 0"
| "constructions a (DefaultCtor x # es) = (if x = a then 1 else 0) + constructions a es"
| "constructions a (Ctor x # es) = (if x = a then 1 else 0) + constructions a es"
| "constructions a (Dtor x # es) = (if x = a then -1 else 0) + constructions a es"

lemma constructions_append [simp]: "constructions a (xs @ ys) = constructions a xs + constructions a ys"
  by (induction a xs rule: constructions.induct) auto

definition balanced :: "ObjectPool \<Rightarrow> bool" where
  "balanced b \<longleftrightarrow> (\<forall>a. constructions a (events b) = (if a < fresh b then 1 else 0) + (if a \<in> objs_live b then 1 else 0))"

lemma balanced_Pop: "objs_inv b \<Longrightarrow> balanced b \<Longrightarrow> balanced (snd (Pop True b))"
  by (cases b rule: Pop_cases) (auto simp: balanced_def objs_inv_def)

lemma balanced_Push: "objs_inv b \<Longrightarrow> a \<in> objs_live b \<Longrightarrow> balanced b \<Longrightarrow> balanced (Push a b)"
  by (auto simp: balanced_def objs_inv_def Push_def)

text \<open>Clients of the pool that make objects and drop them.\<close>

abbreviation pool_serve :: "unit request list \<Rightarrow> ObjectPool \<Rightarrow> ObjectPool outcome" where
  "pool_serve \<equiv> serve (\<lambda>_. MakeShared True) last_reference objs_live"

lemma balanced_serve:
  "objs_inv b \<Longrightarrow> balanced b \<Longrightarrow> pool_serve rs b = Inr b' \<Longrightarrow> objs_inv b' \<and> balanced b'"
proof (induction rs arbitrary: b)
  case (Cons r rs)
  show ?case
  proof (cases r)
    case (Acquire q)
    have "MakeShared True b = Inr (fst (Pop True b), snd (Pop True b))" by (simp add: MakeShared_def)
    then have "pool_serve rs (snd (Pop True b)) = Inr b'" using Cons.prems(3) Acquire by (simp add: case_prod_beta)
    then show ?thesis using Cons.IH objs_Pop_True(1) balanced_Pop Cons.prems(1,2) by blast
  next
    case (Release a)
    then show ?thesis using Cons.IH[OF objs_Push(1) balanced_Push] Cons
      by (auto simp: last_reference_def split: if_splits)
  qed
qed simp

text \<open>(C34) Pooled objects do not alias and the counters are exact.  Whatever sequence of \<open>MakeShared\<close> calls and
  dropped references an empty pool serves, objects that are out have distinct memory, the used counter
  is their number, the pool counter the number of addresses ever allocated, and every address is either out
  or queued for reuse.  Constructors and destructors do not balance: an object that is out has been constructed
  twice since it was last destroyed in full, and a queued one still once, because the default construction by
  \<open>new Type\<close> is never undone.\<close>

theorem ObjectPool_serve:
  "\<exists>b. pool_serve rs ObjectPool0 = Inr b \<and> distinct (m_queue b @ handed b) \<and> set (m_queue b @ handed b) = {..<fresh b}
     \<and> m_usedSize b = int (length (handed b)) \<and> m_poolSize b = int (fresh b)
     \<and> (\<forall>a. constructions a (events b) = of_bool (a < fresh b) + of_bool (a \<in> set (handed b)))"
proof -
  obtain b where b: "pool_serve rs ObjectPool0 = Inr b" using objs.serve_inv[OF objs_inv0] by blast
  have "balanced ObjectPool0" by (simp add: balanced_def ObjectPool0_def)
  from balanced_serve[OF objs_inv0 this b] b show ?thesis by (auto simp: objs_inv_def balanced_def)
qed

end
