(* ===== verification/Setting.thy ===== *)
theory Setting
  imports Prelude
begin

text \<open>
  \<^verbatim>\<open>ServerSetting\<close>: the configuration from the environment.  Reading a variable is a system call and a parameter,
  with its documented answers in \<open>env_api\<close>; \<^verbatim>\<open>std::stoi\<close> and its exceptions are modelled, an exception ends the process
  because nothing catches it.
\<close>

section \<open>Reading numbers\<close>

definition is_digit :: "char \<Rightarrow> bool" where
  "is_digit c \<longleftrightarrow> 48 \<le> (of_char c :: nat) \<and> (of_char c :: nat) \<le> 57"

definition is_space :: "char \<Rightarrow> bool" where
  "is_space c \<longleftrightarrow> (of_char c :: nat) \<in> {9, 10, 11, 12, 13, 32}"

definition digits_value :: "string \<Rightarrow> int" where
  "digits_value = foldl (\<lambda>n c. 10 * n + (int (of_char c) - 48)) 0"

text \<open>The number at the front of a string: blanks, a sign, digits.\<close>

definition leading_int :: "string \<Rightarrow> int option" where
  "leading_int s =
     (let t = dropWhile is_space s;
          neg = (t \<noteq> [] \<and> hd t = CHR ''-'');
          u = (if t \<noteq> [] \<and> hd t \<in> {CHR ''-'', CHR ''+''} then tl t else t);
          ds = takeWhile is_digit u
      in if ds = [] then None else Some (if neg then - digits_value ds else digits_value ds))"

definition stoi :: "string \<Rightarrow> int outcome" where
  "stoi s = (case leading_int s of
       None \<Rightarrow> Inl (CRASH ''invalid_argument'')
     | Some n \<Rightarrow> if int32_range n then Inr n else Inl (CRASH ''out_of_range''))"

text \<open>\<^verbatim>\<open>_wtoi\<close>: no number is 0, a number out of range becomes the nearest.\<close>

definition wtoi :: "string \<Rightarrow> int" where
  "wtoi s = (case leading_int s of None \<Rightarrow> 0 | Some n \<Rightarrow> max (- (2 ^ 31)) (min (2 ^ 31 - 1) n))"

section \<open>ServerSetting\<close>

record ServerSetting =
  ss_ip :: string
  ss_port :: uint16
  ss_maxSessionCount :: int
  ss_dbHost :: string
  ss_dbPort :: int
  ss_dbUser :: string
  ss_dbPassword :: string
  ss_dbName :: string
  ss_dbPoolSize :: int
  ss_grpcAddress :: string

text \<open>The call fills a buffer of the given size and returns the length of the value, the size it would need, or 0.\<close>

type_synonym env_call = "string \<Rightarrow> nat \<Rightarrow> nat \<times> string"

definition env_api :: "(string \<Rightarrow> string option) \<Rightarrow> env_call \<Rightarrow> bool" where
  "env_api env api \<longleftrightarrow> (\<forall>name size. 0 < size \<longrightarrow> (case env name of
       None \<Rightarrow> fst (api name size) = 0
     | Some v \<Rightarrow> if length v < size then api name size = (length v, v) else fst (api name size) = length v + 1))"

definition GetEnvVarUsingWinAPI :: "env_call \<Rightarrow> string \<Rightarrow> nat \<Rightarrow> string \<Rightarrow> bool \<times> string" where
  "GetEnvVarUsingWinAPI api varName bufferSize defaultValue =
     (let (result, buffer) = api varName bufferSize in
      if result > 0 \<and> result < bufferSize then (True, buffer) else (False, take (bufferSize - 1) defaultValue))"

definition ServerSetting_ctor :: "env_call \<Rightarrow> ServerSetting outcome" where
  "ServerSetting_ctor api =
     (let get = (\<lambda>name dflt. snd (GetEnvVarUsingWinAPI api name 256 dflt));
          ip = get ''DhNet_IP'' ''127.0.0.1'' in
      bindR (stoi (get ''DhNet_PORT'' ''7900'')) (\<lambda>port.
      bindR (stoi (get ''DhNet_MAX_SESSION_COUNT'' ''1000'')) (\<lambda>maxSessionCount.
      let dbHost = get ''DhNet_DB_HOST'' ''127.0.0.1'' in
      bindR (stoi (get ''DhNet_DB_PORT'' ''3306'')) (\<lambda>dbPort.
      let dbUser = get ''DhNet_DB_USER'' ''dhnet'';
          dbPassword = get ''DhNet_DB_PASSWORD'' ''dhnet_pw'';
          dbName = get ''DhNet_DB_NAME'' ''dhnet_db'' in
      bindR (stoi (get ''DhNet_DB_POOL_SIZE'' ''4'')) (\<lambda>dbPoolSize.
      Inr \<lparr>ss_ip = ip, ss_port = word_of_int port, ss_maxSessionCount = maxSessionCount, ss_dbHost = dbHost,
           ss_dbPort = dbPort, ss_dbUser = dbUser, ss_dbPassword = dbPassword, ss_dbName = dbName,
           ss_dbPoolSize = dbPoolSize, ss_grpcAddress = get ''DhNet_GRPC_ADDRESS'' ''127.0.0.1:7820''\<rparr>)))))"

section \<open>Laws\<close>

lemma env_value:
  assumes "env_api env api"
  shows "snd (GetEnvVarUsingWinAPI api name 256 dflt)
    = (case env name of Some v \<Rightarrow> if v \<noteq> [] \<and> length v < 256 then v else take 255 dflt | None \<Rightarrow> take 255 dflt)"
  using assms[unfolded env_api_def, rule_format, of 256 name]
  by (auto simp: GetEnvVarUsingWinAPI_def case_prod_beta split: option.splits if_splits)

lemma digit_char: "k < 10 \<Longrightarrow> (of_char (char_of (48 + k :: nat) :: char) :: nat) = 48 + k"
  by (simp add: of_char_of)

lemma to_string_digits: "list_all is_digit (to_string n) \<and> to_string n \<noteq> []"
proof (induction n rule: to_string.induct)
  case (1 n)
  moreover have "n mod 10 \<le> 9" by presburger
  ultimately show ?case by (simp add: to_string.simps[of n] is_digit_def digit_char)
qed

lemma digits_value_append: "digits_value (xs @ [c]) = 10 * digits_value xs + (int (of_char c) - 48)"
  by (simp add: digits_value_def)

lemma digits_value_to_string: "digits_value (to_string n) = int n"
proof (induction n rule: to_string.induct)
  case (1 n)
  show ?case
  proof (cases "n < 10")
    case True
    then show ?thesis by (simp add: to_string.simps[of n] digits_value_def digit_char)
  next
    case False
    then have "digits_value (to_string n) = 10 * int (n div 10) + int (n mod 10)"
      using 1 by (simp add: to_string.simps[of n] digits_value_append digit_char)
    moreover have "10 * int (n div 10) + int (n mod 10) = int n" by presburger
    ultimately show ?thesis by simp
  qed
qed

text \<open>A number written in decimal is read back.\<close>

lemma stoi_to_string: "n < 2 ^ 31 \<Longrightarrow> stoi (to_string n) = Inr (int n)"
proof -
  assume n: "n < 2 ^ 31"
  obtain c cs where c: "to_string n = c # cs" "is_digit c" "takeWhile is_digit cs = cs"
    using to_string_digits[of n] by (cases "to_string n") (auto simp: takeWhile_eq_all_conv list_all_iff)
  then have "\<not> is_space c" "c \<noteq> CHR ''-''" "c \<noteq> CHR ''+''" by (auto simp: is_digit_def is_space_def)
  then have "leading_int (to_string n) = Some (int n)"
    using c digits_value_to_string[of n] by (simp add: leading_int_def Let_def takeWhile_eq_all_conv[THEN iffD2])
  then show ?thesis using n by (simp add: stoi_def int32_range_def)
qed

text \<open>What a numeric variable becomes: the value that was written, cut to 16 bits for the port.\<close>

lemma setting_numbers:
  assumes "env_api env api" "env name = Some (to_string n)" "n < 2 ^ 31"
  shows "stoi (snd (GetEnvVarUsingWinAPI api name 256 dflt)) = Inr (int n)"
proof -
  have "length (to_string k) \<le> m" if "k < 10 ^ m" "0 < m" for k m
    using that
  proof (induction m arbitrary: k)
    case (Suc m)
    show ?case
    proof (cases "k < 10")
      case False
      then have "0 < m" using Suc.prems by (cases m) auto
      moreover have "k div 10 < 10 ^ m" using Suc.prems by (simp add: less_mult_imp_div_less mult.commute)
      ultimately show ?thesis using Suc.IH[of "k div 10"] False by (simp add: to_string.simps[of k])
    qed (simp add: to_string.simps[of k])
  qed simp
  from this[of n 10] have "length (to_string n) \<le> 10" using assms(3) by simp
  then show ?thesis using env_value[OF assms(1)] assms(2) to_string_digits[of n] stoi_to_string[OF assms(3)] by simp
qed

end
