(* ===== verification/Crypto.thy ===== *)
theory Crypto
  imports PacketList
begin

text \<open>
  \<^verbatim>\<open>DhNet_Server/CryptoUtil\<close>, \<^verbatim>\<open>AesGcm.h\<close> and \<^verbatim>\<open>EcdhKeyExchange.h\<close>: password hashing, packet encryption and
  key agreement on top of OpenSSL.  The library is a parameter, a record of its functions; the random
  bytes a call draws are an argument of the operation (\<open>None\<close>: the generator failed).  What the code
  relies on is \<open>gcm_ok\<close>, \<open>pbkdf2_ok\<close>, \<open>sha256_ok\<close> and \<open>ecdh_ok\<close>.
\<close>

section \<open>The library parameter\<close>

record 'k openssl =
  gcm_seal :: "byte list \<Rightarrow> byte list \<Rightarrow> byte list \<Rightarrow> (byte list \<times> byte list) option"
  gcm_open :: "byte list \<Rightarrow> byte list \<Rightarrow> byte list \<Rightarrow> byte list \<Rightarrow> byte list option"
  pbkdf2 :: "byte list \<Rightarrow> byte list \<Rightarrow> nat \<Rightarrow> nat \<Rightarrow> byte list option"
  sha256 :: "byte list \<Rightarrow> byte list option"
  pkey_pub :: "'k \<Rightarrow> byte list option"
  pkey_import :: "byte list \<Rightarrow> 'k option"
  pkey_derive :: "'k \<Rightarrow> 'k \<Rightarrow> byte list option"

text \<open>Galois/counter mode: the ciphertext is as long as the plaintext, the tag has 16 bytes, and what was sealed
  opens again.\<close>

definition gcm_ok :: "'k openssl \<Rightarrow> bool" where
  "gcm_ok ssl \<longleftrightarrow> (\<forall>k n p c t. gcm_seal ssl k n p = Some (c, t) \<longrightarrow>
     length c = length p \<and> length t = 16 \<and> gcm_open ssl k n c t = Some p)"

text \<open>A key under which the cipher refuses no plaintext; a nonce has 12 bytes.\<close>

definition gcm_seals :: "'k openssl \<Rightarrow> byte list \<Rightarrow> bool" where
  "gcm_seals ssl key \<longleftrightarrow> (\<forall>nonce p. length nonce = 12 \<longrightarrow> gcm_seal ssl key nonce p \<noteq> None)"

text \<open>Authenticity in the form the mode gives it: the tag is a function of key, nonce and ciphertext, so
  what opens is what sealing produced; and opening keeps the length.\<close>

definition gcm_authentic :: "'k openssl \<Rightarrow> bool" where
  "gcm_authentic ssl \<longleftrightarrow> (\<forall>k n p c t. gcm_open ssl k n c t = Some p \<longrightarrow> gcm_seal ssl k n p = Some (c, t))"

definition pbkdf2_ok :: "'k openssl \<Rightarrow> bool" where
  "pbkdf2_ok ssl \<longleftrightarrow> (\<forall>pw salt it n d. pbkdf2 ssl pw salt it n = Some d \<longrightarrow> length d = n)"

definition sha256_ok :: "'k openssl \<Rightarrow> bool" where
  "sha256_ok ssl \<longleftrightarrow> (\<forall>m d. sha256 ssl m = Some d \<longrightarrow> length d = 32)"

text \<open>Diffie-Hellman: two key pairs whose public halves import derive the same 32 byte secret from either side.\<close>

definition ecdh_ok :: "'k openssl \<Rightarrow> bool" where
  "ecdh_ok ssl \<longleftrightarrow> (\<forall>a b pa pb ka kb. pkey_pub ssl a = Some pa \<longrightarrow> pkey_pub ssl b = Some pb \<longrightarrow>
     pkey_import ssl pa = Some ka \<longrightarrow> pkey_import ssl pb = Some kb \<longrightarrow> pkey_derive ssl a kb = pkey_derive ssl b ka)"

section \<open>CryptoUtil\<close>

definition PBKDF2_ITERATIONS :: nat where "PBKDF2_ITERATIONS = 100000"
definition HASH_BYTES :: nat where "HASH_BYTES = 32"
definition SALT_BYTES :: nat where "SALT_BYTES = 16"

text \<open>\<^verbatim>\<open>"0123456789abcdef"\<close>\<close>

definition HEX_CHARS :: "byte list" where
  "HEX_CHARS = [0x30, 0x31, 0x32, 0x33, 0x34, 0x35, 0x36, 0x37, 0x38, 0x39, 0x61, 0x62, 0x63, 0x64, 0x65, 0x66]"

definition BytesToHex :: "byte list \<Rightarrow> byte list" where
  "BytesToHex data = concat (map (\<lambda>b. [HEX_CHARS ! unat (and (drop_bit 4 b) 0xF), HEX_CHARS ! unat (and b 0xF)]) data)"

definition hexVal :: "byte \<Rightarrow> int" where
  "hexVal c = (if 0x30 \<le> c \<and> c \<le> 0x39 then uint c - 0x30
     else if 0x61 \<le> c \<and> c \<le> 0x66 then uint c - 0x61 + 10
     else if 0x41 \<le> c \<and> c \<le> 0x46 then uint c - 0x41 + 10
     else -1)"

fun HexToBytes_loop :: "byte list \<Rightarrow> byte list option" where
  "HexToBytes_loop (x # y # hex) =
     (let hi = hexVal x; lo = hexVal y in
      if hi < 0 \<or> lo < 0 then None
      else map_option (\<lambda>out. word_of_int (or (push_bit 4 hi) lo) # out) (HexToBytes_loop hex))"
| "HexToBytes_loop _ = Some []"

definition HexToBytes :: "byte list \<Rightarrow> byte list option" where
  "HexToBytes hex = (if length hex mod 2 \<noteq> 0 then None else HexToBytes_loop hex)"

definition HashPassword :: "'k openssl \<Rightarrow> byte list option \<Rightarrow> byte list \<Rightarrow> (byte list \<times> byte list) option" where
  "HashPassword ssl rnd password = (case rnd of
       None \<Rightarrow> None
     | Some salt \<Rightarrow> (case pbkdf2 ssl password salt PBKDF2_ITERATIONS HASH_BYTES of
         None \<Rightarrow> None
       | Some hash \<Rightarrow> Some (BytesToHex hash, BytesToHex salt)))"

definition VerifyPassword :: "'k openssl \<Rightarrow> byte list \<Rightarrow> byte list \<Rightarrow> byte list \<Rightarrow> bool" where
  "VerifyPassword ssl password storedHashHex storedSaltHex = (case HexToBytes storedSaltHex of
       None \<Rightarrow> False
     | Some salt \<Rightarrow>
         if length salt \<noteq> SALT_BYTES then False
         else case pbkdf2 ssl password salt PBKDF2_ITERATIONS HASH_BYTES of
           None \<Rightarrow> False
         | Some computed \<Rightarrow> (case HexToBytes storedHashHex of
             None \<Rightarrow> False
           | Some storedHash \<Rightarrow> length storedHash = HASH_BYTES \<and> computed = storedHash))"

section \<open>AesGcm\<close>

text \<open>\<open>out\<close> is the memory the payload is written to.  The return value of \<^verbatim>\<open>RAND_bytes\<close> is not looked at, so a
  failed draw leaves the first 12 bytes as they were and encrypts under them.  Without a cipher context
  nothing but the nonce is written.\<close>

definition Encrypt :: "'k openssl \<Rightarrow> byte list option \<Rightarrow> bool \<Rightarrow> byte list \<Rightarrow> byte list \<Rightarrow> byte list \<Rightarrow> (byte list \<times> nat) option" where
  "Encrypt ssl rnd ctx m_key plain out =
     (let out1 = (case rnd of Some nonce \<Rightarrow> overwrite 0 nonce out | None \<Rightarrow> out) in
      if \<not> ctx then None
      else case gcm_seal ssl m_key (bytes_at 0 12 out1) plain of
        None \<Rightarrow> None
      | Some (c, t) \<Rightarrow> Some (overwrite (12 + length plain) t (overwrite 12 c out1), 12 + length plain + 16))"

definition Decrypt :: "'k openssl \<Rightarrow> bool \<Rightarrow> byte list \<Rightarrow> byte list \<Rightarrow> nat \<Rightarrow> byte list option" where
  "Decrypt ssl ctx m_key in' inLen =
     (if inLen < 28 then None
      else let nonce = bytes_at 0 12 in'; cipherLen = inLen - 28; ciphertext = bytes_at 12 cipherLen in';
               tag = bytes_at (12 + cipherLen) 16 in'
      in if \<not> ctx then None else gcm_open ssl m_key nonce ciphertext tag)"

section \<open>EcdhKeyExchange\<close>

definition GetPublicKeyBytes :: "'k openssl \<Rightarrow> 'k \<Rightarrow> byte list option" where
  "GetPublicKeyBytes ssl pkey = (case pkey_pub ssl pkey of
     Some out65 \<Rightarrow> if length out65 = 65 then Some out65 else None | None \<Rightarrow> None)"

definition DeriveSharedSecret :: "'k openssl \<Rightarrow> 'k \<Rightarrow> byte list \<Rightarrow> byte list option" where
  "DeriveSharedSecret ssl myPriv peerPub65 = (case pkey_import ssl peerPub65 of
       None \<Rightarrow> None
     | Some peerKey \<Rightarrow> (case pkey_derive ssl myPriv peerKey of
         Some secret \<Rightarrow> if length secret = 32 then Some secret else None | None \<Rightarrow> None))"

text \<open>\<^verbatim>\<open>"DhNet-session-key"\<close>\<close>

definition label :: "byte list" where
  "label = map (\<lambda>c. of_nat (of_char c)) ''DhNet-session-key''"

definition DeriveSessionKey :: "'k openssl \<Rightarrow> byte list \<Rightarrow> byte list option" where
  "DeriveSessionKey ssl secret32 = (case sha256 ssl (label @ secret32) of
     Some hash \<Rightarrow> if length hash = 32 then Some (take 16 hash) else None | None \<Rightarrow> None)"

section \<open>Hexadecimal round trip\<close>

lemma or_nibbles: "0 \<le> (l::int) \<Longrightarrow> l < 16 \<Longrightarrow> or (push_bit 4 h) l = 16 * h + l"
  using concat_bit_eq[of 4 l h] by (simp add: concat_bit_def take_bit_int_eq_self or.commute push_bit_eq_mult)

lemma unat_nibbles:
  fixes b :: byte
  shows "unat (and b 0xF) = unat b mod 16" "unat (and (drop_bit 4 b) 0xF) = unat b div 16"
proof -
  have m: "(0xF :: byte) = mask 4" by (simp add: mask_eq_exp_minus_1)
  have t: "unat (and x 0xF) = take_bit 4 (unat x)" for x :: byte
    unfolding m by (simp only: unsigned_take_bit_eq flip: take_bit_eq_mask)
  show "unat (and b 0xF) = unat b mod 16" by (simp add: t take_bit_eq_mod)
  have "unat b < 256" using unsigned_less[of b, where 'a = nat] by simp
  then have "take_bit 4 (unat b div 16) = unat b div 16" by (intro take_bit_nat_eq_self) simp
  then show "unat (and (drop_bit 4 b) 0xF) = unat b div 16"
    unfolding t unfolding unat_drop_bit_eq unfolding drop_bit_eq_div by simp
qed

lemma hexVal_HEX_CHARS: "n < 16 \<Longrightarrow> hexVal (HEX_CHARS ! n) = int n"
proof -
  have "list_all (\<lambda>n. hexVal (HEX_CHARS ! n) = int n) [0..<16]" by code_simp
  then show "n < 16 \<Longrightarrow> hexVal (HEX_CHARS ! n) = int n" unfolding list_all_iff by (metis atLeastLessThan_iff set_upt zero_le)
qed

lemma hex_byte:
  fixes b :: byte
  shows "(let x = HEX_CHARS ! unat (and (drop_bit 4 b) 0xF); y = HEX_CHARS ! unat (and b 0xF) in
    0 \<le> hexVal x \<and> 0 \<le> hexVal y \<and> word_of_int (or (push_bit 4 (hexVal x)) (hexVal y)) = b)"
proof -
  have "unat b < 256" using unsigned_less[of b, where 'a = nat] by simp
  then have d: "unat b div 16 < 16" "unat b mod 16 < 16" by auto
  have x: "hexVal (HEX_CHARS ! unat (and (drop_bit 4 b) 0xF)) = int (unat b div 16)"
    and y: "hexVal (HEX_CHARS ! unat (and b 0xF)) = int (unat b mod 16)"
    by (simp_all only: unat_nibbles(2) hexVal_HEX_CHARS[OF d(1)]) (simp only: unat_nibbles(1) hexVal_HEX_CHARS[OF d(2)])
  have "or (push_bit 4 (int q)) (int r) = int (q * 16 + r)" if "r < 16" for q r :: nat
    using or_nibbles[of "int r" "int q"] that by simp
  from this[OF d(2)] have "or (push_bit 4 (int (unat b div 16))) (int (unat b mod 16)) = int (unat b)"
    by (simp only: div_mult_mod_eq)
  then show ?thesis unfolding Let_def x y by (simp only: of_nat_0_le_iff) simp
qed

lemma HexToBytes_BytesToHex: "HexToBytes (BytesToHex bs) = Some bs"
proof -
  have "HexToBytes_loop (BytesToHex bs) = Some bs \<and> length (BytesToHex bs) = 2 * length bs"
  proof (induction bs)
    case (Cons b bs)
    have "BytesToHex (b # bs) = HEX_CHARS ! unat (and (drop_bit 4 b) 0xF) # HEX_CHARS ! unat (and b 0xF) # BytesToHex bs"
      by (simp add: BytesToHex_def)
    then show ?case using Cons hex_byte[of b] by (simp add: Let_def)
  qed (simp add: BytesToHex_def)
  then show ?thesis by (simp add: HexToBytes_def)
qed

lemma length_BytesToHex [simp]: "length (BytesToHex bs) = 2 * length bs"
  by (induction bs) (simp_all add: BytesToHex_def)

text \<open>(C33) Stored passwords verify.  The hash and salt that \<open>HashPassword\<close> writes are 64 and 32 hexadecimal digits,
  and \<open>VerifyPassword\<close> accepts against them exactly the passwords that derive the same 32 bytes under that salt:
  the original one, and nothing the derivation tells apart from it.\<close>

theorem HashPassword_VerifyPassword:
  assumes "pbkdf2_ok ssl" "length salt = SALT_BYTES" "HashPassword ssl (Some salt) password = Some (h, s)"
  shows "length h = 64 \<and> length s = 32 \<and> VerifyPassword ssl password h s
    \<and> (VerifyPassword ssl attempt h s \<longleftrightarrow>
        pbkdf2 ssl attempt salt PBKDF2_ITERATIONS HASH_BYTES = pbkdf2 ssl password salt PBKDF2_ITERATIONS HASH_BYTES)"
proof -
  obtain d where d: "pbkdf2 ssl password salt PBKDF2_ITERATIONS HASH_BYTES = Some d" "h = BytesToHex d" "s = BytesToHex salt"
    using assms(3) by (auto simp: HashPassword_def split: option.splits)
  then have "length d = HASH_BYTES" using assms(1) by (auto simp: pbkdf2_ok_def)
  then show ?thesis using d assms(2)
    by (auto simp: VerifyPassword_def HexToBytes_BytesToHex HASH_BYTES_def SALT_BYTES_def split: option.split)
qed

section \<open>Authenticated encryption\<close>

text \<open>A payload written by \<open>Encrypt\<close> decrypts to the plaintext, wherever it is copied to.\<close>

lemma Encrypt_Decrypt:
  assumes ok: "gcm_ok ssl" and fit: "12 + length plain + 16 \<le> length out" "length nonce = 12"
    and enc: "Encrypt ssl (Some nonce) ctx key plain out = Some (out', n)"
    and copy: "take n mem = take n out'"
  shows "n = length plain + 28 \<and> length out' = length out \<and> Decrypt ssl True key mem n = Some plain"
proof -
  let ?o1 = "overwrite 0 nonce out"
  obtain c t where ct: "gcm_seal ssl key nonce plain = Some (c, t)" "out' = overwrite (12 + length plain) t (overwrite 12 c ?o1)"
    "n = length plain + 28"
    using enc fit by (auto simp: Encrypt_def Let_def split: if_splits option.splits)
  have l: "length c = length plain" "length t = 16" "gcm_open ssl key nonce c t = Some plain"
    using ok ct(1) by (auto simp: gcm_ok_def)
  have mem: "bytes_at i k mem = bytes_at i k out'" if "i + k \<le> n" for i k
  proof -
    have "bytes_at i k mem = bytes_at i k (take n mem)" "bytes_at i k out' = bytes_at i k (take n out')"
      using that by (simp_all add: bytes_at_def drop_take min_def)
    then show ?thesis using copy by simp
  qed
  have "bytes_at 0 12 out' = nonce" "bytes_at 12 (length plain) out' = c" "bytes_at (12 + length plain) 16 out' = t"
    using fit l ct(2) by simp_all
  then show ?thesis using ct l fit mem[of 0 12] mem[of 12 "length plain"] mem[of "12 + length plain" 16]
    by (simp add: Decrypt_def Let_def)
qed

text \<open>A failed random draw repeats the nonce.  \<open>Encrypt\<close> does not look at the result of \<^verbatim>\<open>RAND_bytes\<close>: when two
  draws fail, two packets encrypted into the same pool memory under the same key carry the same nonce.\<close>

lemma Encrypt_reuses_nonce:
  assumes "gcm_ok ssl" "12 + length p1 + 16 \<le> length out" "12 + length p2 + 16 \<le> length out"
    and "Encrypt ssl None True key p1 out = Some (o1, n1)" "Encrypt ssl None True key p2 o1 = Some (o2, n2)"
  shows "bytes_at 0 12 o1 = bytes_at 0 12 out \<and> bytes_at 0 12 o2 = bytes_at 0 12 out
    \<and> (\<exists>c1 t1 c2 t2. gcm_seal ssl key (bytes_at 0 12 out) p1 = Some (c1, t1) \<and> gcm_seal ssl key (bytes_at 0 12 out) p2 = Some (c2, t2))"
proof -
  have step: "bytes_at 0 12 o' = bytes_at 0 12 o0 \<and> length o' = length o0 \<and> (\<exists>c t. gcm_seal ssl key (bytes_at 0 12 o0) p = Some (c, t))"
    if "Encrypt ssl None True key p o0 = Some (o', n)" "12 + length p + 16 \<le> length o0" for p o0 o' n
  proof -
    from that(1) obtain c t where s: "gcm_seal ssl key (bytes_at 0 12 o0) p = Some (c, t)"
      "o' = overwrite (12 + length p) t (overwrite 12 c o0)"
      by (auto simp: Encrypt_def Let_def split: option.splits)
    then have "length c = length p" "length t = 16" using assms(1) by (auto simp: gcm_ok_def)
    then show ?thesis using s that(2) by auto
  qed
  from step[OF assms(4,2)] step[OF assms(5)] assms(3) show ?thesis by auto
qed

section \<open>A concrete library\<close>

text \<open>A library that meets the hypotheses: sealing copies the plaintext and tags it with its sum; a key is a byte,
  its public half repeats it, and the secret of two keys repeats their product.\<close>

definition toy_ssl :: "byte openssl" where
  "toy_ssl = \<lparr>gcm_seal = (\<lambda>k n p. Some (p, replicate 16 (sum_list (k @ n @ p)))),
     gcm_open = (\<lambda>k n c t. if t = replicate 16 (sum_list (k @ n @ c)) then Some c else None),
     pbkdf2 = (\<lambda>pw salt it n. Some (replicate n (sum_list (pw @ salt)))),
     sha256 = (\<lambda>m. Some (replicate 32 (sum_list m))),
     pkey_pub = (\<lambda>k. Some (replicate 65 k)),
     pkey_import = (\<lambda>p. if length p = 65 then Some (hd p) else None),
     pkey_derive = (\<lambda>a b. Some (replicate 32 (a * b)))\<rparr>"

lemma toy_ssl_ok: "gcm_ok toy_ssl" "gcm_authentic toy_ssl" "pbkdf2_ok toy_ssl" "sha256_ok toy_ssl" "ecdh_ok toy_ssl" "gcm_seals toy_ssl key"
  by (auto simp: gcm_seals_def toy_ssl_def gcm_ok_def gcm_authentic_def pbkdf2_ok_def sha256_ok_def ecdh_ok_def mult.commute split: if_splits)

theorem HashPassword_VerifyPassword_witness:
  "\<exists>h s. HashPassword toy_ssl (Some (replicate 16 7)) [1, 2, 3] = Some (h, s)
     \<and> VerifyPassword toy_ssl [1, 2, 3] h s \<and> \<not> VerifyPassword toy_ssl [1, 2, 4] h s"
proof -
  obtain h s where hs: "HashPassword toy_ssl (Some (replicate 16 7)) [1, 2, 3] = Some (h, s)"
    by (simp add: HashPassword_def toy_ssl_def)
  have "length (replicate 16 7 :: byte list) = SALT_BYTES" by (simp add: SALT_BYTES_def)
  from HashPassword_VerifyPassword[OF toy_ssl_ok(3) this hs, of "[1, 2, 4]"]
  have "VerifyPassword toy_ssl [1, 2, 3] h s \<and> \<not> VerifyPassword toy_ssl [1, 2, 4] h s"
    by (simp add: toy_ssl_def HASH_BYTES_def replicate_eq_replicate)
  then show ?thesis using hs by blast
qed

end
