(* ===== verification/SecureSession.thy ===== *)
theory SecureSession
  imports Crypto
begin

text \<open>
  The encrypted session layer, both ends: \<^verbatim>\<open>DhNet_Server/GameSession\<close> and \<^verbatim>\<open>DhNet_Client/ServerSession\<close>.
  \<open>crypt\<close> is the encryption state both classes carry.  A function gets the memory its packet pointer
  points into and says what the session does next: send bytes, disconnect, hand a decrypted packet to
  its handler.  \<open>draw\<close> holds what the library and the pools answer during one call: a generated key
  pair, random bytes, whether a cipher context could be allocated, and the pool memory of the
  outgoing packet.
\<close>

record 'k crypt =
  m_cipher :: "byte list option"
  m_handshakeDone :: bool
  m_myPrivKey :: "'k option"

definition crypt0 :: "'k crypt" where
  "crypt0 = \<lparr>m_cipher = None, m_handshakeDone = False, m_myPrivKey = None\<rparr>"

record 'k draw =
  d_key :: "'k option"
  d_rnd :: "byte list option"
  d_ctx :: bool
  d_mem :: "byte list"

datatype action =
    SendBytes "byte list"
  | Disconnects string
  | Refuse
  | Dispatch "byte list"
  | Nothing

text \<open>What \<^verbatim>\<open>Session::Send\<close> transmits of a packet in pool memory: as many bytes as its header says.\<close>

definition sent_bytes :: "byte list \<Rightarrow> byte list" where
  "sent_bytes pkt = take (unat (m_dataSize pkt)) pkt"

section \<open>Sending\<close>

definition SendEncrypted :: "'k openssl \<Rightarrow> 'k draw \<Rightarrow> byte list \<Rightarrow> byte list \<Rightarrow> action" where
  "SendEncrypted ssl d key inner =
     (let innerLen = unat (m_dataSize inner) in
      if innerLen = 0 \<or> innerLen > MAX_PLAIN_PACKET_SIZE then Nothing
      else case Encrypt ssl (d_rnd d) (d_ctx d) key (take innerLen inner) (drop sizeof_PacketHeader (d_mem d)) of
        None \<Rightarrow> Nothing
      | Some (payload, payloadLen) \<Rightarrow>
          SendBytes (sent_bytes (PacketHeader_Init (packetNum Encrypted) (of_nat (sizeof_PacketHeader + payloadLen))
            (take sizeof_PacketHeader (d_mem d) @ payload))))"

definition GameSession_Send :: "'k openssl \<Rightarrow> 'k draw \<Rightarrow> byte list \<Rightarrow> 'k crypt \<Rightarrow> action outcome" where
  "GameSession_Send ssl d inner c =
     (if m_handshakeDone c
      then case m_cipher c of None \<Rightarrow> Inl (UB ''null cipher'') | Some key \<Rightarrow> Inr (SendEncrypted ssl d key inner)
      else Inr (SendBytes (sent_bytes inner)))"

text \<open>\<^verbatim>\<open>ServerSession::Send\<close> and \<^verbatim>\<open>ServerSession::SendEncrypted\<close> are the same code on the client's side.\<close>

definition ServerSession_Send :: "'k openssl \<Rightarrow> 'k draw \<Rightarrow> byte list \<Rightarrow> 'k crypt \<Rightarrow> action outcome" where
  "ServerSession_Send ssl d inner c =
     (if m_handshakeDone c
      then case m_cipher c of None \<Rightarrow> Inl (UB ''null cipher'') | Some key \<Rightarrow> Inr (SendEncrypted ssl d key inner)
      else Inr (SendBytes (sent_bytes inner)))"

section \<open>The server's end\<close>

text \<open>The 65 bytes of the key are read from the packet's memory whatever size its header claims.\<close>

definition HandleKeyExchange :: "'k openssl \<Rightarrow> 'k draw \<Rightarrow> byte list \<Rightarrow> 'k crypt \<Rightarrow> (action \<times> 'k crypt) outcome" where
  "HandleKeyExchange ssl d mem c =
     (let c1 = c\<lparr>m_myPrivKey := d_key d\<rparr> in
      case d_key d of
        None \<Rightarrow> Inr (Disconnects ''KeyGenFailed'', c1)
      | Some priv \<Rightarrow>
      if length mem < size_of cls_ReqKeyExchange then Inl (UB ''read past the receive buffer'')
      else case DeriveSharedSecret ssl priv (bytes_at (offset cls_ReqKeyExchange 0) 65 mem) of
        None \<Rightarrow> Inr (Disconnects ''EcdhFailed'', c1)
      | Some secret \<Rightarrow> (case DeriveSessionKey ssl secret of
          None \<Rightarrow> Inr (Disconnects ''KeyDeriveFailed'', c1)
        | Some sessionKey \<Rightarrow> (case GetPublicKeyBytes ssl priv of
            None \<Rightarrow> Inr (Disconnects ''PubKeyExportFailed'', c1)
          | Some pub \<Rightarrow>
              let res = ResKeyExchange_Init (overwrite (offset cls_ResKeyExchange 0) pub (d_mem d)) in
              Inr (SendBytes (sent_bytes res),
                   c1\<lparr>m_myPrivKey := None, m_cipher := Some sessionKey, m_handshakeDone := True\<rparr>))))"

text \<open>The checks both ends make on an encrypted packet; \<open>stack\<close> is the uninitialised \<open>plainBuf\<close> the plaintext is
  written over.\<close>

definition payload_length :: "byte list \<Rightarrow> int" where
  "payload_length mem = uint (m_dataSize mem) - int sizeof_PacketHeader"

definition GameSession_OnRecv :: "'k openssl \<Rightarrow> 'k draw \<Rightarrow> byte list \<Rightarrow> byte list \<Rightarrow> 'k crypt \<Rightarrow> (action \<times> 'k crypt) outcome" where
  "GameSession_OnRecv ssl d stack mem c =
     (if \<not> m_handshakeDone c
      then if m_packetNum mem = packetNum Req_KeyExchange then HandleKeyExchange ssl d mem c
           else Inr (Disconnects ''ProtocolViolation'', c)
      else if m_packetNum mem \<noteq> packetNum Encrypted then Inr (Disconnects ''ProtocolViolation'', c)
      else let payloadLen = payload_length mem in
      if payloadLen < 28 \<or> payloadLen > int MAX_PLAIN_PACKET_SIZE + 28 then Inr (Disconnects ''InvalidEncryptedSize'', c)
      else case m_cipher c of
        None \<Rightarrow> Inl (UB ''null cipher'')
      | Some key \<Rightarrow> (case Decrypt ssl (d_ctx d) key (drop sizeof_PacketHeader mem) (nat payloadLen) of
          None \<Rightarrow> Inr (Disconnects ''GCMVerifyFailed'', c)
        | Some plain \<Rightarrow> Inr (Dispatch (overwrite 0 plain stack), c)))"

section \<open>The client's end\<close>

definition ServerSession_OnConnected :: "'k openssl \<Rightarrow> 'k draw \<Rightarrow> 'k crypt \<Rightarrow> action \<times> 'k crypt" where
  "ServerSession_OnConnected ssl d c =
     (let c1 = c\<lparr>m_myPrivKey := d_key d\<rparr> in
      case d_key d of
        None \<Rightarrow> (Disconnects ''KeyGenFailed'', c1)
      | Some priv \<Rightarrow> (case GetPublicKeyBytes ssl priv of
          None \<Rightarrow> (Disconnects ''PubKeyExportFailed'', c1)
        | Some pub \<Rightarrow>
            (SendBytes (sent_bytes (ReqKeyExchange_Init (overwrite (offset cls_ReqKeyExchange 0) pub (d_mem d)))), c1)))"

definition testuser :: "byte list" where "testuser = map (\<lambda>c. of_nat (of_char c)) ''testuser''"
definition testpass :: "byte list" where "testpass = map (\<lambda>c. of_nat (of_char c)) ''testpass''"

text \<open>After the exchange the client sends its login, the first encrypted packet; \<open>login_mem\<close> is the pool memory of the
  plain login packet.\<close>

definition HandleResKeyExchange :: "'k openssl \<Rightarrow> 'k draw \<Rightarrow> byte list \<Rightarrow> byte list \<Rightarrow> 'k crypt \<Rightarrow> (action \<times> 'k crypt) outcome" where
  "HandleResKeyExchange ssl d login_mem mem c =
     (case m_myPrivKey c of
        None \<Rightarrow> Inl (UB ''null key'')
      | Some priv \<Rightarrow>
      if length mem < size_of cls_ResKeyExchange then Inl (UB ''read past the receive buffer'')
      else case DeriveSharedSecret ssl priv (bytes_at (offset cls_ResKeyExchange 0) 65 mem) of
        None \<Rightarrow> Inr (Disconnects ''EcdhFailed'', c)
      | Some secret \<Rightarrow> (case DeriveSessionKey ssl secret of
          None \<Rightarrow> Inr (Disconnects ''KeyDeriveFailed'', c)
        | Some sessionKey \<Rightarrow>
            let c1 = c\<lparr>m_myPrivKey := None, m_cipher := Some sessionKey, m_handshakeDone := True\<rparr> in
            bindR (ServerSession_Send ssl d (ReqLogin_Init testuser testpass login_mem) c1) (\<lambda>a. Inr (a, c1))))"

definition ServerSession_OnRecv :: "'k openssl \<Rightarrow> 'k draw \<Rightarrow> byte list \<Rightarrow> byte list \<Rightarrow> byte list \<Rightarrow> 'k crypt \<Rightarrow> (action \<times> 'k crypt) outcome" where
  "ServerSession_OnRecv ssl d login_mem stack mem c =
     (if \<not> m_handshakeDone c
      then if m_packetNum mem = packetNum Res_KeyExchange then HandleResKeyExchange ssl d login_mem mem c
           else Inr (Refuse, c)
      else if m_packetNum mem \<noteq> packetNum Encrypted then Inr (Refuse, c)
      else let payloadLen = payload_length mem in
      if payloadLen < 28 \<or> payloadLen > int MAX_PLAIN_PACKET_SIZE + 28 then Inr (Refuse, c)
      else case m_cipher c of
        None \<Rightarrow> Inl (UB ''null cipher'')
      | Some key \<Rightarrow> (case Decrypt ssl (d_ctx d) key (drop sizeof_PacketHeader mem) (nat payloadLen) of
          None \<Rightarrow> Inr (Refuse, c)
        | Some plain \<Rightarrow> Inr (Dispatch (overwrite 0 plain stack), c)))"

section \<open>Frames\<close>

lemma bytes_at_prefix: "i + n \<le> k \<Longrightarrow> k \<le> length xs \<Longrightarrow> bytes_at i n (take k xs @ ys) = bytes_at i n xs"
  by (simp add: bytes_at_def take_drop min_def)

lemma header_of_prefix:
  assumes "4 \<le> k" "k \<le> length xs"
  shows "m_packetNum (take k xs @ ys) = m_packetNum xs" "m_dataSize (take k xs @ ys) = m_dataSize xs"
  using assms by (simp_all add: m_packetNum_def m_dataSize_def bytes_at_prefix)

lemma drop_header_Init: "length h = 4 \<Longrightarrow> drop 4 (PacketHeader_Init num sz (h @ xs)) = xs"
  by (simp add: PacketHeader_Init_def overwrite_def drop_append)

text \<open>The frame \<open>SendEncrypted\<close> produces, read back from the front of any memory.\<close>

lemma SendEncrypted_frame:
  assumes ok: "gcm_ok ssl" and d: "d_rnd d = Some nonce" "length nonce = 12" "length (d_mem d) = size_of cls_EncryptedPacket"
    and inner: "unat (m_dataSize inner) \<le> length inner"
    and f: "SendEncrypted ssl d key inner = SendBytes f"
  shows "m_packetNum (f @ rest) = packetNum Encrypted"
    and "payload_length (f @ rest) = int (unat (m_dataSize inner)) + 28"
    and "unat (m_dataSize inner) \<le> MAX_PLAIN_PACKET_SIZE"
    and "Decrypt ssl True key (drop 4 (f @ rest)) (unat (m_dataSize inner) + 28) = Some (sent_bytes inner)"
    and "length f = unat (m_dataSize inner) + 32"
proof -
  let ?n = "unat (m_dataSize inner)"
  have n: "0 < ?n" "?n \<le> MAX_PLAIN_PACKET_SIZE" using f by (auto simp: SendEncrypted_def Let_def split: if_splits)
  then have n2: "?n \<le> 1280" by (simp add: MAX_PLAIN_PACKET_SIZE_def)
  let ?out = "drop sizeof_PacketHeader (d_mem d)"
  have lens: "length ?out = 1308" "length (take 4 (d_mem d)) = 4" "length (take ?n inner) = ?n"
    using d(3) inner by (simp_all add: sizeof_PacketHeader_def)
  obtain payload k where e: "Encrypt ssl (Some nonce) (d_ctx d) key (take ?n inner) ?out = Some (payload, k)"
    and f': "f = sent_bytes (PacketHeader_Init (packetNum Encrypted) (of_nat (4 + k)) (take 4 (d_mem d) @ payload))"
    using f n d(1) by (auto simp: SendEncrypted_def Let_def sizeof_PacketHeader_def split: option.splits prod.splits if_splits)
  note rt = Encrypt_Decrypt[OF ok _ d(2) e]
  have k: "k = ?n + 28" and lp: "length payload = 1308" using rt[of payload] lens n2 inner by (simp_all add: min_def)
  define pkt where "pkt = PacketHeader_Init (packetNum Encrypted) (of_nat (4 + k) :: uint16) (take 4 (d_mem d) @ payload)"
  have lpkt: "length pkt = 1312" using lens lp by (simp add: pkt_def)
  have "m_dataSize pkt = of_nat (4 + k)" using lens lp by (simp add: pkt_def)
  moreover have "unat (of_nat m :: uint16) = m" if "m < 65536" for m
    using that by (simp add: unat_of_nat take_bit_nat_eq_self)
  moreover have "4 + k < 65536" using k n2 by simp
  ultimately have sz: "unat (m_dataSize pkt) = 4 + k" by metis
  have num: "m_packetNum pkt = packetNum Encrypted" using lens lp by (simp add: pkt_def)
  have ff: "f = take (4 + k) pkt" using f' sz by (simp add: sent_bytes_def pkt_def)
  have hdr: "m_packetNum (f @ rest) = packetNum Encrypted" "unat (m_dataSize (f @ rest)) = 4 + k"
    using header_of_prefix[of "4 + k" pkt rest] lpkt k n2 sz num by (simp_all add: ff)
  show "m_packetNum (f @ rest) = packetNum Encrypted" by (rule hdr)
  show "payload_length (f @ rest) = int ?n + 28"
  proof -
    have "uint (m_dataSize (f @ rest)) = int (4 + k)" using hdr(2) by (metis of_nat_unat)
    then show ?thesis using k by (simp add: payload_length_def sizeof_PacketHeader_def)
  qed
  show "?n \<le> MAX_PLAIN_PACKET_SIZE" by (rule n)
  have "drop 4 pkt = payload" using lens(2) by (simp add: pkt_def drop_header_Init)
  then have body: "drop 4 (f @ rest) = take k payload @ rest" using lpkt k n2 by (simp add: ff drop_take add.commute)
  have "take k (drop 4 (f @ rest)) = take k payload" using body lp k n2 by simp
  then show "Decrypt ssl True key (drop 4 (f @ rest)) (?n + 28) = Some (sent_bytes inner)"
    using rt[of "drop 4 (f @ rest)"] lens n2 inner k by (simp add: sent_bytes_def min_def)
  show "length f = ?n + 32" using lpkt k n2 by (simp add: ff)
qed

definition sending_draw :: "'k draw \<Rightarrow> bool" where
  "sending_draw d \<longleftrightarrow> (\<exists>nonce. d_rnd d = Some nonce \<and> length nonce = 12) \<and> length (d_mem d) = size_of cls_EncryptedPacket"

lemma channel_delivers:
  assumes "gcm_ok ssl" "sending_draw d" "d_ctx d'"
    and keys: "m_cipher c = Some key" "m_cipher c' = Some key" "m_handshakeDone c" "m_handshakeDone c'"
    and inner: "unat (m_dataSize inner) \<le> length inner"
  shows "(GameSession_Send ssl d inner c = Inr (SendBytes f) \<longrightarrow>
      ServerSession_OnRecv ssl d' lm stack (f @ rest) c' = Inr (Dispatch (overwrite 0 (sent_bytes inner) stack), c'))
    \<and> (ServerSession_Send ssl d inner c = Inr (SendBytes f) \<longrightarrow>
      GameSession_OnRecv ssl d' stack (f @ rest) c' = Inr (Dispatch (overwrite 0 (sent_bytes inner) stack), c'))"
proof -
  obtain nonce where d: "d_rnd d = Some nonce" "length nonce = 12" "length (d_mem d) = size_of cls_EncryptedPacket"
    using assms(2) by (auto simp: sending_draw_def)
  have "GameSession_OnRecv ssl d' stack (f @ rest) c' = Inr (Dispatch (overwrite 0 (sent_bytes inner) stack), c')
      \<and> ServerSession_OnRecv ssl d' lm stack (f @ rest) c' = Inr (Dispatch (overwrite 0 (sent_bytes inner) stack), c')"
    if "SendEncrypted ssl d key inner = SendBytes f"
  proof -
    have "uint (m_dataSize inner) \<le> int MAX_PLAIN_PACKET_SIZE"
      using SendEncrypted_frame(3)[OF assms(1) d inner that] by (metis of_nat_mono of_nat_unat)
    then show ?thesis using SendEncrypted_frame(1,2,4)[OF assms(1) d inner that, where rest = rest] keys assms(3)
      by (simp add: GameSession_OnRecv_def ServerSession_OnRecv_def sizeof_PacketHeader_def nat_add_distrib
          del: packetNum.simps)
  qed
  then show ?thesis using keys by (simp add: GameSession_Send_def ServerSession_Send_def)
qed

lemma SendEncrypted_works:
  assumes "gcm_seals ssl key" "sending_draw d" "d_ctx d" "0 < unat (m_dataSize inner)" "unat (m_dataSize inner) \<le> MAX_PLAIN_PACKET_SIZE"
  shows "\<exists>f. SendEncrypted ssl d key inner = SendBytes f"
proof -
  obtain nonce where d: "d_rnd d = Some nonce" "length nonce = 12" "length (d_mem d) = size_of cls_EncryptedPacket"
    using assms(2) by (auto simp: sending_draw_def)
  then have "bytes_at 0 12 (overwrite 0 nonce (drop sizeof_PacketHeader (d_mem d))) = nonce"
    by (simp add: bytes_at_def overwrite_def)
  then show ?thesis using assms(1,3-5) d(1,2) unfolding gcm_seals_def
    by (fastforce simp: SendEncrypted_def Encrypt_def Let_def not_less split: option.splits)
qed

text \<open>The layout of a sealed frame, and that both ends look at nothing behind it.\<close>

lemma Decrypt_prefix:
  "n \<le> length xs \<Longrightarrow> Decrypt ssl ctx key (xs @ ys) n = Decrypt ssl ctx key xs n"
  by (simp add: Decrypt_def Let_def bytes_at_def)

lemma sealed_shape:
  assumes "gcm_ok ssl" "sending_draw d" "unat (m_dataSize inner) \<le> length inner" "SendEncrypted ssl d key inner = SendBytes f"
  shows "m_packetNum (f @ rest) = packetNum Encrypted" "payload_length (f @ rest) = int (length f) - 4"
    "32 < length f" "unat (m_dataSize f) = length f"
proof -
  obtain nonce where n: "d_rnd d = Some nonce" "length nonce = 12" "length (d_mem d) = size_of cls_EncryptedPacket"
    using assms(2) by (auto simp: sending_draw_def)
  note fr = SendEncrypted_frame[OF assms(1) n assms(3,4)]
  have "unat (m_dataSize inner) \<noteq> 0" using assms(4) by (auto simp: SendEncrypted_def Let_def split: if_splits)
  then show "32 < length f" using fr(5) by simp
  show "m_packetNum (f @ rest) = packetNum Encrypted" by (rule fr(1))
  show pl: "payload_length (f @ rest) = int (length f) - 4" for rest
    using fr(2)[of rest] fr(5) by simp
  have "int (unat (m_dataSize f)) = int (length f)" using pl[of "[]"]
    by (simp add: payload_length_def sizeof_PacketHeader_def)
  then show "unat (m_dataSize f) = length f" using of_nat_eq_iff by blast
qed

lemma sealed_prefix:
  assumes "gcm_ok ssl" "sending_draw d" "unat (m_dataSize inner) \<le> length inner" "SendEncrypted ssl d key inner = SendBytes f"
  shows "GameSession_OnRecv ssl d' stack (f @ rest) c = GameSession_OnRecv ssl d' stack f c"
    "ServerSession_OnRecv ssl d' lm stack (f @ rest) c = ServerSession_OnRecv ssl d' lm stack f c"
proof -
  note fr = sealed_shape(1,2)[OF assms, of rest] sealed_shape(1,2)[OF assms, of "[]", unfolded append_Nil2] sealed_shape(3)[OF assms]
  have "drop 4 (f @ rest) = drop 4 f @ rest" using fr(5) by simp
  moreover have "nat (payload_length f) \<le> length (drop 4 f)" using fr(4,5) by simp
  ultimately have dec: "Decrypt ssl (d_ctx d') k (drop 4 (f @ rest)) (nat (payload_length f))
      = Decrypt ssl (d_ctx d') k (drop 4 f) (nat (payload_length f))" for k
    by (simp add: Decrypt_prefix)
  have num: "packetNum Encrypted \<noteq> packetNum Res_KeyExchange" "packetNum Encrypted \<noteq> packetNum Req_KeyExchange" by simp_all
  show "GameSession_OnRecv ssl d' stack (f @ rest) c = GameSession_OnRecv ssl d' stack f c"
    using fr dec num by (simp add: GameSession_OnRecv_def sizeof_PacketHeader_def Let_def del: packetNum.simps split: option.split)
  show "ServerSession_OnRecv ssl d' lm stack (f @ rest) c = ServerSession_OnRecv ssl d' lm stack f c"
    using fr dec num by (simp add: ServerSession_OnRecv_def sizeof_PacketHeader_def Let_def del: packetNum.simps split: option.split)
qed

section \<open>Handshake\<close>

text \<open>A key exchange packet, read back from the front of any memory.\<close>

lemma key_frame:
  assumes "length pub = 65" "69 \<le> length mem" "f = sent_bytes (PacketHeader_Init num 69 (overwrite 4 pub mem))"
  shows "m_packetNum (f @ rest) = num" "bytes_at 4 65 (f @ rest) = pub" "69 \<le> length (f @ rest)"
    "length f = 69" "unat (m_dataSize f) = 69"
proof -
  let ?m = "PacketHeader_Init num 69 (overwrite 4 pub mem)"
  have l: "length ?m = length mem" using assms by simp
  have f: "f = take 69 ?m" using assms by (simp add: sent_bytes_def)
  show "69 \<le> length (f @ rest)" "length f = 69" using l assms(2) f by simp_all
  show "unat (m_dataSize f) = 69" using header_of_prefix(2)[of 69 ?m "[]"] l assms(1,2) by (simp add: f)
  show "m_packetNum (f @ rest) = num" using header_of_prefix(1)[of 69 ?m rest] l assms(1,2) by (simp add: f)
  have "bytes_at 4 65 (f @ rest) = bytes_at 4 65 ?m" using l assms(2) by (simp only: f) (rule bytes_at_prefix, simp_all)
  also have "\<dots> = pub" using assms(1,2) by (simp add: PacketHeader_Init_def)
  finally show "bytes_at 4 65 (f @ rest) = pub" .
qed

lemma login_frame:
  assumes "size_of cls_ReqLogin \<le> length mem"
  shows "unat (m_dataSize (ReqLogin_Init u pw mem)) = 84" "length (ReqLogin_Init u pw mem) = length mem"
    "m_packetNum (ReqLogin_Init u pw mem) = packetNum Req_Login"
    "c_str (bytes_at 4 16 (ReqLogin_Init u pw mem)) = take 15 (c_str u)"
    "c_str (bytes_at 20 64 (ReqLogin_Init u pw mem)) = take 63 (c_str pw)"
  using assms by (simp_all add: ReqLogin_Init_def layout_defs m_packetNum_def m_dataSize_def PacketHeader_Init_def)

lemma OnConnected_request:
  assumes "ServerSession_OnConnected ssl d c = (SendBytes f, c')" "69 \<le> length (d_mem d)"
  obtains a pa where "c' = c\<lparr>m_myPrivKey := Some a\<rparr>" "pkey_pub ssl a = Some pa" "length pa = 65"
    "\<And>rest. m_packetNum (f @ rest) = packetNum Req_KeyExchange \<and> bytes_at 4 65 (f @ rest) = pa"
proof -
  obtain a pa where a: "d_key d = Some a" "GetPublicKeyBytes ssl a = Some pa" "c' = c\<lparr>m_myPrivKey := Some a\<rparr>"
    "f = sent_bytes (ReqKeyExchange_Init (overwrite 4 pa (d_mem d)))"
    using assms(1) by (auto simp: ServerSession_OnConnected_def Let_def layout_defs split: option.splits)
  then have pa: "pkey_pub ssl a = Some pa" "length pa = 65" by (auto simp: GetPublicKeyBytes_def split: option.splits if_splits)
  have f: "f = sent_bytes (PacketHeader_Init (packetNum Req_KeyExchange) 69 (overwrite 4 pa (d_mem d)))"
    using a(4) by (simp add: ReqKeyExchange_Init_def)
  show thesis using that[OF a(3) pa] key_frame[OF pa(2) assms(2) f] by blast
qed

lemma HandleKeyExchange_reply:
  assumes "HandleKeyExchange ssl d mem c = Inr (SendBytes f, c')" "69 \<le> length (d_mem d)"
  obtains b pb sec key where "pkey_pub ssl b = Some pb" "length pb = 65" "DeriveSharedSecret ssl b (bytes_at 4 65 mem) = Some sec"
    "DeriveSessionKey ssl sec = Some key" "c' = c\<lparr>m_myPrivKey := None, m_cipher := Some key, m_handshakeDone := True\<rparr>"
    "\<And>rest. m_packetNum (f @ rest) = packetNum Res_KeyExchange \<and> bytes_at 4 65 (f @ rest) = pb"
proof -
  obtain b pb sec key where b: "GetPublicKeyBytes ssl b = Some pb" "DeriveSharedSecret ssl b (bytes_at 4 65 mem) = Some sec"
    "DeriveSessionKey ssl sec = Some key" "c' = c\<lparr>m_myPrivKey := None, m_cipher := Some key, m_handshakeDone := True\<rparr>"
    "f = sent_bytes (ResKeyExchange_Init (overwrite 4 pb (d_mem d)))"
    using assms(1) by (auto simp: HandleKeyExchange_def Let_def layout_defs split: option.splits if_splits)
  then have pb: "pkey_pub ssl b = Some pb" "length pb = 65" by (auto simp: GetPublicKeyBytes_def split: option.splits if_splits)
  have f: "f = sent_bytes (PacketHeader_Init (packetNum Res_KeyExchange) 69 (overwrite 4 pb (d_mem d)))"
    using b(5) by (simp add: ResKeyExchange_Init_def)
  show thesis using that[OF pb b(2-4)] key_frame[OF pb(2) assms(2) f] by blast
qed

lemma HandleResKeyExchange_login:
  assumes "HandleResKeyExchange ssl d lm mem c = Inr (SendBytes f, c')"
  obtains a sec key where "m_myPrivKey c = Some a" "DeriveSharedSecret ssl a (bytes_at 4 65 mem) = Some sec"
    "DeriveSessionKey ssl sec = Some key" "c' = c\<lparr>m_myPrivKey := None, m_cipher := Some key, m_handshakeDone := True\<rparr>"
    "ServerSession_Send ssl d (ReqLogin_Init testuser testpass lm) c' = Inr (SendBytes f)"
proof -
  show thesis using assms that
    by (auto simp: HandleResKeyExchange_def Let_def layout_defs ServerSession_Send_def split: option.splits if_splits)
qed

lemma shared_secret_agrees:
  assumes "ecdh_ok ssl" "pkey_pub ssl a = Some pa" "pkey_pub ssl b = Some pb"
    and "DeriveSharedSecret ssl b pa = Some s1" "DeriveSharedSecret ssl a pb = Some s2"
  shows "s1 = s2"
proof -
  obtain ka kb where k: "pkey_import ssl pa = Some ka" "pkey_derive ssl b ka = Some s1"
    "pkey_import ssl pb = Some kb" "pkey_derive ssl a kb = Some s2"
    using assms(4,5) by (auto simp: DeriveSharedSecret_def split: option.splits if_splits)
  then have "pkey_derive ssl a kb = pkey_derive ssl b ka" using assms(1-3) unfolding ecdh_ok_def by blast
  then show ?thesis using k by simp
qed

text \<open>(C7) The handshake agrees on a key.  When the client's request, the server's reply and the client's first encrypted
  packet went through, both ends hold the same session key, neither keeps its private key, and the server's
  \<open>OnRecv\<close> hands on a login packet with the client's user name and password.\<close>

theorem handshake_agreement:
  assumes "ecdh_ok ssl" "gcm_ok ssl"
    and client1: "ServerSession_OnConnected ssl dc1 crypt0 = (SendBytes f1, cc1)" "69 \<le> length (d_mem dc1)"
    and server1: "GameSession_OnRecv ssl ds1 stack (f1 @ r1) crypt0 = Inr (SendBytes f2, cs)" "69 \<le> length (d_mem ds1)"
    and client2: "ServerSession_OnRecv ssl dc2 lm stack (f2 @ r2) cc1 = Inr (SendBytes f3, cc2)" "sending_draw dc2"
      "size_of cls_ReqLogin \<le> length lm"
    and "d_ctx ds2" "size_of cls_ReqLogin \<le> length stack"
  shows "\<exists>key login. m_cipher cs = Some key \<and> m_cipher cc2 = Some key \<and> m_handshakeDone cs \<and> m_handshakeDone cc2
    \<and> m_myPrivKey cs = None \<and> m_myPrivKey cc2 = None
    \<and> GameSession_OnRecv ssl ds2 stack (f3 @ r3) cs = Inr (Dispatch login, cs)
    \<and> m_packetNum login = packetNum Req_Login
    \<and> c_str (bytes_at 4 16 login) = testuser \<and> c_str (bytes_at 20 64 login) = testpass"
proof -
  obtain a pa where a: "cc1 = crypt0\<lparr>m_myPrivKey := Some a\<rparr>" "pkey_pub ssl a = Some pa"
    "\<And>rest. m_packetNum (f1 @ rest) = packetNum Req_KeyExchange \<and> bytes_at 4 65 (f1 @ rest) = pa"
    by (rule OnConnected_request[OF client1]) blast
  have s1: "HandleKeyExchange ssl ds1 (f1 @ r1) crypt0 = Inr (SendBytes f2, cs)"
    using server1(1) a(3)[of r1] by (simp add: GameSession_OnRecv_def crypt0_def)
  obtain b pb sec key where b: "pkey_pub ssl b = Some pb" "DeriveSharedSecret ssl b pa = Some sec"
    "DeriveSessionKey ssl sec = Some key" "cs = crypt0\<lparr>m_myPrivKey := None, m_cipher := Some key, m_handshakeDone := True\<rparr>"
    "\<And>rest. m_packetNum (f2 @ rest) = packetNum Res_KeyExchange \<and> bytes_at 4 65 (f2 @ rest) = pb"
    using HandleKeyExchange_reply[OF s1 server1(2)] a(3)[of r1] by metis
  have c2: "HandleResKeyExchange ssl dc2 lm (f2 @ r2) cc1 = Inr (SendBytes f3, cc2)"
    using client2(1) b(5)[of r2] by (simp add: ServerSession_OnRecv_def a(1) crypt0_def)
  obtain a' sec' key' where c: "m_myPrivKey cc1 = Some a'" "DeriveSharedSecret ssl a' pb = Some sec'"
    "DeriveSessionKey ssl sec' = Some key'" "cc2 = cc1\<lparr>m_myPrivKey := None, m_cipher := Some key', m_handshakeDone := True\<rparr>"
    "ServerSession_Send ssl dc2 (ReqLogin_Init testuser testpass lm) cc2 = Inr (SendBytes f3)"
    using HandleResKeyExchange_login[OF c2] b(5)[of r2] by metis
  have "a' = a" using c(1) a(1) by simp
  then have "key' = key" using shared_secret_agrees[OF assms(1) a(2) b(1,2)] c(2,3) b(3) by simp
  let ?l = "ReqLogin_Init testuser testpass lm"
  let ?buf = "overwrite 0 (sent_bytes ?l) stack"
  note lf = login_frame[OF client2(3), of testuser testpass]
  have recv: "GameSession_OnRecv ssl ds2 stack (f3 @ r3) cs = Inr (Dispatch ?buf, cs)"
    using channel_delivers[OF assms(2) client2(2) \<open>d_ctx ds2\<close>, of cc2 key cs ?l f3 lm stack r3] c(4,5) b(4) \<open>key' = key\<close> lf client2(3)
    by simp
  have "bytes_at i n ?buf = bytes_at i n ?l" if "i + n \<le> 84" for i n
  proof -
    have "?buf = take 84 ?l @ drop 84 stack" using lf client2(3) by (simp add: sent_bytes_def overwrite_def)
    then show ?thesis using bytes_at_prefix[of i n 84 ?l] that lf(2) client2(3) by simp
  qed
  then have "m_packetNum ?buf = packetNum Req_Login" "c_str (bytes_at 4 16 ?buf) = testuser" "c_str (bytes_at 20 64 ?buf) = testpass"
    using lf by (simp_all add: m_packetNum_def testuser_def testpass_def c_str_def)
  then show ?thesis using recv b(4) c(4) \<open>key' = key\<close> by auto
qed

section \<open>The gate in front of the handlers\<close>

text \<open>(C31) Nothing reaches a packet handler unless it was sealed under the session key.  When \<open>OnRecv\<close> hands a packet on,
  the handshake is over, the packet is an encrypted one of admissible size, its payload is what sealing some
  plaintext under the session's key gives, and the handler gets that plaintext at the front of the stack buffer.\<close>

theorem OnRecv_gate:
  assumes "gcm_authentic ssl" "GameSession_OnRecv ssl d stack mem c = Inr (Dispatch buf, c')"
  shows "m_handshakeDone c \<and> c' = c \<and> m_packetNum mem = packetNum Encrypted
    \<and> 28 \<le> payload_length mem \<and> payload_length mem \<le> int MAX_PLAIN_PACKET_SIZE + 28
    \<and> (\<exists>key plain. m_cipher c = Some key \<and> buf = overwrite 0 plain stack
        \<and> gcm_seal ssl key (bytes_at 4 12 mem) plain = Some (bytes_at 16 (nat (payload_length mem) - 28) mem,
            bytes_at (16 + (nat (payload_length mem) - 28)) 16 mem))"
proof -
  have hk: "HandleKeyExchange ssl d mem c \<noteq> Inr (Dispatch buf, c')"
    by (auto simp: HandleKeyExchange_def Let_def split: option.splits)
  then have hs: "m_handshakeDone c" "m_packetNum mem = packetNum Encrypted"
    "28 \<le> payload_length mem" "payload_length mem \<le> int MAX_PLAIN_PACKET_SIZE + 28"
    using assms(2) by (auto simp: GameSession_OnRecv_def Let_def split: if_splits)
  then obtain key plain where k: "m_cipher c = Some key" "c' = c" "buf = overwrite 0 plain stack"
    "Decrypt ssl (d_ctx d) key (drop 4 mem) (nat (payload_length mem)) = Some plain"
    using assms(2) by (auto simp: GameSession_OnRecv_def Let_def sizeof_PacketHeader_def split: option.splits if_splits)
  then have "gcm_open ssl key (bytes_at 4 12 mem) (bytes_at 16 (nat (payload_length mem) - 28) mem)
      (bytes_at (16 + (nat (payload_length mem) - 28)) 16 mem) = Some plain"
    by (auto simp: Decrypt_def Let_def bytes_at_def add.commute add.left_commute split: if_splits)
  then show ?thesis using hs k assms(1) by (auto simp: gcm_authentic_def)
qed

text \<open>(C35) An empty plaintext passes the gate.  A payload of exactly 28 bytes is a valid packet with no plaintext: the
  size check admits it, decryption succeeds with nothing written, and the handler table is consulted with whatever
  the stack held, a packet number included.\<close>

theorem empty_plaintext_dispatches_stack:
  assumes "gcm_ok ssl" "gcm_seal ssl key nonce [] = Some ([], tag)" "length nonce = 12"
    and "m_handshakeDone c" "m_cipher c = Some key" "d_ctx d"
  shows "GameSession_OnRecv ssl d stack (PacketHeader_Init (packetNum Encrypted) 32 [0, 0, 0, 0] @ nonce @ tag @ rest) c
    = Inr (Dispatch stack, c)"
proof -
  let ?mem = "PacketHeader_Init (packetNum Encrypted) 32 [0, 0, 0, 0] @ nonce @ tag @ rest"
  have tag: "length tag = 16" "gcm_open ssl key nonce [] tag = Some []" using assms(1,2) by (auto simp: gcm_ok_def)
  have hdr: "m_packetNum ?mem = packetNum Encrypted" "m_dataSize ?mem = 32"
    using header_of_prefix[of 4 "PacketHeader_Init (packetNum Encrypted) 32 [0, 0, 0, 0]" "nonce @ tag @ rest"] by simp_all
  have "drop 4 ?mem = nonce @ tag @ rest" using drop_header_Init[of "[0, 0, 0, 0]" "packetNum Encrypted" 32 "[]"] by simp
  then have "Decrypt ssl True key (drop 4 ?mem) 28 = Some []"
    using tag assms(3) by (simp add: Decrypt_def Let_def bytes_at_def)
  then show ?thesis using hdr assms(4-6)
    by (simp add: GameSession_OnRecv_def payload_length_def sizeof_PacketHeader_def Let_def MAX_PLAIN_PACKET_SIZE_def overwrite_def
        del: packetNum.simps)
qed

section \<open>A concrete exchange\<close>

definition toy_draw :: "byte \<Rightarrow> byte draw" where
  "toy_draw k = \<lparr>d_key = Some k, d_rnd = Some (replicate 12 k), d_ctx = True, d_mem = replicate 1312 0\<rparr>"

definition toy_crypt :: "byte crypt" where
  "toy_crypt = \<lparr>m_cipher = Some (replicate 16 9), m_handshakeDone = True, m_myPrivKey = None\<rparr>"

lemma toy_draw_ok: "sending_draw (toy_draw k)" "d_ctx (toy_draw k)" "69 \<le> length (d_mem (toy_draw k))"
  by (simp_all add: sending_draw_def toy_draw_def)

definition toy_packet :: "byte list" where
  "toy_packet = ReqRoomEnter_Init (replicate 10 1)"

lemma toy_OnConnected:
  "\<exists>f. ServerSession_OnConnected toy_ssl (toy_draw k) crypt0 = (SendBytes f, crypt0\<lparr>m_myPrivKey := Some k\<rparr>)"
  by (simp add: ServerSession_OnConnected_def toy_draw_def GetPublicKeyBytes_def toy_ssl_def Let_def)

lemma toy_HandleKeyExchange:
  "69 \<le> length mem \<Longrightarrow> \<exists>f c'. HandleKeyExchange toy_ssl (toy_draw k) mem crypt0 = Inr (SendBytes f, c')"
  by (simp add: HandleKeyExchange_def DeriveSharedSecret_def DeriveSessionKey_def GetPublicKeyBytes_def
      toy_ssl_def toy_draw_def layout_defs Let_def)

lemma toy_login:
  assumes "69 \<le> length mem" "m_myPrivKey c = Some a"
  shows "\<exists>f c'. HandleResKeyExchange toy_ssl (toy_draw k) (replicate 84 0) mem c = Inr (SendBytes f, c')"
proof -
  have "unat (m_dataSize (ReqLogin_Init testuser testpass (replicate 84 0))) = 84" by (rule login_frame) simp
  then show ?thesis using assms
    by (simp add: HandleResKeyExchange_def DeriveSharedSecret_def DeriveSessionKey_def ServerSession_Send_def SendEncrypted_def
        Encrypt_def toy_ssl_def toy_draw_def layout_defs Let_def)
qed

theorem handshake_agreement_witness:
  "\<exists>f1 cc1 f2 cs f3 cc2 key.
     ServerSession_OnConnected toy_ssl (toy_draw 3) crypt0 = (SendBytes f1, cc1)
   \<and> GameSession_OnRecv toy_ssl (toy_draw 5) (replicate 1280 7) f1 crypt0 = Inr (SendBytes f2, cs)
   \<and> ServerSession_OnRecv toy_ssl (toy_draw 8) (replicate 84 0) (replicate 1280 7) f2 cc1 = Inr (SendBytes f3, cc2)
   \<and> m_cipher cs = Some key \<and> m_cipher cc2 = Some key"
proof -
  let ?st = "replicate 1280 7 :: byte list"
  obtain f1 where c1: "ServerSession_OnConnected toy_ssl (toy_draw 3) crypt0 = (SendBytes f1, crypt0\<lparr>m_myPrivKey := Some 3\<rparr>)"
    using toy_OnConnected by blast
  obtain pa where f1: "m_packetNum (f1 @ []) = packetNum Req_KeyExchange" "bytes_at 4 65 (f1 @ []) = pa" "length pa = 65"
    by (rule OnConnected_request[OF c1 toy_draw_ok(3)]) blast
  then have "69 \<le> length f1" by (auto simp: bytes_at_def min_def split: if_splits)
  then obtain f2 cs where k: "HandleKeyExchange toy_ssl (toy_draw 5) f1 crypt0 = Inr (SendBytes f2, cs)"
    using toy_HandleKeyExchange by blast
  then have s1: "GameSession_OnRecv toy_ssl (toy_draw 5) ?st (f1 @ []) crypt0 = Inr (SendBytes f2, cs)"
    using f1 by (simp add: GameSession_OnRecv_def crypt0_def)
  obtain pb where f2: "m_packetNum (f2 @ []) = packetNum Res_KeyExchange" "bytes_at 4 65 (f2 @ []) = pb" "length pb = 65"
    by (rule HandleKeyExchange_reply[OF k toy_draw_ok(3)]) blast
  then have "69 \<le> length f2" by (auto simp: bytes_at_def min_def split: if_splits)
  then obtain f3 cc2 where "HandleResKeyExchange toy_ssl (toy_draw 8) (replicate 84 0) f2 (crypt0\<lparr>m_myPrivKey := Some 3\<rparr>) = Inr (SendBytes f3, cc2)"
    using toy_login[of f2 "crypt0\<lparr>m_myPrivKey := Some 3\<rparr>" 3 8] by auto
  then have c2: "ServerSession_OnRecv toy_ssl (toy_draw 8) (replicate 84 0) ?st (f2 @ []) (crypt0\<lparr>m_myPrivKey := Some 3\<rparr>) = Inr (SendBytes f3, cc2)"
    using f2 by (simp add: ServerSession_OnRecv_def crypt0_def)
  show ?thesis
    using handshake_agreement[OF toy_ssl_ok(5,1) c1 toy_draw_ok(3) s1 toy_draw_ok(3) c2 toy_draw_ok(1) _ toy_draw_ok(2)] c1 s1 c2
    by fastforce
qed

theorem OnRecv_gate_witness:
  "\<exists>f buf. GameSession_Send toy_ssl (toy_draw 3) toy_packet toy_crypt = Inr (SendBytes f)
     \<and> GameSession_OnRecv toy_ssl (toy_draw 5) (replicate 10 7) f toy_crypt = Inr (Dispatch buf, toy_crypt)
     \<and> 28 \<le> payload_length f \<and> m_packetNum f = packetNum Encrypted"
proof -
  have sz: "unat (m_dataSize toy_packet) = 4" "length toy_packet = 10"
    by (simp_all add: toy_packet_def ReqRoomEnter_Init_def layout_defs)
  obtain f where f: "SendEncrypted toy_ssl (toy_draw 3) (replicate 16 9) toy_packet = SendBytes f"
    using sz by (simp add: SendEncrypted_def Encrypt_def toy_ssl_def toy_draw_def MAX_PLAIN_PACKET_SIZE_def Let_def)
  have d: "d_rnd (toy_draw 3) = Some (replicate 12 3)" "length (replicate 12 3 :: byte list) = 12"
    "length (d_mem (toy_draw 3)) = size_of cls_EncryptedPacket" "unat (m_dataSize toy_packet) \<le> length toy_packet"
    using sz by (simp_all add: toy_draw_def)
  note fr = SendEncrypted_frame(1,2,4)[OF toy_ssl_ok(1) d f, where rest = "[]", unfolded sz append_Nil2]
  then have "payload_length f = 32" "Decrypt toy_ssl True (replicate 16 9) (drop 4 f) 32 = Some (sent_bytes toy_packet)" by simp_all
  with fr(1) have "GameSession_OnRecv toy_ssl (toy_draw 5) (replicate 10 7) f toy_crypt
      = Inr (Dispatch (overwrite 0 (sent_bytes toy_packet) (replicate 10 7)), toy_crypt)"
    by (simp add: GameSession_OnRecv_def toy_crypt_def toy_draw_def sizeof_PacketHeader_def MAX_PLAIN_PACKET_SIZE_def
        del: packetNum.simps)
  from OnRecv_gate[OF toy_ssl_ok(2) this] this show ?thesis using f by (auto simp: GameSession_Send_def toy_crypt_def)
qed

theorem empty_plaintext_dispatches_stack_witness:
  "GameSession_OnRecv toy_ssl (toy_draw 5) [60, 0, 4, 0]
     (PacketHeader_Init (packetNum Encrypted) 32 [0, 0, 0, 0] @ replicate 12 0 @ replicate 16 144 @ []) toy_crypt
   = Inr (Dispatch [60, 0, 4, 0], toy_crypt)"
  by (rule empty_plaintext_dispatches_stack[OF toy_ssl_ok(1), of "replicate 16 9"])
    (simp_all add: toy_ssl_def toy_crypt_def toy_draw_def sum_list_replicate)

end
