(* ===== verification/Db.thy ===== *)
theory Db
  imports Crypto Interfaces
begin

text \<open>
  The database side of the server: \<^verbatim>\<open>DbConnectionPool\<close>, \<^verbatim>\<open>DbConnection\<close>, \<^verbatim>\<open>DbSystem\<close> and
  \<^verbatim>\<open>AccountRepository\<close>.  The MySQL client library is a parameter: \<open>mysql_init\<close> and \<open>mysql_connect\<close> say
  which attempts succeed, \<open>account_query\<close> answers the prepared statement.  A connection handle is a number.
  The methods of the pool hold its write lock and those of the system its mutex, so each is one step.
\<close>

section \<open>The library parameter\<close>

text \<open>The outcome of preparing, binding and executing the account query: one of the calls failed, no row, or a row of
  id, hash and salt columns.\<close>

datatype query_result = QueryFailed | NoRow | Row uint64 "byte list" "byte list"

record mysql =
  mysql_init :: "nat \<Rightarrow> bool"
  mysql_connect :: "nat \<Rightarrow> nat \<Rightarrow> bool"
  account_query :: "nat \<Rightarrow> byte list \<Rightarrow> query_result"

section \<open>DbConnectionPool\<close>

text \<open>\<open>lent\<close> lists the connections borrowers hold; the code does not keep it.\<close>

record DbConnectionPool =
  connections :: "nat list"
  poolSize :: int
  lent :: "nat list"

definition DbConnectionPool0 :: DbConnectionPool where
  "DbConnectionPool0 = \<lparr>connections = [], poolSize = 0, lent = []\<rparr>"

text \<open>Three attempts for connection \<open>i\<close>.\<close>

definition try_connect :: "mysql \<Rightarrow> nat \<Rightarrow> bool" where
  "try_connect db i = list_ex (mysql_connect db i) [0, 1, 2]"

fun pool_Init_loop :: "mysql \<Rightarrow> nat list \<Rightarrow> DbConnectionPool \<Rightarrow> DbConnectionPool" where
  "pool_Init_loop db [] p = p"
| "pool_Init_loop db (i # is) p =
     (if \<not> mysql_init db i then pool_Init_loop db is p
      else if \<not> try_connect db i then pool_Init_loop db is p
      else pool_Init_loop db is (p\<lparr>connections := connections p @ [i], poolSize := poolSize p + 1\<rparr>))"

definition DbConnectionPool_Init :: "mysql \<Rightarrow> int \<Rightarrow> DbConnectionPool \<Rightarrow> bool \<times> DbConnectionPool" where
  "DbConnectionPool_Init db n p = (let p' = pool_Init_loop db [0..<nat n] p in (poolSize p' > 0, p'))"

definition DbConnectionPool_Shutdown :: "DbConnectionPool \<Rightarrow> DbConnectionPool" where
  "DbConnectionPool_Shutdown p = p\<lparr>connections := [], poolSize := 0\<rparr>"

definition Acquire_conn :: "DbConnectionPool \<Rightarrow> nat option \<times> DbConnectionPool" where
  "Acquire_conn p = (case connections p of
     [] \<Rightarrow> (None, p) | c # cs \<Rightarrow> (Some c, p\<lparr>connections := cs, lent := c # lent p\<rparr>))"

definition Release_conn :: "nat option \<Rightarrow> DbConnectionPool \<Rightarrow> DbConnectionPool" where
  "Release_conn conn p = (case conn of
     None \<Rightarrow> p | Some c \<Rightarrow> p\<lparr>connections := connections p @ [c], lent := remove1 c (lent p)\<rparr>)"

definition IsReady :: "DbConnectionPool \<Rightarrow> bool" where
  "IsReady p \<longleftrightarrow> poolSize p > 0"

text \<open>\<^verbatim>\<open>DbConnection\<close>: acquire in the constructor, release in the destructor, around the work of the scope.\<close>

definition with_DbConnection :: "(nat option \<Rightarrow> 'a) \<Rightarrow> DbConnectionPool \<Rightarrow> 'a \<times> DbConnectionPool" where
  "with_DbConnection f p = (let (conn, p1) = Acquire_conn p; r = f conn in (r, Release_conn conn p1))"

section \<open>AccountRepository\<close>

text \<open>A fetch reports truncation (a result other than 0) when a column is longer than its buffer.\<close>

definition fetchResult :: "query_result \<Rightarrow> int" where
  "fetchResult r = (case r of Row _ hash salt \<Rightarrow> if length hash > 64 \<or> length salt > 32 then 101 else 0 | _ \<Rightarrow> 100)"

definition Authenticate :: "'k openssl \<Rightarrow> mysql \<Rightarrow> nat option \<Rightarrow> byte list \<Rightarrow> byte list \<Rightarrow> (uint64 \<times> byte list) option" where
  "Authenticate ssl db conn username password = (case conn of
       None \<Rightarrow> None
     | Some c \<Rightarrow> (case account_query db c username of
         QueryFailed \<Rightarrow> None
       | r \<Rightarrow> if fetchResult r \<noteq> 0 then None
              else (case r of
                Row i hash salt \<Rightarrow> if VerifyPassword ssl password (c_str hash) (c_str salt) then Some (i, username) else None
              | _ \<Rightarrow> None)))"

section \<open>DbSystem\<close>

record 'task DbSystem =
  db_pool :: DbConnectionPool
  db_threads :: int
  db_tasks :: "'task list"
  db_running :: bool

definition DbSystem0 :: "'task DbSystem" where
  "DbSystem0 = \<lparr>db_pool = DbConnectionPool0, db_threads = 0, db_tasks = [], db_running = False\<rparr>"

definition DbSystem_Init :: "mysql \<Rightarrow> int \<Rightarrow> 'task DbSystem \<Rightarrow> bool \<times> 'task DbSystem" where
  "DbSystem_Init db dbPoolSize s =
     (let (poolReady, p) = DbConnectionPool_Init db dbPoolSize (db_pool s);
          threadCount = (if IsReady p then dbPoolSize else 0)
      in (poolReady, s\<lparr>db_pool := p, db_running := True, db_threads := max 0 threadCount\<rparr>))"

definition DbSystem_Execute :: "'task \<Rightarrow> 'task DbSystem \<Rightarrow> 'task DbSystem" where
  "DbSystem_Execute task s = (if \<not> db_running s then s else s\<lparr>db_tasks := db_tasks s @ [task]\<rparr>)"

text \<open>One turn of a worker: it needs a worker thread and a task; the task may use the system.  A worker ends
  only when the system was shut down and no task is left.\<close>

definition WorkerThread :: "('task \<Rightarrow> 'task DbSystem \<Rightarrow> 'r \<times> 'task DbSystem) \<Rightarrow> 'task DbSystem \<Rightarrow> ('r \<times> 'task DbSystem) option" where
  "WorkerThread run s = (if db_threads s \<le> 0 then None
     else case db_tasks s of [] \<Rightarrow> None | t # ts \<Rightarrow> Some (run t (s\<lparr>db_tasks := ts\<rparr>)))"

text \<open>Shutting down drains the queue before the workers end, and closes the pool.\<close>

fun drain :: "('task \<Rightarrow> 'task DbSystem \<Rightarrow> 'r \<times> 'task DbSystem) \<Rightarrow> 'task list \<Rightarrow> 'task DbSystem \<Rightarrow> 'r list \<times> 'task DbSystem" where
  "drain run [] s = ([], s)"
| "drain run (t # ts) s = (let (r, s1) = run t s; (rs, s2) = drain run ts s1 in (r # rs, s2))"

definition DbSystem_Shutdown :: "('task \<Rightarrow> 'task DbSystem \<Rightarrow> 'r \<times> 'task DbSystem) \<Rightarrow> 'task DbSystem \<Rightarrow> 'r list \<times> 'task DbSystem" where
  "DbSystem_Shutdown run s =
     (let (rs, s1) = (if db_threads s > 0 then drain run (db_tasks s) (s\<lparr>db_running := False, db_tasks := []\<rparr>)
                      else ([], s\<lparr>db_running := False\<rparr>))
      in (rs, s1\<lparr>db_threads := 0, db_pool := DbConnectionPool_Shutdown (db_pool s1)\<rparr>))"

section \<open>Borrowing connections\<close>

definition conn_inv :: "DbConnectionPool \<Rightarrow> bool" where
  "conn_inv p \<longleftrightarrow> distinct (connections p @ lent p) \<and> poolSize p = int (length (connections p) + length (lent p))"

abbreviation conn_alloc :: "unit \<Rightarrow> DbConnectionPool \<Rightarrow> (nat option \<times> DbConnectionPool) outcome" where
  "conn_alloc \<equiv> \<lambda>_ p. Inr (Acquire_conn p)"

abbreviation conn_release :: "nat \<Rightarrow> DbConnectionPool \<Rightarrow> DbConnectionPool outcome" where
  "conn_release \<equiv> \<lambda>c p. Inr (Release_conn (Some c) p)"

interpretation conns: run_allocator conn_inv "\<lambda>p. set (lent p)" "\<lambda>p c. {c}" conn_alloc conn_release
proof
  fix p and q :: unit assume "conn_inv p"
  then show "\<exists>r p'. Inr (Acquire_conn p) = Inr (r, p') \<and> conn_inv p'"
    by (auto simp: Acquire_conn_def conn_inv_def split: list.split)
next
  fix p and q :: unit and p' assume "conn_inv p" "Inr (Acquire_conn p) = Inr (None, p')"
  then show "p' = p" by (auto simp: Acquire_conn_def split: list.splits)
next
  fix p and q :: unit and c p' assume "conn_inv p" "Inr (Acquire_conn p) = Inr (Some c, p')"
  then show "c \<notin> set (lent p) \<and> set (lent p') = insert c (set (lent p)) \<and> (\<forall>j \<in> set (lent p). {j} = {j})"
    by (auto simp: Acquire_conn_def conn_inv_def split: list.splits)
next
  fix p c assume p: "conn_inv p" "c \<in> set (lent p)"
  have "length (lent p) = length (remove1 c (lent p)) + 1"
    using p(2) length_pos_if_in_set[OF p(2)] by (simp add: length_remove1)
  then show "\<exists>p'. Inr (Release_conn (Some c) p) = Inr p' \<and> conn_inv p' \<and> set (lent p') = set (lent p) - {c}
      \<and> (\<forall>j \<in> set (lent p'). {j} = {j})"
    using p by (auto simp: Release_conn_def conn_inv_def)
qed simp

lemma pool_Init_loop_eq:
  "pool_Init_loop db is p = p\<lparr>connections := connections p @ filter (\<lambda>i. mysql_init db i \<and> try_connect db i) is,
     poolSize := poolSize p + int (length (filter (\<lambda>i. mysql_init db i \<and> try_connect db i) is))\<rparr>"
  by (induction db "is" p rule: pool_Init_loop.induct) auto

lemma Init_conn_inv: "conn_inv (snd (DbConnectionPool_Init db n DbConnectionPool0))"
  by (simp add: DbConnectionPool_Init_def DbConnectionPool0_def pool_Init_loop_eq conn_inv_def Let_def)

lemma db_pool_serves:
  "\<exists>p. serve conn_alloc conn_release (\<lambda>p. set (lent p)) rs (snd (DbConnectionPool_Init db n DbConnectionPool0)) = Inr p \<and> conn_inv p"
  by (rule conns.serve_inv[OF Init_conn_inv])

section \<open>Accounts\<close>

lemma HEX_CHARS_not_nul: "n < 16 \<Longrightarrow> HEX_CHARS ! n \<noteq> 0"
  using hexVal_HEX_CHARS[of n] by (auto simp: hexVal_def)

lemma BytesToHex_c_str: "c_str (BytesToHex bs) = BytesToHex bs"
proof (rule c_str_id)
  have "unat (and (b::byte) 0xF) < 16" "unat (and (drop_bit 4 (b::byte)) 0xF) < 16" for b
  proof -
    have "unat b < 256" using unsigned_less[of b, where 'a = nat] by simp
    then show "unat (and b 0xF) < 16" "unat (and (drop_bit 4 b) 0xF) < 16" unfolding unat_nibbles by auto
  qed
  then show "0 \<notin> set (BytesToHex bs)" using HEX_CHARS_not_nul by (auto simp: BytesToHex_def dest!: sym[of 0])
qed

lemma authenticate_registered:
  assumes "pbkdf2_ok ssl" "length salt = SALT_BYTES" "HashPassword ssl (Some salt) password = Some (h, s)"
    and row: "account_query db c username = Row i h s"
  shows "Authenticate ssl db (Some c) username attempt =
        (if pbkdf2 ssl attempt salt PBKDF2_ITERATIONS HASH_BYTES = pbkdf2 ssl password salt PBKDF2_ITERATIONS HASH_BYTES
         then Some (i, username) else None)"
proof -
  obtain d where d: "pbkdf2 ssl password salt PBKDF2_ITERATIONS HASH_BYTES = Some d" "h = BytesToHex d" "s = BytesToHex salt"
    using assms(3) by (auto simp: HashPassword_def split: option.splits)
  then have l: "length d = HASH_BYTES" using assms(1) by (auto simp: pbkdf2_ok_def)
  have verify: "VerifyPassword ssl x h s \<longleftrightarrow> pbkdf2 ssl x salt PBKDF2_ITERATIONS HASH_BYTES = Some d" for x
    using d l assms(2) by (auto simp: VerifyPassword_def HexToBytes_BytesToHex split: option.split)
  have "length h = 64" "length s = 32" using d l assms(2) by (simp_all add: HASH_BYTES_def SALT_BYTES_def)
  then have "Authenticate ssl db (Some c) username x = (if VerifyPassword ssl x h s then Some (i, username) else None)" for x
    using row d by (simp add: Authenticate_def fetchResult_def BytesToHex_c_str)
  then show ?thesis using verify d(1) by (simp add: Authenticate_def)
qed

definition toy_mysql :: "byte list \<Rightarrow> byte list \<Rightarrow> mysql" where
  "toy_mysql h s = \<lparr>mysql_init = (\<lambda>_. True), mysql_connect = (\<lambda>i r. i = 0),
     account_query = (\<lambda>c u. if u = [98, 111, 98, 98] then Row 5 h s else NoRow)\<rparr>"

section \<open>Starting without a database\<close>

lemma fold_Execute: "db_running s \<Longrightarrow> fold DbSystem_Execute ts s = s\<lparr>db_tasks := db_tasks s @ ts\<rparr>"
  by (induction ts arbitrary: s) (auto simp: DbSystem_Execute_def)

text \<open>Without a database a login is never answered.  When no connection can be made, \<open>Init\<close> reports that, yet the
  system runs with no worker thread: every task handed to \<open>Execute\<close> is queued, no worker can take it, and
  shutting down runs none of them.  The warning the code logs there promises a rejection.\<close>

lemma no_database_no_answer:
  fixes ts :: "'task list"
  assumes "\<And>i. \<not> (mysql_init db i \<and> try_connect db i)"
  shows "let s = fold DbSystem_Execute ts (snd (DbSystem_Init db n DbSystem0))
         in fst (DbSystem_Init db n (DbSystem0 :: 'task DbSystem)) = False
          \<and> db_running s \<and> db_tasks s = ts \<and> WorkerThread run s = None \<and> fst (DbSystem_Shutdown run s) = []"
proof -
  have i: "DbSystem_Init db n (DbSystem0 :: 'task DbSystem)
      = (False, DbSystem0\<lparr>db_pool := DbConnectionPool0, db_running := True, db_threads := 0\<rparr>)"
    using assms by (simp add: DbSystem_Init_def DbConnectionPool_Init_def pool_Init_loop_eq DbSystem0_def DbConnectionPool0_def
        IsReady_def Let_def)
  show ?thesis by (simp add: Let_def i fold_Execute WorkerThread_def DbSystem_Shutdown_def) (simp add: DbSystem0_def)
qed

definition no_mysql :: mysql where
  "no_mysql = \<lparr>mysql_init = (\<lambda>_. True), mysql_connect = (\<lambda>_ _. False), account_query = (\<lambda>_ _. NoRow)\<rparr>"

lemma no_database_no_answer_witness:
  "db_tasks (fold DbSystem_Execute [7, 8] (snd (DbSystem_Init no_mysql 4 (DbSystem0 :: nat DbSystem)))) = [7, 8]
   \<and> WorkerThread (\<lambda>t s. (t, s)) (fold DbSystem_Execute [7, 8] (snd (DbSystem_Init no_mysql 4 (DbSystem0 :: nat DbSystem)))) = None"
proof -
  have "\<not> (mysql_init no_mysql i \<and> try_connect no_mysql i)" for i by (simp add: no_mysql_def try_connect_def)
  from no_database_no_answer[OF this, of "[7, 8 :: nat]" 4 "\<lambda>t s. (t, s)"] show ?thesis unfolding Let_def by blast
qed

text \<open>Fewer connections than workers: the thread count is the configured pool size, not the number of connections made.\<close>

lemma more_workers_than_connections:
  "\<exists>s. DbSystem_Init (toy_mysql [] []) 2 (DbSystem0 :: nat DbSystem) = (True, s) \<and> db_threads s = 2
     \<and> connections (db_pool s) = [0] \<and> fst (Acquire_conn (snd (Acquire_conn (db_pool s)))) = None"
  by (simp add: DbSystem_Init_def DbConnectionPool_Init_def pool_Init_loop_eq DbSystem0_def DbConnectionPool0_def IsReady_def
      Let_def toy_mysql_def try_connect_def Acquire_conn_def upt_rec)

end
