(* ===== verification/PacketHandler.thy ===== *)
theory PacketHandler
  imports Prelude
begin

text \<open>\<^verbatim>\<open>ServerCore/Handler.h\<close>: the table from packet numbers to handlers, a \<^verbatim>\<open>std::map\<close>.\<close>

type_synonym 'h handlers = "(int \<times> 'h) list"

definition Register :: "int \<Rightarrow> 'h \<Rightarrow> 'h handlers \<Rightarrow> bool \<times> 'h handlers" where
  "Register packetNum h packetList = try_emplace packetNum h packetList"

text \<open>\<open>call\<close> runs a handler, \<open>unknown\<close> is the result for a number nobody registered.\<close>

definition Process :: "int \<Rightarrow> ('h \<Rightarrow> 'a) \<Rightarrow> 'a \<Rightarrow> 'h handlers \<Rightarrow> 'a" where
  "Process packetNum call unknown packetList =
     (case map_of packetList packetNum of None \<Rightarrow> unknown | Some h \<Rightarrow> call h)"

definition register_all :: "(int \<times> 'h) list \<Rightarrow> 'h handlers \<Rightarrow> 'h handlers" where
  "register_all rs t = fold (\<lambda>(n, h) t. snd (Register n h t)) rs t"

lemma map_of_insert: "map_of (map_insert k v m) j = (if j = k then Some v else map_of m j)"
  by (induction k v m rule: map_insert.induct) auto

lemma map_of_Register: "map_of (snd (Register n h t)) j = (if j = n \<and> map_of t n = None then Some h else map_of t j)"
  by (auto simp: Register_def try_emplace_def map_has_def map_of_insert)

text \<open>The first registration of a number stays.\<close>

lemma map_of_register_all:
  "map_of (register_all rs t) j = (case map_of t j of Some h \<Rightarrow> Some h | None \<Rightarrow> map_of rs j)"
proof (induction rs arbitrary: t)
  case (Cons r rs)
  have "register_all (r # rs) t = register_all rs (snd (Register (fst r) (snd r) t))"
    by (simp add: register_all_def case_prod_beta)
  then show ?case using Cons[of "snd (Register (fst r) (snd r) t)"]
    by (cases r) (auto simp: map_of_Register split: option.splits)
qed (simp add: register_all_def split: option.split)

end
