(* ===== verification/Server.thy ===== *)
theory Server
  imports WorldProps SecureSession Db PacketHandler JobQueue
begin

text \<open>
  The game server put together: \<^verbatim>\<open>GameServer\<close>'s handler table, the handlers that are not part of the world
  (\<^verbatim>\<open>LoginController\<close>, \<^verbatim>\<open>TestController\<close>), the whole of \<^verbatim>\<open>GameSession::OnRecv\<close>, and the database task a
  login queues.
\<close>

section \<open>State\<close>

type_synonym login_request = "nat \<times> byte list \<times> byte list"

record 'k server =
  sv_world :: world
  sv_db :: "login_request DbSystem option"
  sv_crypt :: "nat \<Rightarrow> 'k crypt"
  sv_wire :: "(nat \<times> byte list) list"

section \<open>Handlers\<close>

definition test_text :: "byte list" where
  "test_text = map (\<lambda>c. of_nat (of_char c)) ''Test(Server)''"

definition HandleTestPacket :: "byte list \<Rightarrow> nat \<Rightarrow> world \<Rightarrow> bool \<times> world" where
  "HandleTestPacket mem s w = (True, send_to s (Msg_Test test_text) w)"

text \<open>The two fields are copied into buffers one byte longer, so a field without a terminator is taken whole.\<close>

definition HandleReqLoginPacket :: "byte list \<Rightarrow> nat \<Rightarrow> 'k server \<Rightarrow> bool \<times> 'k server" where
  "HandleReqLoginPacket mem s sv =
     (let usernameStr = c_str (bytes_at (offset cls_ReqLogin 0) 16 mem);
          passwordStr = c_str (bytes_at (offset cls_ReqLogin 1) 64 mem);
          uLen = length usernameStr; pLen = length passwordStr;
          failed = sv\<lparr>sv_world := send_to s Msg_ResLoginFailed (sv_world sv)\<rparr>
      in if uLen < 4 \<or> uLen > 16 \<or> pLen < 8 \<or> pLen > 64 then (True, failed)
         else case sv_db sv of
           None \<Rightarrow> (True, failed)
         | Some dbs \<Rightarrow> (True, sv\<lparr>sv_db := Some (DbSystem_Execute (s, usernameStr, passwordStr) dbs)\<rparr>))"

text \<open>The task itself: authenticate over a pooled connection, then hand the result to the session.  A database worker
  runs no job queue, so \<^verbatim>\<open>PushGlobalQueue\<close> runs the job at once on the worker (lemma \<open>PushGlobalQueue_placement\<close>).\<close>

definition login_task :: "'k openssl \<Rightarrow> mysql \<Rightarrow> login_request \<Rightarrow> login_request DbSystem \<Rightarrow> (world \<Rightarrow> world) \<times> login_request DbSystem" where
  "login_task ssl db t dbs =
     (let (s, u, pw) = t;
          (r, p) = with_DbConnection (\<lambda>conn. Authenticate ssl db conn u pw) (db_pool dbs)
      in (case r of Some (accountId, playerName) \<Rightarrow> OnLoginResult True accountId playerName s
                  | None \<Rightarrow> OnLoginResult False 0 [] s, dbs\<lparr>db_pool := p\<rparr>))"

text \<open>One turn of a database worker.\<close>

definition run_db :: "'k openssl \<Rightarrow> mysql \<Rightarrow> 'k server \<Rightarrow> 'k server option" where
  "run_db ssl db sv = (case sv_db sv of
       None \<Rightarrow> None
     | Some dbs \<Rightarrow> (case WorkerThread (login_task ssl db) dbs of
         None \<Rightarrow> None
       | Some (result, dbs') \<Rightarrow> Some (sv\<lparr>sv_db := Some dbs', sv_world := result (sv_world sv)\<rparr>)))"

section \<open>GameServer\<close>

datatype server_handler =
    H_Test | H_ReqRoomEnter | H_ReqLogin | H_ReqRoomChat | H_ReqRoomExit | H_ReqLobbyChat | H_ReqRoomList

definition RegisterPacket :: "server_handler handlers" where
  "RegisterPacket = register_all
     [(uint (packetNum Test), H_Test), (uint (packetNum Req_RoomEnter), H_ReqRoomEnter),
      (uint (packetNum Req_Login), H_ReqLogin), (uint (packetNum Req_RoomChat), H_ReqRoomChat),
      (uint (packetNum Req_RoomExit), H_ReqRoomExit), (uint (packetNum Req_LobbyChat), H_ReqLobbyChat),
      (uint (packetNum Req_RoomList), H_ReqRoomList)] []"

definition on_world :: "'k server \<Rightarrow> (bool \<times> world) outcome \<Rightarrow> (bool \<times> 'k server) outcome" where
  "on_world sv r = bindR r (\<lambda>(b, w). Inr (b, sv\<lparr>sv_world := w\<rparr>))"

fun call_handler :: "byte list \<Rightarrow> nat \<Rightarrow> 'k server \<Rightarrow> server_handler \<Rightarrow> (bool \<times> 'k server) outcome" where
  "call_handler mem s sv H_Test = on_world sv (Inr (HandleTestPacket mem s (sv_world sv)))"
| "call_handler mem s sv H_ReqRoomEnter = on_world sv (HandleReqRoomEnterPacket mem s (sv_world sv))"
| "call_handler mem s sv H_ReqLogin = Inr (HandleReqLoginPacket mem s sv)"
| "call_handler mem s sv H_ReqRoomChat = on_world sv (HandleReqRoomChatPacket mem s (sv_world sv))"
| "call_handler mem s sv H_ReqRoomExit = on_world sv (HandleReqRoomExitPacket mem s (sv_world sv))"
| "call_handler mem s sv H_ReqLobbyChat = on_world sv (HandleReqLobbyChatPacket mem s (sv_world sv))"
| "call_handler mem s sv H_ReqRoomList = on_world sv (HandleReqRoomListPacket mem s (sv_world sv))"

definition server_Process :: "byte list \<Rightarrow> nat \<Rightarrow> 'k server \<Rightarrow> (bool \<times> 'k server) outcome" where
  "server_Process mem s sv =
     Process (uint (m_packetNum mem)) (call_handler mem s sv) (Inr (False, sv)) RegisterPacket"

text \<open>\<^verbatim>\<open>GameSession::OnRecv\<close> with everything it calls; only the key exchange returns true after a disconnect.\<close>

definition server_OnRecv :: "'k openssl \<Rightarrow> 'k draw \<Rightarrow> byte list \<Rightarrow> nat \<Rightarrow> byte list \<Rightarrow> 'k server \<Rightarrow> (bool \<times> 'k server) outcome" where
  "server_OnRecv ssl d stack s mem sv =
     (let c = sv_crypt sv s; exchange = (\<not> m_handshakeDone c \<and> m_packetNum mem = packetNum Req_KeyExchange) in
      bindR (GameSession_OnRecv ssl d stack mem c) (\<lambda>(a, c').
        let sv1 = sv\<lparr>sv_crypt := (sv_crypt sv)(s := c')\<rparr> in
        case a of
          SendBytes f \<Rightarrow> Inr (True, sv1\<lparr>sv_wire := sv_wire sv1 @ [(s, f)]\<rparr>)
        | Disconnects reason \<Rightarrow> Inr (exchange, sv1\<lparr>sv_world := World_Disconnect s (sv_world sv1)\<rparr>)
        | Dispatch buf \<Rightarrow> server_Process buf s sv1
        | _ \<Rightarrow> Inr (exchange, sv1)))"

section \<open>Before the login\<close>

lemma map_of_RegisterPacket:
  "map_of RegisterPacket n = map_of [(0, H_Test), (60, H_ReqRoomEnter), (10, H_ReqLogin), (63, H_ReqRoomChat),
     (65, H_ReqRoomExit), (33, H_ReqLobbyChat), (35, H_ReqRoomList)] n"
  by (simp add: RegisterPacket_def map_of_register_all)

lemma server_Process_cases:
  assumes "server_Process mem s sv = Inr (b, sv')"
  obtains "sv' = sv" | h where "call_handler mem s sv h = Inr (b, sv')"
  using assms by (auto simp: server_Process_def Process_def split: option.splits)

text \<open>The part of the world a packet may touch only after its session has a player.\<close>

definition game_part :: "world \<Rightarrow> Player list \<times> Room list \<times> Lobby list \<times> (uint64 \<times> nat) list" where
  "game_part w = (players w, rooms w, lobbies w, online w)"

lemma Disconnect_without_player:
  "player_of w s = None \<Longrightarrow> game_part (World_Disconnect s w) = game_part w \<and> outbox (World_Disconnect s w) = outbox w"
  by (simp add: game_part_def World_Disconnect_def GameSession_OnDisconnected_def GameSessionSystem_Remove_def Let_def)

lemma call_handler_without_player:
  assumes "player_of (sv_world sv) s = None" "call_handler mem s sv h = Inr (b, sv')"
  shows "game_part (sv_world sv') = game_part (sv_world sv)
    \<and> (\<exists>ms. outbox (sv_world sv') = outbox (sv_world sv) @ map (Pair s) ms)"
proof (cases h)
  case H_Test
  then show ?thesis using assms(2)
    by (auto simp: on_world_def HandleTestPacket_def send_to_def game_part_def intro: exI[of _ "[_]"])
next
  case H_ReqLogin
  then show ?thesis using assms(2)
    by (auto simp: HandleReqLoginPacket_def send_to_def game_part_def Let_def split: if_splits option.splits
        intro: exI[of _ "[_]"] exI[of _ "[]"])
qed (use assms in \<open>auto simp: on_world_def HandleReqRoomEnterPacket_def HandleReqRoomChatPacket_def HandleReqRoomExitPacket_def
       HandleReqLobbyChatPacket_def HandleReqRoomListPacket_def game_part_def\<close>)


definition toy_server :: "byte server" where
  "toy_server = \<lparr>sv_world = world0, sv_db = None, sv_crypt = (\<lambda>_. toy_crypt), sv_wire = []\<rparr>"


section \<open>Logging in\<close>

lemma outbox_Assign: "AssignLobby w = Some (l, w') \<Longrightarrow> outbox w' = outbox w \<and> players w' = players w \<and> player_of w' = player_of w"
  by (erule AssignLobby_Some) simp

lemma OnLoginResult_accepted:
  assumes "connected w s" "\<not> login_done w s"
  shows "let w' = OnLoginResult True i n s w; p = length (players w) in
    player_of w' s = Some p \<and> players w' ! p = Player_ctor s i n \<and> outbox w' = outbox w @ [(s, Msg_ResLogin i n)]"
  using assms
  by (auto simp: OnLoginResult_def Let_def PlayerSystem_Add_def send_to_def Player_ctor_def post_lobby_def
      dest!: outbox_Assign split: option.split)

lemma outbox_Disconnect: "outbox (World_Disconnect s w) = outbox w"
  by (simp add: World_Disconnect_def GameSession_OnDisconnected_def GameSessionSystem_Remove_def PlayerSystem_Remove_def
      LeaveRoom_def LeaveLobby_def post_room_def post_lobby_def Let_def split: option.split)

lemma connected_Disconnect: "\<not> connected (World_Disconnect s w) s"
  by (simp add: World_Disconnect_def GameSession_OnDisconnected_def GameSessionSystem_Remove_def PlayerSystem_Remove_def
      LeaveRoom_def LeaveLobby_def post_room_def post_lobby_def Let_def split: option.split)

lemma OnLoginResult_rejected:
  assumes "connected w s" "\<not> login_done w s"
  shows "let w' = OnLoginResult False i n s w in \<not> connected w' s \<and> outbox w' = outbox w @ [(s, Msg_ResLoginFailed)]"
  using assms by (simp add: OnLoginResult_def Let_def outbox_Disconnect connected_Disconnect) (simp add: send_to_def)

text \<open>A registered user logs in, anybody else is turned away.  When the account row of the user name holds what
  \<open>HashPassword\<close> wrote, a login packet with admissible lengths on a connected session that has not logged in is
  answered by the next turn of a database worker that finds a connection: with the right password the session
  gets a player under the account's id and name and one \<open>ResLogin\<close>; with a password that derives anything
  else it gets one \<open>ResLoginFailed\<close> and is disconnected.\<close>

lemma login_round_trip:
  assumes hash: "pbkdf2_ok ssl" "length salt = SALT_BYTES" "HashPassword ssl (Some salt) password = Some (h, st)"
    and rows: "\<And>c. account_query db c username = Row i h st"
    and packet: "c_str (bytes_at 4 16 mem) = username" "c_str (bytes_at 20 64 mem) = attempt"
      "4 \<le> length username" "8 \<le> length attempt" "length username \<le> 16" "length attempt \<le> 64"
    and dbs: "sv_db sv = Some dbs" "db_running dbs" "0 < db_threads dbs" "db_tasks dbs = []" "connections (db_pool dbs) \<noteq> []"
    and session: "connected (sv_world sv) s" "\<not> login_done (sv_world sv) s"
  shows "let (ok, sv1) = HandleReqLoginPacket mem s sv; w = sv_world sv; p = length (players w) in
    \<exists>sv2. run_db ssl db sv1 = Some sv2
     \<and> (if pbkdf2 ssl attempt salt PBKDF2_ITERATIONS HASH_BYTES = pbkdf2 ssl password salt PBKDF2_ITERATIONS HASH_BYTES
        then player_of (sv_world sv2) s = Some p \<and> GetPlayerId p (sv_world sv2) = i \<and> GetPlayerName p (sv_world sv2) = username
           \<and> outbox (sv_world sv2) = outbox w @ [(s, Msg_ResLogin i username)]
        else \<not> connected (sv_world sv2) s \<and> outbox (sv_world sv2) = outbox w @ [(s, Msg_ResLoginFailed)])"
proof -
  have queued: "HandleReqLoginPacket mem s sv = (True, sv\<lparr>sv_db := Some (dbs\<lparr>db_tasks := [(s, username, attempt)]\<rparr>)\<rparr>)"
    using packet dbs by (simp add: HandleReqLoginPacket_def layout_defs Let_def DbSystem_Execute_def)
  obtain c cs where conn: "connections (db_pool dbs) = c # cs" using dbs(5) by (cases "connections (db_pool dbs)") auto
  have auth: "fst (with_DbConnection (\<lambda>conn. Authenticate ssl db conn username attempt) (db_pool dbs))
      = Authenticate ssl db (Some c) username attempt"
    using conn by (simp add: with_DbConnection_def Acquire_conn_def Let_def)
  define res where "res = Authenticate ssl db (Some c) username attempt"
  obtain q where run: "run_db ssl db (sv\<lparr>sv_db := Some (dbs\<lparr>db_tasks := [(s, username, attempt)]\<rparr>)\<rparr>)
      = Some (sv\<lparr>sv_db := Some q, sv_world := (case res of Some (a, n) \<Rightarrow> OnLoginResult True a n s
          | None \<Rightarrow> OnLoginResult False 0 [] s) (sv_world sv)\<rparr>)"
    using dbs(3) auth unfolding res_def
    by (cases "with_DbConnection (\<lambda>conn. Authenticate ssl db conn username attempt) (db_pool dbs)")
      (simp add: run_db_def WorkerThread_def login_task_def)
  have res: "res = (if pbkdf2 ssl attempt salt PBKDF2_ITERATIONS HASH_BYTES = pbkdf2 ssl password salt PBKDF2_ITERATIONS HASH_BYTES
      then Some (i, username) else None)"
    unfolding res_def using authenticate_registered[OF hash rows] by blast
  show ?thesis
    using OnLoginResult_accepted[OF session, of i username] OnLoginResult_rejected[OF session, of 0 "[]"]
    by (simp add: queued run res Let_def Player_ctor_def)
qed

definition login_server :: "byte list \<Rightarrow> byte list \<Rightarrow> byte server" where
  "login_server h st = toy_server\<lparr>sv_world := world0\<lparr>connected := (\<lambda>s. s = 4), alive := (\<lambda>s. s = 4)\<rparr>,
     sv_db := Some (snd (DbSystem_Init (toy_mysql h st) 1 DbSystem0))\<rparr>"

definition login_packet :: "byte list \<Rightarrow> byte list" where
  "login_packet pw = ReqLogin_Init [98, 111, 98, 98] pw (replicate 84 0)"

lemma login_round_trip_witness:
  "\<exists>h st sv2. HashPassword toy_ssl (Some (replicate 16 7)) [1, 2, 3, 4, 5, 6, 7, 8] = Some (h, st)
     \<and> run_db toy_ssl (toy_mysql h st) (snd (HandleReqLoginPacket (login_packet [1, 2, 3, 4, 5, 6, 7, 8]) 4 (login_server h st))) = Some sv2
     \<and> outbox (sv_world sv2) = [(4, Msg_ResLogin 5 [98, 111, 98, 98])]"
proof -
  let ?pw = "[1, 2, 3, 4, 5, 6, 7, 8] :: byte list"
  let ?u = "[98, 111, 98, 98] :: byte list"
  obtain h st where hs: "HashPassword toy_ssl (Some (replicate 16 7)) ?pw = Some (h, st)"
    by (simp add: HashPassword_def toy_ssl_def)
  let ?sv = "login_server h st"
  define dbs where "dbs = snd (DbSystem_Init (toy_mysql h st) 1 (DbSystem0 :: login_request DbSystem))"
  have salt: "length (replicate 16 7 :: byte list) = SALT_BYTES" by (simp add: SALT_BYTES_def)
  have rows: "account_query (toy_mysql h st) c ?u = Row 5 h st" for c by (simp add: toy_mysql_def)
  have mem: "c_str (bytes_at 4 16 (login_packet ?pw)) = ?u" "c_str (bytes_at 20 64 (login_packet ?pw)) = ?pw"
    unfolding login_packet_def using login_frame(4,5)[of "replicate 84 0" ?u ?pw] by (simp_all add: c_str_def)
  have db: "sv_db ?sv = Some dbs" "db_running dbs" "0 < db_threads dbs" "db_tasks dbs = []" "connections (db_pool dbs) \<noteq> []"
    by (simp_all add: login_server_def toy_server_def dbs_def DbSystem_Init_def DbConnectionPool_Init_def pool_Init_loop_eq
        DbSystem0_def DbConnectionPool0_def IsReady_def toy_mysql_def try_connect_def Let_def)
  have ses: "connected (sv_world ?sv) 4" "\<not> login_done (sv_world ?sv) 4" "outbox (sv_world ?sv) = []"
    by (simp_all add: login_server_def toy_server_def world0_def)
  from login_round_trip[OF toy_ssl_ok(3) salt hs rows mem _ _ _ _ db ses(1,2)]
  show ?thesis using hs ses(3) by (auto simp: case_prod_beta Let_def)
qed

section \<open>Delivering messages\<close>

fun msg_class :: "msg \<Rightarrow> packet_class" where
  "msg_class (Msg_ResLogin _ _) = cls_ResLogin"
| "msg_class Msg_ResLoginFailed = cls_ResLoginFailed"
| "msg_class (Msg_NotiRoomEnter _ _) = cls_NotiRoomEnter"
| "msg_class (Msg_NotiRoomExit _ _) = cls_NotiRoomExit"
| "msg_class (Msg_NotiRoomChat _ _ _) = cls_NotiRoomChat"
| "msg_class (Msg_ResLobbyEnter _ _) = cls_ResLobbyEnter"
| "msg_class (Msg_NotiLobbyPlayerEnter _ _) = cls_NotiLobbyPlayerEnter"
| "msg_class (Msg_NotiLobbyPlayerExit _ _) = cls_NotiLobbyPlayerExit"
| "msg_class (Msg_NotiLobbyChat _ _ _) = cls_NotiLobbyChat"
| "msg_class (Msg_ResRoomList _) = cls_ResRoomList"
| "msg_class (Msg_Test _) = cls_TestPacket"

text \<open>The header says the size of the class, and building the message stays inside its memory.\<close>

definition well_sized :: "packet_class \<Rightarrow> nat \<Rightarrow> byte list \<Rightarrow> bool" where
  "well_sized c n mem \<longleftrightarrow> length mem = n \<and> m_dataSize mem = size16 c"

lemma AddRoom_well_sized:
  assumes "well_sized cls_ResRoomList n mem" "248 \<le> n"
  shows "well_sized cls_ResRoomList n (ResRoomList_AddRoom r c x mem)"
proof (cases "get_int32 (offset cls_ResRoomList 0) mem \<ge> 20")
  case False
  then have "nat (get_int32 4 mem) \<le> 19" by (simp add: layout_defs)
  then show ?thesis using assms False
    by (simp add: ResRoomList_AddRoom_def well_sized_def layout_defs m_dataSize_def Let_def)
qed (use assms in \<open>simp add: ResRoomList_AddRoom_def\<close>)

lemma AddPlayer_length:
  assumes "1212 \<le> length mem"
  shows "length (ResLobbyEnter_AddPlayer i s mem) = length mem"
proof (cases "get_int32 (offset cls_ResLobbyEnter 1) mem \<ge> 50")
  case False
  then have "nat (get_int32 8 mem) \<le> 49" by (simp add: layout_defs)
  then show ?thesis using assms False by (simp add: ResLobbyEnter_AddPlayer_def layout_defs Let_def)
qed (use assms in \<open>simp add: ResLobbyEnter_AddPlayer_def layout_defs\<close>)

lemma AddPlayer_well_sized:
  assumes "well_sized cls_ResLobbyEnter n mem" "1212 \<le> n"
  shows "well_sized cls_ResLobbyEnter n (ResLobbyEnter_AddPlayer i s mem)"
proof (cases "get_int32 (offset cls_ResLobbyEnter 1) mem \<ge> 50")
  case False
  then have "nat (get_int32 8 mem) \<le> 49" by (simp add: layout_defs)
  then show ?thesis using assms False
    by (simp add: ResLobbyEnter_AddPlayer_def well_sized_def layout_defs m_dataSize_def Let_def)
qed (use assms in \<open>simp add: ResLobbyEnter_AddPlayer_def layout_defs\<close>)

lemma fold_well_sized:
  "(\<And>x mem. well_sized c n mem \<Longrightarrow> well_sized c n (f x mem)) \<Longrightarrow> well_sized c n mem \<Longrightarrow> well_sized c n (fold f xs mem)"
  by (induction xs arbitrary: mem) auto

lemma init_well_sized:
  "1212 \<le> length mem \<Longrightarrow> well_sized cls_ResLobbyEnter (length mem) (ResLobbyEnter_Init l mem)"
  "248 \<le> length mem \<Longrightarrow> well_sized cls_ResRoomList (length mem) (ResRoomList_Init mem)"
  by (simp_all add: ResLobbyEnter_Init_def ResRoomList_Init_def well_sized_def layout_defs m_dataSize_def
      PacketHeader_Init_def put_int32_def)

definition sendable :: "msg \<Rightarrow> bool" where
  "sendable m \<longleftrightarrow> (case m of Msg_Test t \<Rightarrow> length t \<le> 255 | _ \<Rightarrow> True)"

lemma msg_well_sized:
  assumes "size_of (msg_class m) \<le> length mem" "sendable m"
  shows "well_sized (msg_class m) (length mem) (msg_bytes m mem)"
proof (cases m)
  case (Msg_ResLobbyEnter l ps)
  then show ?thesis using assms
    by (auto intro!: fold_well_sized AddPlayer_well_sized init_well_sized)
next
  case (Msg_ResRoomList rs)
  then show ?thesis using assms by (auto intro!: fold_well_sized AddRoom_well_sized init_well_sized)
next
  case (Msg_Test t)
  then show ?thesis using assms
    by (simp add: sendable_def well_sized_def layout_defs m_dataSize_def PacketHeader_Init_def)
qed (use assms in \<open>simp_all add: well_sized_def layout_defs m_dataSize_def PacketHeader_Init_def put64_def
    ResLogin_Init_def ResLoginFailed_Init_def NotiRoomEnter_Init_def NotiRoomExit_Init_def NotiRoomChat_Init_def
    NotiLobbyPlayerEnter_Init_def NotiLobbyPlayerExit_Init_def NotiLobbyChat_Init_def\<close>)

lemma class_sizes: "unat (size16 (msg_class m)) = size_of (msg_class m)" "0 < size_of (msg_class m)"
  "size_of (msg_class m) \<le> MAX_PLAIN_PACKET_SIZE"
  by (cases m; simp add: layout_defs MAX_PLAIN_PACKET_SIZE_def)+

lemma message_frame:
  assumes "gcm_seals ssl key" "sending_draw d" "d_ctx d" "m_cipher c = Some key" "m_handshakeDone c"
    and mem: "size_of (msg_class m) \<le> length mem" "sendable m"
  shows "\<exists>f. SendEncrypted ssl d key (msg_bytes m mem) = SendBytes f \<and> GameSession_Send ssl d (msg_bytes m mem) c = Inr (SendBytes f)"
    and "unat (m_dataSize (msg_bytes m mem)) = size_of (msg_class m)" "length (msg_bytes m mem) = length mem"
proof -
  let ?p = "msg_bytes m mem"
  show size: "unat (m_dataSize ?p) = size_of (msg_class m)" "length ?p = length mem"
    using msg_well_sized[OF mem] class_sizes(1)[of m] by (simp_all add: well_sized_def)
  show "\<exists>f. SendEncrypted ssl d key ?p = SendBytes f \<and> GameSession_Send ssl d ?p c = Inr (SendBytes f)"
    using SendEncrypted_works[OF assms(1-3), of ?p] class_sizes(2,3)[of m] size(1) assms(4,5) by (auto simp: GameSession_Send_def)
qed

text \<open>(C8) Every message of the server reaches the client whole.  Whatever message is built into a pool block that is
  large enough, with a session key agreed and a cipher that does not refuse, \<open>Send\<close> puts out one frame of the
  message's class size plus 32 bytes, and \<open>OnRecv\<close> at the other end hands exactly the bytes of the message,
  over its stack buffer, to the packet handler, no matter what follows the frame in the receive buffer.\<close>

theorem message_delivered:
  assumes "gcm_ok ssl" "gcm_seals ssl key" "sending_draw d" "d_ctx d" "d_ctx d'"
    and keys: "m_cipher c = Some key" "m_cipher c' = Some key" "m_handshakeDone c" "m_handshakeDone c'"
    and mem: "size_of (msg_class m) \<le> length mem" "sendable m"
  shows "\<exists>f. GameSession_Send ssl d (msg_bytes m mem) c = Inr (SendBytes f)
    \<and> length f = size_of (msg_class m) + 32
    \<and> (\<forall>rest. ServerSession_OnRecv ssl d' lm stack (f @ rest) c'
        = Inr (Dispatch (overwrite 0 (take (size_of (msg_class m)) (msg_bytes m mem)) stack), c'))"
proof -
  let ?p = "msg_bytes m mem"
  note mf = message_frame[OF assms(2-4) keys(1,3) mem, simplified]
  obtain f where f: "SendEncrypted ssl d key ?p = SendBytes f" "GameSession_Send ssl d ?p c = Inr (SendBytes f)" using mf(1) by blast
  obtain nonce where d: "d_rnd d = Some nonce" "length nonce = 12" "length (d_mem d) = size_of cls_EncryptedPacket"
    using assms(3) by (auto simp: sending_draw_def)
  have inner: "unat (m_dataSize ?p) \<le> length ?p" using mf(2,3) mem(1) by simp
  have "length f = size_of (msg_class m) + 32"
    using SendEncrypted_frame(5)[OF assms(1) d inner f(1)] mf(2) by simp
  moreover have "ServerSession_OnRecv ssl d' lm stack (f @ rest) c'
      = Inr (Dispatch (overwrite 0 (take (size_of (msg_class m)) ?p) stack), c')" for rest
    using channel_delivers[OF assms(1,3,5) keys inner] f(2) mf(2) by (simp add: sent_bytes_def)
  ultimately show ?thesis using f(2) by blast
qed

theorem message_delivered_witness:
  "\<exists>f. GameSession_Send toy_ssl (toy_draw 3) (msg_bytes (Msg_NotiRoomExit 7 [97]) (replicate 32 0)) toy_crypt = Inr (SendBytes f)
    \<and> length f = 60
    \<and> ServerSession_OnRecv toy_ssl (toy_draw 5) [] (replicate 40 7) (f @ [1, 2]) toy_crypt
        = Inr (Dispatch (overwrite 0 (take 28 (msg_bytes (Msg_NotiRoomExit 7 [97]) (replicate 32 0))) (replicate 40 7)), toy_crypt)"
proof -
  show ?thesis
    using message_delivered[OF toy_ssl_ok(1,6) toy_draw_ok(1,2) toy_draw_ok(2), of toy_crypt "replicate 16 9" toy_crypt
      "Msg_NotiRoomExit 7 [97]" "replicate 32 0" 3 5 "[]" "replicate 40 7"]
    by (simp add: toy_crypt_def sendable_def layout_defs) blast
qed

end
