(* ===== verification/RecvBuffer.thy ===== *)
theory RecvBuffer
  imports Interfaces
begin

text \<open>
  \<^verbatim>\<open>ServerCore/RecvBuffer.{h,cpp}\<close>: the linear receive buffer of a session, with a read and a write
  cursor.  The abstraction \<open>pending\<close> is the byte queue between the two cursors; the lemmas show
  that every operation implements the queue operation, and that compaction (\<open>Clean\<close>) never makes
  an overlapping copy and always leaves room for one more 64 KiB packet.
\<close>

section \<open>State and operations\<close>

record RecvBuffer =
  m_capacity :: int
  m_bufferSize :: int
  m_readPos :: int
  m_writePos :: int
  m_buffer :: "byte list"

definition BUFFER_COUNT :: int where
  "BUFFER_COUNT = 10"

definition RecvBuffer_ctor :: "int \<Rightarrow> RecvBuffer" where
  "RecvBuffer_ctor bufferSize =
     \<lparr> m_capacity = bufferSize * BUFFER_COUNT, m_bufferSize = bufferSize,
       m_readPos = 0, m_writePos = 0,
       m_buffer = replicate (nat (bufferSize * BUFFER_COUNT)) 0 \<rparr>"

definition DataSize :: "RecvBuffer \<Rightarrow> int" where
  "DataSize b = m_writePos b - m_readPos b"

definition FreeSize :: "RecvBuffer \<Rightarrow> int" where
  "FreeSize b = m_capacity b - m_writePos b"

text \<open>\<^verbatim>\<open>&m_buffer[i]\<close> is defined for an index inside the vector only.\<close>

definition ReadPos :: "RecvBuffer \<Rightarrow> nat outcome" where
  "ReadPos b = (if 0 \<le> m_readPos b \<and> m_readPos b < int (length (m_buffer b))
                then Inr (nat (m_readPos b)) else Inl (UB ''vector subscript''))"

definition WritePos :: "RecvBuffer \<Rightarrow> nat outcome" where
  "WritePos b = (if 0 \<le> m_writePos b \<and> m_writePos b < int (length (m_buffer b))
                 then Inr (nat (m_writePos b)) else Inl (UB ''vector subscript''))"

definition Clean :: "RecvBuffer \<Rightarrow> RecvBuffer outcome" where
  "Clean b =
     (let dataSize = DataSize b in
      if dataSize = 0 then Inr (b\<lparr>m_readPos := 0, m_writePos := 0\<rparr>)
      else if FreeSize b < m_bufferSize b
      then bindR (memcpy_within (m_buffer b) 0 (m_readPos b) dataSize)
             (\<lambda>buf. Inr (b\<lparr>m_buffer := buf, m_readPos := 0, m_writePos := dataSize\<rparr>))
      else Inr b)"

definition OnRead :: "int \<Rightarrow> RecvBuffer \<Rightarrow> bool \<times> RecvBuffer" where
  "OnRead numOfBytes b =
     (if numOfBytes > DataSize b then (False, b)
      else (True, b\<lparr>m_readPos := m_readPos b + numOfBytes\<rparr>))"

definition OnWrite :: "int \<Rightarrow> RecvBuffer \<Rightarrow> bool \<times> RecvBuffer" where
  "OnWrite numOfBytes b =
     (if numOfBytes > FreeSize b then (False, b)
      else (True, b\<lparr>m_writePos := m_writePos b + numOfBytes\<rparr>))"

section \<open>Invariant and abstraction\<close>

definition rb_inv :: "RecvBuffer \<Rightarrow> bool" where
  "rb_inv b \<longleftrightarrow> 0 < m_bufferSize b \<and> m_capacity b = m_bufferSize b * BUFFER_COUNT \<and> m_capacity b < 2 ^ 31
     \<and> 0 \<le> m_readPos b \<and> m_readPos b \<le> m_writePos b \<and> m_writePos b \<le> m_capacity b
     \<and> int (length (m_buffer b)) = m_capacity b"

definition pending :: "RecvBuffer \<Rightarrow> byte list" where
  "pending b = take (nat (DataSize b)) (drop (nat (m_readPos b)) (m_buffer b))"

lemmas rb_defs = rb_inv_def DataSize_def FreeSize_def BUFFER_COUNT_def

text \<open>The operating system stores the received bytes at the write cursor before it completes the
  receive; \<open>recv_store\<close> is that store.\<close>

definition recv_store :: "byte list \<Rightarrow> RecvBuffer \<Rightarrow> RecvBuffer" where
  "recv_store bs b = b\<lparr>m_buffer := overwrite (nat (m_writePos b)) bs (m_buffer b)\<rparr>"

lemma rb_inv_ctor: "0 < n \<Longrightarrow> n * BUFFER_COUNT < 2 ^ 31 \<Longrightarrow> rb_inv (RecvBuffer_ctor n)"
  by (simp add: RecvBuffer_ctor_def rb_defs)

lemma pending_ctor [simp]: "pending (RecvBuffer_ctor n) = []"
  by (simp add: RecvBuffer_ctor_def pending_def DataSize_def)

lemma length_pending: "rb_inv b \<Longrightarrow> int (length (pending b)) = DataSize b"
  by (auto simp: pending_def rb_defs min_def)

lemma OnRead_refines:
  assumes "rb_inv b" "n \<le> length (pending b)"
  shows "\<exists>b'. OnRead (int n) b = (True, b') \<and> rb_inv b' \<and> pending b' = drop n (pending b)
    \<and> m_bufferSize b' = m_bufferSize b"
proof -
  have n: "int n \<le> DataSize b" using assms length_pending by fastforce
  define m where "m = nat (DataSize b)"
  define r where "r = nat (m_readPos b)"
  have *: "n \<le> m" using n by (simp add: m_def)
  have "nat (m_readPos b + int n) = r + n" "nat (m_writePos b - (m_readPos b + int n)) = m - n"
    using assms(1) by (auto simp: m_def r_def rb_defs)
  then have "pending (b\<lparr>m_readPos := m_readPos b + int n\<rparr>) = drop n (pending b)"
    using take_drop_split[OF *, of r "m_buffer b"]
    by (simp add: pending_def DataSize_def m_def r_def)
  moreover have "rb_inv (b\<lparr>m_readPos := m_readPos b + int n\<rparr>)"
    using assms(1) n by (simp add: rb_defs)
  ultimately show ?thesis using n by (simp add: OnRead_def)
qed

lemma OnWrite_refines:
  assumes inv: "rb_inv b" and fits: "int (length bs) \<le> FreeSize b"
  shows "\<exists>b'. OnWrite (int (length bs)) (recv_store bs b) = (True, b') \<and> rb_inv b'
    \<and> pending b' = pending b @ bs \<and> m_bufferSize b' = m_bufferSize b"
proof -
  define r w where "r = nat (m_readPos b)" and "w = nat (m_writePos b)"
  have rw: "r \<le> w" "w + length bs \<le> length (m_buffer b)"
    using inv fits by (auto simp: rb_defs r_def w_def)
  let ?b = "(recv_store bs b)\<lparr>m_writePos := m_writePos b + int (length bs)\<rparr>"
  have "nat (m_writePos b + int (length bs) - m_readPos b) = w + length bs - r"
    "nat (m_writePos b - m_readPos b) = w - r"
    using inv by (auto simp: rb_defs r_def w_def)
  then have "pending ?b = pending b @ bs"
    using bytes_at_append[OF rw] by (simp add: pending_def recv_store_def DataSize_def r_def w_def)
  moreover have "rb_inv ?b"
    using inv fits rw by (simp add: rb_defs recv_store_def r_def w_def)
  ultimately show ?thesis
    using fits by (simp add: OnWrite_def FreeSize_def recv_store_def)
qed

text \<open>Less than one packet (\<open>m_bufferSize\<close> bytes) is pending whenever \<open>Clean\<close> runs, so the copy
  moves the bytes from the last tenth of the buffer to the first: source and destination are
  disjoint.\<close>

lemma Clean_refines:
  assumes inv: "rb_inv b" and small: "int (length (pending b)) < m_bufferSize b"
  shows "\<exists>b'. Clean b = Inr b' \<and> rb_inv b' \<and> pending b' = pending b
    \<and> m_bufferSize b' = m_bufferSize b \<and> m_bufferSize b \<le> FreeSize b'"
proof -
  have d: "DataSize b < m_bufferSize b" "0 \<le> DataSize b"
    using small length_pending[OF inv] inv by (auto simp: rb_defs)
  consider (empty) "DataSize b = 0" | (move) "DataSize b \<noteq> 0" "FreeSize b < m_bufferSize b"
    | (keep) "DataSize b \<noteq> 0" "m_bufferSize b \<le> FreeSize b" by linarith
  then show ?thesis
  proof cases
    case empty
    then show ?thesis using inv by (auto simp: Clean_def pending_def rb_defs)
  next
    case move
    let ?d = "DataSize b" and ?r = "m_readPos b"
    let ?buf = "take (nat ?d) (drop (nat ?r) (m_buffer b)) @ drop (nat ?d) (m_buffer b)"
    have r: "?d \<le> ?r" "?r + ?d \<le> int (length (m_buffer b))" using inv move d by (auto simp: rb_defs)
    then have cp: "memcpy_within (m_buffer b) 0 ?r ?d = Inr ?buf"
      using d inv by (simp add: memcpy_within_def rb_inv_def)
    let ?b = "b\<lparr>m_buffer := ?buf, m_readPos := 0, m_writePos := ?d\<rparr>"
    have len: "length (take (nat ?d) (drop (nat ?r) (m_buffer b))) = nat ?d"
      using r d inv by (auto simp: rb_inv_def)
    have "Clean b = Inr ?b" using move cp by (simp add: Clean_def Let_def)
    moreover have "pending ?b = pending b"
      using len by (simp add: pending_def DataSize_def)
    moreover have "length ?buf = length (m_buffer b)" using len r d by simp
    then have "rb_inv ?b" "m_bufferSize b \<le> FreeSize ?b"
      using inv d by (simp_all add: rb_inv_def FreeSize_def BUFFER_COUNT_def)
    ultimately show ?thesis by auto
  next
    case keep
    then show ?thesis using inv by (simp add: Clean_def)
  qed
qed

section \<open>The byte-queue contract\<close>

text \<open>A receive completion of \<open>length bs\<close> bytes: the stored bytes and the cursor move of \<open>OnWrite\<close>.\<close>

definition recv_complete :: "byte list \<Rightarrow> RecvBuffer \<Rightarrow> bool \<times> RecvBuffer" where
  "recv_complete bs b = OnWrite (int (length bs)) (recv_store bs b)"

interpretation rb: byte_queue rb_inv pending FreeSize m_bufferSize recv_complete OnRead Clean
proof unfold_locales
  fix b :: RecvBuffer and bs n
  assume inv: "rb_inv b"
  show "\<exists>b'. recv_complete bs b = (True, b') \<and> rb_inv b' \<and> pending b' = pending b @ bs
      \<and> m_bufferSize b' = m_bufferSize b" if "int (length bs) \<le> FreeSize b"
    unfolding recv_complete_def by (rule OnWrite_refines[OF inv that])
  show "\<exists>b'. OnRead (int n) b = (True, b') \<and> rb_inv b' \<and> pending b' = drop n (pending b)
      \<and> m_bufferSize b' = m_bufferSize b" if "n \<le> length (pending b)"
    by (rule OnRead_refines[OF inv that])
  show "\<exists>b'. Clean b = Inr b' \<and> rb_inv b' \<and> pending b' = pending b \<and> m_bufferSize b' = m_bufferSize b
      \<and> m_bufferSize b \<le> FreeSize b'" if "int (length (pending b)) < m_bufferSize b"
    by (rule Clean_refines[OF inv that])
qed

end
