(* ===== verification/SendPool.thy ===== *)
theory SendPool
  imports PacketList Interfaces
begin

text \<open>
  \<^verbatim>\<open>ServerCore/SendPool.{h,cpp}\<close> and \<^verbatim>\<open>ServerCore/Sender.{h,cpp}\<close>: the pool of 1 KiB chunks that
  outgoing packets are written into, allocated first-fit in contiguous runs, and the \<open>Sender\<close>
  handles on it.  The chunk array is one byte list; the \<open>Sender\<close> at position \<open>i\<close> of
  \<open>m_senderList\<close> owns the run that starts at chunk \<open>i\<close>.  Shown here: the first-fit scan is exact,
  live runs never overlap, releasing a run gives exactly its chunks back, and the 16-bit usage
  counter wraps.
\<close>

section \<open>State\<close>

definition sizeof_DataChunk :: nat where
  "sizeof_DataChunk = 1024"

text \<open>\<open>m_tempChunk\<close> is a pointer into the chunk array: the index of its chunk, \<open>None\<close> for
  \<^verbatim>\<open>nullptr\<close>.\<close>

record Sender =
  m_tempChunk :: "nat option"
  m_index :: int
  m_count :: uint16

record SendPool =
  m_chunk :: "byte list option"
  m_senderList :: "Sender list"
  m_useFlag :: "bool list"
  m_chunkCount :: uint16
  m_useSize :: uint16

definition Sender_ctor :: Sender where
  "Sender_ctor = \<lparr>m_tempChunk = None, m_index = -1, m_count = 0\<rparr>"

definition SendPool_ctor :: SendPool where
  "SendPool_ctor = \<lparr>m_chunk = None, m_senderList = [], m_useFlag = [], m_chunkCount = 0, m_useSize = 0\<rparr>"

section \<open>Operations\<close>

text \<open>\<^verbatim>\<open>new DataChunk[_count]\<close> yields uninitialised memory, or throws (\<open>None\<close>).\<close>

definition SendPool_Init :: "uint16 \<Rightarrow> byte list option \<Rightarrow> SendPool \<Rightarrow> SendPool outcome" where
  "SendPool_Init count fresh p =
     ASSERT_CRASH (m_chunk p = None) (ASSERT_CRASH (m_useSize p = 0)
       (case fresh of
          None \<Rightarrow> ASSERT_CRASH False (Inr p)
        | Some mem \<Rightarrow> Inr (p\<lparr>m_chunk := Some mem, m_chunkCount := count,
             m_useFlag := m_useFlag p @ replicate (unat count) False,
             m_senderList := m_senderList p @ replicate (unat count) Sender_ctor\<rparr>)))"

definition Sender_Init :: "uint16 \<Rightarrow> byte list option \<Rightarrow> SendPool \<Rightarrow> SendPool outcome" where
  "Sender_Init sendCount fresh p = SendPool_Init sendCount fresh p"

text \<open>The scan of \<open>GetAllocIndex\<close>: \<open>mx\<close> is \<open>maxCount\<close>, \<open>ai\<close> is \<open>allocIndex\<close>, \<open>fi\<close> is \<open>flagIndex\<close>.\<close>

fun alloc_scan :: "int \<Rightarrow> bool list \<Rightarrow> int \<Rightarrow> int \<Rightarrow> int \<Rightarrow> int \<times> int" where
  "alloc_scan cnt [] mx ai fi = (mx, ai)"
| "alloc_scan cnt (flag # flags) mx ai fi =
     (if \<not> flag
      then let ai' = (if ai = -1 then fi else ai) in
           if mx + 1 = cnt then (mx + 1, ai') else alloc_scan cnt flags (mx + 1) ai' (fi + 1)
      else alloc_scan cnt flags 0 (-1) (fi + 1))"

definition GetAllocIndex :: "uint16 \<Rightarrow> SendPool \<Rightarrow> int" where
  "GetAllocIndex count p =
     (let (mx, ai) = alloc_scan (int (unat count)) (m_useFlag p) 0 (-1) 0
      in if ai \<noteq> -1 \<and> mx \<noteq> int (unat count) then -1 else ai)"

definition SetSendDataChunk :: "nat option \<Rightarrow> int \<Rightarrow> uint16 \<Rightarrow> Sender \<Rightarrow> Sender outcome" where
  "SetSendDataChunk chunk chunkIndex chunkCount s =
     ASSERT_CRASH (chunk \<noteq> None) (ASSERT_CRASH (chunkIndex \<ge> 0) (ASSERT_CRASH (chunkCount > 0)
       (ASSERT_CRASH (m_tempChunk s = None)
         (Inr (s\<lparr>m_tempChunk := chunk, m_index := chunkIndex, m_count := chunkCount\<rparr>)))))"

text \<open>\<open>SendPool::Alloc\<close> returns the \<open>Sender\<close> it hands out, by its position, or \<^verbatim>\<open>nullptr\<close>.\<close>

definition chunks_for :: "uint16 \<Rightarrow> uint16" where
  "chunks_for sendSize = sendSize div of_nat sizeof_DataChunk + 1"

definition set_flags :: "nat \<Rightarrow> nat \<Rightarrow> bool list \<Rightarrow> bool list" where
  "set_flags i n flags = fold (\<lambda>j fl. fl[j := True]) [i..<i + n] flags"

definition SendPool_Alloc :: "uint16 \<Rightarrow> SendPool \<Rightarrow> (nat option \<times> SendPool) outcome" where
  "SendPool_Alloc sendSize p =
     (let count = chunks_for sendSize; index = GetAllocIndex count p in
      if index = -1 then Inr (None, p)
      else let i = nat index in
        if i \<ge> length (m_senderList p) then Inl (UB ''vector subscript'') else
        bindR (SetSendDataChunk (Some i) index count (m_senderList p ! i))
          (\<lambda>s. Inr (Some i, p\<lparr>m_useFlag := set_flags i (unat count) (m_useFlag p),
                  m_useSize := m_useSize p + count * of_nat sizeof_DataChunk,
                  m_senderList := (m_senderList p)[i := s]\<rparr>)))"

text \<open>The release loop of \<open>SendPool::DeAlloc\<close>: it stops with \<open>False\<close> at the first chunk that is
  already free.\<close>

fun dealloc_loop :: "nat \<Rightarrow> nat \<Rightarrow> SendPool \<Rightarrow> (bool \<times> SendPool) outcome" where
  "dealloc_loop i 0 p = Inr (True, p)"
| "dealloc_loop i (Suc n) p =
     (if i \<ge> length (m_useFlag p) then Inl (UB ''vector subscript'')
      else if \<not> m_useFlag p ! i then Inr (False, p)
      else dealloc_loop (Suc i) n
             (p\<lparr>m_useFlag := (m_useFlag p)[i := False],
                m_useSize := m_useSize p - of_nat sizeof_DataChunk\<rparr>))"

definition SendPool_DeAlloc :: "int \<Rightarrow> uint16 \<Rightarrow> SendPool \<Rightarrow> (bool \<times> SendPool) outcome" where
  "SendPool_DeAlloc index count p =
     ASSERT_CRASH (count \<le> m_chunkCount p)
       (ASSERT_CRASH (index < int (unat (m_chunkCount p)))
         (if index < 0 then Inl (UB ''vector subscript'')
          else dealloc_loop (nat index) (unat count) p))"

definition GetUsableSize :: "SendPool \<Rightarrow> uint16" where
  "GetUsableSize p = m_useSize p"

text \<open>\<open>Sender::DeAlloc\<close>, run by the custom deleter of the \<open>SenderRef\<close> when its last copy goes.\<close>

definition Sender_DeAlloc :: "nat \<Rightarrow> SendPool \<Rightarrow> SendPool outcome" where
  "Sender_DeAlloc k p =
     (let s = m_senderList p ! k in
      if m_tempChunk s = None then Inr p
      else ASSERT_CRASH (m_index s \<ge> 0) (ASSERT_CRASH (m_count s > 0)
        (bindR (SendPool_DeAlloc (m_index s) (m_count s)
            (p\<lparr>m_senderList := (m_senderList p)[k := s\<lparr>m_tempChunk := None, m_index := -1, m_count := 0\<rparr>]\<rparr>))
          (\<lambda>(result, p'). ASSERT_CRASH result (Inr p')))))"

subsection \<open>Packet memory\<close>

text \<open>Reading and writing the memory behind \<open>m_tempChunk\<close> of the \<open>Sender\<close> at position \<open>k\<close>.\<close>

definition chunk_mem :: "nat \<Rightarrow> SendPool \<Rightarrow> byte list outcome" where
  "chunk_mem k p =
     (case (m_chunk p, m_tempChunk (m_senderList p ! k)) of
        (Some mem, Some c) \<Rightarrow> Inr (drop (c * sizeof_DataChunk) mem)
      | _ \<Rightarrow> Inl (UB ''null chunk''))"

definition write_packet :: "nat \<Rightarrow> (byte list \<Rightarrow> byte list) \<Rightarrow> SendPool \<Rightarrow> SendPool outcome" where
  "write_packet k f p =
     (case (m_chunk p, m_tempChunk (m_senderList p ! k)) of
        (Some mem, Some c) \<Rightarrow>
          Inr (p\<lparr>m_chunk := Some (take (c * sizeof_DataChunk) mem @ f (drop (c * sizeof_DataChunk) mem))\<rparr>)
      | _ \<Rightarrow> Inl (UB ''null chunk''))"

definition Sender_Alloc :: "packet_class \<Rightarrow> SendPool \<Rightarrow> (nat option \<times> SendPool) outcome" where
  "Sender_Alloc T p =
     ASSERT_CRASH (size_of T \<ge> sizeof_PacketHeader)
       (bindR (SendPool_Alloc (size16 T) p) (\<lambda>(shared, p').
          case shared of
            None \<Rightarrow> Inr (None, p')
          | Some k \<Rightarrow> bindR (write_packet k (overwrite 2 (le_bytes 2 (size16 T))) p')
                       (\<lambda>p''. Inr (Some k, p''))))"

text \<open>\<open>GetSenderAndPacket\<close> asks the handle it got for its write pointer without looking whether it
  got one: an exhausted pool is a null dereference.\<close>

definition GetSenderAndPacket :: "packet_class \<Rightarrow> SendPool \<Rightarrow> (nat \<times> SendPool) outcome" where
  "GetSenderAndPacket T p =
     bindR (Sender_Alloc T p) (\<lambda>(sender, p').
       case sender of None \<Rightarrow> Inl (UB ''null SenderRef'') | Some k \<Rightarrow> Inr (k, p'))"

definition GetSendSize :: "nat \<Rightarrow> SendPool \<Rightarrow> uint16" where
  "GetSendSize k p =
     (case chunk_mem k p of Inl _ \<Rightarrow> 0 | Inr mem \<Rightarrow> if m_dataSize mem = 0 then 0 else m_dataSize mem)"

definition GetSendPointer :: "nat \<Rightarrow> SendPool \<Rightarrow> nat option" where
  "GetSendPointer k p = m_tempChunk (m_senderList p ! k)"

section \<open>The first-fit scan\<close>

definition free_run :: "bool list \<Rightarrow> nat \<Rightarrow> nat \<Rightarrow> bool" where
  "free_run flags i n \<longleftrightarrow> i + n \<le> length flags \<and> (\<forall>j\<in>{i..<i + n}. \<not> flags ! j)"

text \<open>The loop invariant at flag \<open>k\<close>: \<open>mx\<close> is the length of the free run that ends before \<open>k\<close> and
  \<open>ai\<close> its start, and no run of the wanted length ends at or before \<open>k\<close>.\<close>

definition scan_inv :: "nat \<Rightarrow> bool list \<Rightarrow> nat \<Rightarrow> nat \<Rightarrow> int \<Rightarrow> bool" where
  "scan_inv n flags k mx ai \<longleftrightarrow> k \<le> length flags \<and> mx < n \<and> mx \<le> k
     \<and> ai = (if mx = 0 then -1 else int (k - mx))
     \<and> (\<forall>j. k - mx \<le> j \<and> j < k \<longrightarrow> \<not> flags ! j) \<and> (mx < k \<longrightarrow> flags ! (k - mx - 1))
     \<and> (\<forall>i. i + n \<le> k \<longrightarrow> \<not> free_run flags i n)"

definition first_free :: "nat \<Rightarrow> bool list \<Rightarrow> nat \<Rightarrow> bool" where
  "first_free n flags i \<longleftrightarrow> free_run flags i n \<and> (\<forall>i'<i. \<not> free_run flags i' n)"

lemma scan_inv_used:
  assumes "scan_inv n flags k mx ai" "k < length flags" "flags ! k"
  shows "scan_inv n flags (Suc k) 0 (-1)"
proof -
  have "\<not> free_run flags i n" if "i + n \<le> Suc k" for i
  proof (cases "i + n = Suc k")
    case True
    then have "k \<in> {i..<i + n}" using assms(1) by (auto simp: scan_inv_def)
    then show ?thesis using assms(3) by (auto simp: free_run_def)
  next
    case False
    then show ?thesis using that assms(1) by (auto simp: scan_inv_def)
  qed
  then show ?thesis using assms by (auto simp: scan_inv_def)
qed

lemma scan_inv_no_earlier:
  assumes "scan_inv n flags k mx ai" "i < k - mx" "k \<le> i + n"
  shows "\<not> free_run flags i n"
proof -
  have "k - mx - 1 \<in> {i..<i + n}" "flags ! (k - mx - 1)"
    using assms by (auto simp: scan_inv_def)
  then show ?thesis by (auto simp: free_run_def)
qed

lemma scan_inv_free:
  assumes "scan_inv n flags k mx ai" "k < length flags" "\<not> flags ! k" "Suc mx < n"
  shows "scan_inv n flags (Suc k) (Suc mx) (int (k - mx))"
proof -
  have "\<not> free_run flags i n" if "i + n \<le> Suc k" for i
  proof (cases "i + n = Suc k")
    case True
    then show ?thesis using scan_inv_no_earlier[OF assms(1), of i] assms(1,4)
      by (auto simp: scan_inv_def)
  next
    case False
    then show ?thesis using that assms(1) by (auto simp: scan_inv_def)
  qed
  moreover have "\<not> flags ! j" if "k - mx \<le> j" "j < Suc k" for j
    using that assms(1,3) by (cases "j = k") (auto simp: scan_inv_def)
  ultimately show ?thesis using assms by (auto simp: scan_inv_def)
qed

lemma scan_inv_found:
  assumes "scan_inv n flags k mx ai" "k < length flags" "\<not> flags ! k" "Suc mx = n"
  shows "first_free n flags (k - mx)"
proof -
  have "\<not> flags ! j" if "k - mx \<le> j" "j < Suc k" for j
    using that assms(1,3) by (cases "j = k") (auto simp: scan_inv_def)
  then have "free_run flags (k - mx) n" using assms by (auto simp: free_run_def scan_inv_def)
  moreover have "\<not> free_run flags i n" if "i < k - mx" for i
    using that assms(1) scan_inv_no_earlier[OF assms(1) that]
    by (cases "i + n \<le> k") (auto simp: scan_inv_def)
  ultimately show ?thesis by (simp add: first_free_def)
qed

lemma alloc_scan_spec:
  "scan_inv n flags k mx ai \<Longrightarrow> drop k flags = rest \<Longrightarrow>
   (\<exists>i. alloc_scan (int n) rest (int mx) ai (int k) = (int n, int i) \<and> first_free n flags i)
 \<or> (\<exists>mx' ai'. alloc_scan (int n) rest (int mx) ai (int k) = (int mx', ai') \<and> mx' < n
      \<and> (\<forall>i. \<not> free_run flags i n))"
proof (induction rest arbitrary: k mx ai)
  case Nil
  then have "k = length flags" by (simp add: scan_inv_def)
  then show ?case using Nil by (auto simp: scan_inv_def free_run_def)
next
  case (Cons f rest)
  note k = drop_eq_ConsD[OF Cons.prems(2)]
  have ai: "(if ai = -1 then int k else ai) = int (k - mx)"
    using Cons.prems(1) by (auto simp: scan_inv_def)
  show ?case
  proof (cases f)
    case True
    then show ?thesis
      using Cons.IH[OF scan_inv_used[OF Cons.prems(1)] k(3)] k by (simp add: add.commute)
  next
    case False
    show ?thesis
    proof (cases "Suc mx = n")
      case True
      then have "int mx + 1 = int n" by simp
      then have "alloc_scan (int n) (f # rest) (int mx) ai (int k) = (int n, int (k - mx))"
        using False ai by (simp add: Let_def)
      moreover have "first_free n flags (k - mx)"
        using scan_inv_found[OF Cons.prems(1)] k False True by simp
      ultimately show ?thesis by blast
    next
      case neq: False
      then have lt: "Suc mx < n" using Cons.prems(1) by (simp add: scan_inv_def)
      then have "int mx + 1 \<noteq> int n" by simp
      then have "alloc_scan (int n) (f # rest) (int mx) ai (int k)
          = alloc_scan (int n) rest (int (Suc mx)) (int (k - mx)) (int (Suc k))"
        using False ai by (simp add: Let_def add.commute)
      then show ?thesis
        using Cons.IH[OF scan_inv_free[OF Cons.prems(1)] k(3)] k False lt by simp
    qed
  qed
qed

lemma GetAllocIndex_cases:
  assumes "0 < count"
  shows "(\<exists>i. GetAllocIndex count p = int i \<and> first_free (unat count) (m_useFlag p) i)
       \<or> GetAllocIndex count p = -1 \<and> (\<forall>i. \<not> free_run (m_useFlag p) i (unat count))"
proof -
  have "scan_inv (unat count) (m_useFlag p) 0 0 (-1)"
    using assms by (auto simp: scan_inv_def free_run_def word_less_nat_alt)
  from alloc_scan_spec[OF this refl] show ?thesis
    by (auto simp: GetAllocIndex_def simp del: of_nat_unat)
qed

section \<open>Live runs\<close>

definition live :: "SendPool \<Rightarrow> nat set" where
  "live p = {k. k < length (m_senderList p) \<and> m_tempChunk (m_senderList p ! k) \<noteq> None}"

definition run :: "SendPool \<Rightarrow> nat \<Rightarrow> nat set" where
  "run p k = {k..<k + unat (m_count (m_senderList p ! k))}"

definition used :: "SendPool \<Rightarrow> nat set" where
  "used p = {i. i < length (m_useFlag p) \<and> m_useFlag p ! i}"

text \<open>The pool invariant: an idle \<open>Sender\<close> is reset, a live one describes the run at its own
  position, runs are disjoint and inside the pool, and the flags and the usage counter are exactly
  those of the live runs.\<close>

definition pool_inv :: "SendPool \<Rightarrow> bool" where
  "pool_inv p \<longleftrightarrow>
     length (m_useFlag p) = unat (m_chunkCount p)
   \<and> length (m_senderList p) = unat (m_chunkCount p)
   \<and> (\<exists>mem. m_chunk p = Some mem \<and> length mem = unat (m_chunkCount p) * sizeof_DataChunk)
   \<and> (\<forall>k < length (m_senderList p). m_tempChunk (m_senderList p ! k) = None \<longrightarrow>
        m_senderList p ! k = Sender_ctor)
   \<and> (\<forall>k \<in> live p. m_tempChunk (m_senderList p ! k) = Some k \<and> m_index (m_senderList p ! k) = int k
        \<and> 0 < unat (m_count (m_senderList p ! k)) \<and> run p k \<subseteq> {..<length (m_useFlag p)})
   \<and> used p = (\<Union>k \<in> live p. run p k)
   \<and> (\<forall>k \<in> live p. \<forall>k' \<in> live p. k \<noteq> k' \<longrightarrow> run p k \<inter> run p k' = {})
   \<and> m_useSize p = of_nat (card (used p) * sizeof_DataChunk)"

lemma pool_inv_live:
  assumes "pool_inv p" "k \<in> live p"
  shows "m_tempChunk (m_senderList p ! k) = Some k" "m_index (m_senderList p ! k) = int k"
    "0 < unat (m_count (m_senderList p ! k))" "run p k \<subseteq> {..<length (m_useFlag p)}"
    "run p k \<subseteq> used p" "k \<in> run p k"
proof -
  have all: "m_tempChunk (m_senderList p ! k) = Some k \<and> m_index (m_senderList p ! k) = int k
      \<and> 0 < unat (m_count (m_senderList p ! k)) \<and> run p k \<subseteq> {..<length (m_useFlag p)}"
    using assms unfolding pool_inv_def by blast
  then show "m_tempChunk (m_senderList p ! k) = Some k" "m_index (m_senderList p ! k) = int k"
    "0 < unat (m_count (m_senderList p ! k))" "run p k \<subseteq> {..<length (m_useFlag p)}"
    by blast+
  show "run p k \<subseteq> used p" using assms unfolding pool_inv_def by blast
  show "k \<in> run p k" using all by (simp add: run_def)
qed

lemma ivl_eq_same_lower: "({k..<k + m} = {k..<k + n}) \<longleftrightarrow> m = (n :: nat)"
proof -
  have "card {k..<k + m} = m" "card {k..<k + n} = n" by simp_all
  then show ?thesis by metis
qed

lemma pool_inv_used: "pool_inv p \<Longrightarrow> used p = (\<Union>k \<in> live p. run p k)"
  by (simp add: pool_inv_def)

lemma pool_inv_disjoint:
  "pool_inv p \<Longrightarrow> k \<in> live p \<Longrightarrow> k' \<in> live p \<Longrightarrow> k \<noteq> k' \<Longrightarrow> run p k \<inter> run p k' = {}"
  unfolding pool_inv_def by blast

lemma pool_inv_sizes:
  assumes "pool_inv p"
  shows "length (m_useFlag p) = unat (m_chunkCount p)" "length (m_senderList p) = unat (m_chunkCount p)"
    "\<exists>mem. m_chunk p = Some mem \<and> length mem = unat (m_chunkCount p) * sizeof_DataChunk"
    "m_useSize p = of_nat (card (used p) * sizeof_DataChunk)"
  using assms by (simp_all add: pool_inv_def)

lemma pool_inv_idle:
  "pool_inv p \<Longrightarrow> k < length (m_senderList p) \<Longrightarrow> k \<notin> live p \<Longrightarrow> m_senderList p ! k = Sender_ctor"
  by (simp add: pool_inv_def live_def)

lemma finite_used [simp]: "finite (used p)"
  by (simp add: used_def)

lemma length_set_flags [simp]: "length (set_flags i n flags) = length flags"
proof -
  have "length (fold (\<lambda>j fl. fl[j := True]) js flags) = length flags" for js
    by (induction js arbitrary: flags) auto
  then show ?thesis by (simp add: set_flags_def)
qed

lemma nth_set_flags:
  assumes "i + n \<le> length flags" "j < length flags"
  shows "set_flags i n flags ! j = (if i \<le> j \<and> j < i + n then True else flags ! j)"
proof -
  have "fold (\<lambda>j fl. fl[j := True]) js flags ! j = (if j \<in> set js then True else flags ! j)"
    if "j < length flags" for js
    using that by (induction js arbitrary: flags) auto
  then show ?thesis using assms by (simp add: set_flags_def)
qed

lemma pool_inv_Init:
  assumes "length mem = unat count * sizeof_DataChunk"
  shows "\<exists>p. SendPool_Init count (Some mem) SendPool_ctor = Inr p \<and> pool_inv p \<and> live p = {}"
proof -
  let ?p = "SendPool_ctor\<lparr>m_chunk := Some mem, m_chunkCount := count,
    m_useFlag := replicate (unat count) False, m_senderList := replicate (unat count) Sender_ctor\<rparr>"
  have l: "live ?p = {}" by (auto simp: live_def Sender_ctor_def)
  have u: "used ?p = {}" by (auto simp: used_def)
  have "pool_inv ?p" unfolding pool_inv_def l u using assms by (simp add: SendPool_ctor_def)
  then show ?thesis using l by (simp add: SendPool_Init_def SendPool_ctor_def)
qed

lemma chunks_for_pos: "0 < chunks_for sz"
proof -
  have "unat sz div 1024 < 64" using unsigned_less[of sz, where 'a = nat] by (simp add: div_less_iff_less_mult)
  then show ?thesis
    by (simp add: chunks_for_def sizeof_DataChunk_def word_less_nat_alt unat_word_ariths unat_div)
qed

lemma unat_chunks_for: "unat (chunks_for sz) = unat sz div 1024 + 1"
proof -
  have "unat sz div 1024 < 64" using unsigned_less[of sz, where 'a = nat] by (simp add: div_less_iff_less_mult)
  then show ?thesis
    by (simp add: chunks_for_def sizeof_DataChunk_def unat_word_ariths unat_div)
qed

lemma chunks_for_fits: "unat sz < unat (chunks_for sz) * sizeof_DataChunk"
  using dividend_less_div_times[of 1024 "unat sz"] by (simp add: unat_chunks_for sizeof_DataChunk_def)

text \<open>A run that the scan reports free belongs to no live \<open>Sender\<close>.\<close>

lemma free_run_disjoint:
  assumes "pool_inv p" "free_run (m_useFlag p) i n" "k \<in> live p"
  shows "run p k \<inter> {i..<i + n} = {}"
proof -
  have "used p \<inter> {i..<i + n} = {}" using assms(2) by (auto simp: used_def free_run_def)
  then show ?thesis using pool_inv_live(5)[OF assms(1,3)] by blast
qed

lemma free_run_idle:
  assumes inv: "pool_inv p" and free: "free_run (m_useFlag p) i n" and n: "0 < n"
  shows "i < length (m_senderList p)" "m_senderList p ! i = Sender_ctor" "i \<notin> live p"
proof -
  show lt: "i < length (m_senderList p)"
    using pool_inv_sizes[OF inv] free n by (simp add: free_run_def)
  show nl: "i \<notin> live p"
    using free_run_disjoint[OF inv free, of i] pool_inv_live(6)[OF inv, of i] n by fastforce
  show "m_senderList p ! i = Sender_ctor" by (rule pool_inv_idle[OF inv lt nl])
qed

text \<open>Occupying a free run: one more live \<open>Sender\<close>, every other run untouched.\<close>

lemma Alloc_free_run:
  assumes inv: "pool_inv p" and free: "free_run (m_useFlag p) i (unat c)" and c: "0 < c"
  defines "p' \<equiv> p\<lparr>m_useFlag := set_flags i (unat c) (m_useFlag p),
      m_useSize := m_useSize p + c * of_nat sizeof_DataChunk,
      m_senderList := (m_senderList p)[i := \<lparr>m_tempChunk = Some i, m_index = int i, m_count = c\<rparr>]\<rparr>"
  shows "pool_inv p'" "live p' = insert i (live p)" "run p' i = {i..<i + unat c}"
    "k \<in> live p \<Longrightarrow> run p' k = run p k"
proof -
  have n: "0 < unat c" using c by (simp add: word_less_nat_alt)
  note idle = free_run_idle[OF inv free n]
  show live: "live p' = insert i (live p)"
    using idle by (auto simp: live_def p'_def nth_list_update)
  show runi: "run p' i = {i..<i + unat c}" using idle by (simp add: run_def p'_def)
  have runk: "run p' k = run p k" if "k \<in> live p" for k
    using that idle by (cases "k = i") (simp_all add: run_def p'_def)
  then show "k \<in> live p \<Longrightarrow> run p' k = run p k" .
  have used: "used p' = used p \<union> {i..<i + unat c}"
    using free by (auto simp: used_def p'_def nth_set_flags free_run_def)
  have Un: "used p' = (\<Union>k \<in> live p'. run p' k)"
    using pool_inv_used[OF inv] by (simp add: used live runi runk Un_commute)
  have sep: "run p' k \<inter> run p' k' = {}" if k: "k \<in> live p'" "k' \<in> live p'" "k \<noteq> k'" for k k'
  proof -
    have "run p k \<inter> {i..<i + unat c} = {}" if "k \<in> live p" for k
      by (rule free_run_disjoint[OF inv free that])
    then show ?thesis using k pool_inv_disjoint[OF inv, of k k'] live
      by (metis Int_commute insert_iff runi runk)
  qed
  have each: "m_tempChunk (m_senderList p' ! k) = Some k \<and> m_index (m_senderList p' ! k) = int k
        \<and> 0 < unat (m_count (m_senderList p' ! k)) \<and> run p' k \<subseteq> {..<length (m_useFlag p')}"
    if k: "k \<in> live p'" for k
  proof (cases "k = i")
    case True
    have "m_senderList p' ! i = \<lparr>m_tempChunk = Some i, m_index = int i, m_count = c\<rparr>"
      using idle(1) by (simp add: p'_def)
    moreover have "{i..<i + unat c} \<subseteq> {..<length (m_useFlag p')}"
      using free unfolding free_run_def by (simp add: p'_def subset_iff)
    ultimately show ?thesis using n runi True by simp
  next
    case False
    then have "k \<in> live p" using k live by simp
    with pool_inv_live[OF inv this] False show ?thesis by (simp add: runk) (simp add: p'_def)
  qed
  have "card (used p') = card (used p) + unat c"
    using free unfolding used by (subst card_Un_disjoint) (auto simp: used_def free_run_def)
  then have size: "m_useSize p' = of_nat (card (used p') * sizeof_DataChunk)"
    using pool_inv_sizes(4)[OF inv] by (simp add: p'_def distrib_right)
  have reset: "m_senderList p' ! k = Sender_ctor"
    if k: "k < length (m_senderList p')" "m_tempChunk (m_senderList p' ! k) = None" for k
  proof -
    have ki: "k \<noteq> i" using k idle(1) by (auto simp: p'_def)
    then have "k < length (m_senderList p)" "k \<notin> live p" "m_senderList p' ! k = m_senderList p ! k"
      using k by (simp_all add: p'_def live_def)
    then show ?thesis using pool_inv_idle[OF inv] by metis
  qed
  have "length (m_useFlag p') = unat (m_chunkCount p')" "length (m_senderList p') = unat (m_chunkCount p')"
    "\<exists>mem. m_chunk p' = Some mem \<and> length mem = unat (m_chunkCount p') * sizeof_DataChunk"
    using pool_inv_sizes[OF inv] by (simp_all add: p'_def)
  then show "pool_inv p'"
    using Un sep each size reset unfolding pool_inv_def by blast
qed

text \<open>\<open>Alloc\<close> on a pool that satisfies the invariant never faults.\<close>

lemma SendPool_Alloc_cases:
  assumes inv: "pool_inv p"
  obtains (exhausted) "SendPool_Alloc sz p = Inr (None, p)"
      "\<And>i. \<not> free_run (m_useFlag p) i (unat (chunks_for sz))"
  | (run) k p' where "SendPool_Alloc sz p = Inr (Some k, p')" "pool_inv p'"
      "first_free (unat (chunks_for sz)) (m_useFlag p) k" "k \<notin> live p"
      "live p' = insert k (live p)" "run p' k = {k..<k + unat (chunks_for sz)}"
      "\<And>j. j \<in> live p \<Longrightarrow> run p' j = run p j" "m_chunk p' = m_chunk p"
      "m_chunkCount p' = m_chunkCount p"
proof -
  let ?c = "chunks_for sz"
  have c: "0 < ?c" "0 < unat ?c" using chunks_for_pos[of sz] by (simp_all add: word_less_nat_alt)
  from GetAllocIndex_cases[OF c(1), of p] show thesis
  proof (elim disjE exE conjE)
    fix i assume i: "GetAllocIndex ?c p = int i" "first_free (unat ?c) (m_useFlag p) i"
    then have free: "free_run (m_useFlag p) i (unat ?c)" by (simp add: first_free_def)
    note idle = free_run_idle[OF inv free c(2)]
    note step = Alloc_free_run[OF inv free c(1)]
    have "SetSendDataChunk (Some i) (int i) ?c (m_senderList p ! i)
        = Inr \<lparr>m_tempChunk = Some i, m_index = int i, m_count = ?c\<rparr>"
      using idle(2) c(1) by (simp add: SetSendDataChunk_def Sender_ctor_def)
    then have "SendPool_Alloc sz p = Inr (Some i, p\<lparr>m_useFlag := set_flags i (unat ?c) (m_useFlag p),
        m_useSize := m_useSize p + ?c * of_nat sizeof_DataChunk,
        m_senderList := (m_senderList p)[i := \<lparr>m_tempChunk = Some i, m_index = int i, m_count = ?c\<rparr>]\<rparr>)"
      using i(1) idle(1) by (simp add: SendPool_Alloc_def Let_def)
    then show thesis using run[OF _ step(1) i(2) idle(3) step(2,3,4)] by simp
  next
    assume "GetAllocIndex ?c p = -1" "\<forall>i. \<not> free_run (m_useFlag p) i (unat ?c)"
    then show thesis using exhausted by (simp add: SendPool_Alloc_def)
  qed
qed

section \<open>Release\<close>

lemma dealloc_loop_used:
  "{i..<i + n} \<subseteq> used p \<Longrightarrow>
   \<exists>fl. dealloc_loop i n p = Inr (True, p\<lparr>m_useFlag := fl,
          m_useSize := m_useSize p - of_nat (n * sizeof_DataChunk)\<rparr>)
     \<and> length fl = length (m_useFlag p)
     \<and> {j. j < length fl \<and> fl ! j} = used p - {i..<i + n}"
proof (induction n arbitrary: i p)
  case 0
  then show ?case by (intro exI[of _ "m_useFlag p"]) (simp add: used_def)
next
  case (Suc n)
  let ?p = "p\<lparr>m_useFlag := (m_useFlag p)[i := False], m_useSize := m_useSize p - of_nat sizeof_DataChunk\<rparr>"
  have i: "i < length (m_useFlag p)" "m_useFlag p ! i"
    using subsetD[OF Suc.prems, of i] by (simp_all add: used_def)
  have u: "used ?p = used p - {i}" using i by (auto simp: used_def nth_list_update)
  then have "{Suc i..<Suc i + n} \<subseteq> used ?p" using Suc.prems by auto
  from Suc.IH[OF this] obtain fl where fl:
    "dealloc_loop (Suc i) n ?p = Inr (True, ?p\<lparr>m_useFlag := fl,
        m_useSize := m_useSize ?p - of_nat (n * sizeof_DataChunk)\<rparr>)"
    "length fl = length (m_useFlag ?p)" "{j. j < length fl \<and> fl ! j} = used ?p - {Suc i..<Suc i + n}"
    by blast
  moreover have "used p - {i} - {Suc i..<Suc i + n} = used p - {i..<i + Suc n}" by auto
  moreover have "m_useSize p - of_nat sizeof_DataChunk - of_nat (n * sizeof_DataChunk)
      = m_useSize p - of_nat (Suc n * sizeof_DataChunk)" by (simp add: algebra_simps)
  ultimately show ?case using i u by (intro exI[of _ fl]) simp
qed

lemma Sender_DeAlloc_live:
  assumes inv: "pool_inv p" and k: "k \<in> live p"
  obtains p' where "Sender_DeAlloc k p = Inr p'" "pool_inv p'" "live p' = live p - {k}"
    "used p' = used p - run p k" "\<And>j. j \<in> live p' \<Longrightarrow> run p' j = run p j" "m_chunk p' = m_chunk p"
    "m_chunkCount p' = m_chunkCount p"
proof -
  let ?s = "m_senderList p ! k"
  let ?n = "unat (m_count ?s)"
  let ?q = "p\<lparr>m_senderList := (m_senderList p)[k := ?s\<lparr>m_tempChunk := None, m_index := -1, m_count := 0\<rparr>]\<rparr>"
  note lk = pool_inv_live[OF inv k] and sz = pool_inv_sizes[OF inv]
  have idle: "?s\<lparr>m_tempChunk := None, m_index := -1, m_count := 0\<rparr> = Sender_ctor"
    by (simp add: Sender_ctor_def)
  have klt: "k < length (m_senderList p)" using k by (simp add: live_def)
  have uq: "used ?q = used p" by (simp add: used_def)
  have "{k..<k + ?n} \<subseteq> used ?q" using lk(5) unfolding uq run_def .
  from dealloc_loop_used[OF this] obtain fl where fl:
    "dealloc_loop k ?n ?q = Inr (True, ?q\<lparr>m_useFlag := fl,
        m_useSize := m_useSize ?q - of_nat (?n * sizeof_DataChunk)\<rparr>)"
    "length fl = length (m_useFlag ?q)" "{j. j < length fl \<and> fl ! j} = used ?q - {k..<k + ?n}"
    by blast
  define p' where "p' = ?q\<lparr>m_useFlag := fl, m_useSize := m_useSize ?q - of_nat (?n * sizeof_DataChunk)\<rparr>"
  have "k + ?n \<le> unat (m_chunkCount p)"
    using lk(3,4) sz(1) unfolding run_def by (metis atLeastLessThan_subset_iff lessThan_atLeast0 le_add1
        add.right_neutral less_irrefl nat_add_left_cancel_less linorder_not_le)
  then have "m_count ?s \<le> m_chunkCount p" "int k < int (unat (m_chunkCount p))"
    using lk(3) by (simp_all add: word_le_nat_alt del: of_nat_unat)
  moreover have "0 < m_count ?s" using lk(3) by (simp add: word_less_nat_alt)
  ultimately have ret: "Sender_DeAlloc k p = Inr p'"
    using lk(1,2) fl(1) by (simp add: Sender_DeAlloc_def SendPool_DeAlloc_def p'_def Let_def)
  have used': "used p' = used p - run p k"
    using fl(2,3) by (simp add: used_def p'_def run_def)
  have live': "live p' = live p - {k}"
    using klt by (auto simp: live_def p'_def nth_list_update)
  have sl: "m_senderList p' = (m_senderList p)[k := Sender_ctor]" by (simp add: p'_def idle)
  have runj: "run p' j = run p j" if "j \<in> live p'" for j
    using that live' by (auto simp: run_def sl)
  have Un: "used p' = (\<Union>j \<in> live p'. run p' j)"
  proof -
    have "used p = run p k \<union> (\<Union>j \<in> live p'. run p j)"
      using pool_inv_used[OF inv] live' k by blast
    moreover have "run p k \<inter> (\<Union>j \<in> live p'. run p j) = {}"
      using pool_inv_disjoint[OF inv k] live' by blast
    ultimately show ?thesis using used' runj by (simp add: Diff_triv Int_commute Un_Diff)
  qed
  have card: "card (used p') = card (used p) - ?n" "?n \<le> card (used p)"
    using lk(5) card_mono[OF finite_used lk(5)] by (simp_all add: used' card_Diff_subset run_def)
  have size: "m_useSize p' = of_nat (card (used p') * sizeof_DataChunk)"
  proof -
    have "m_useSize p' = of_nat (card (used p) * sizeof_DataChunk) - of_nat (?n * sizeof_DataChunk)"
      using sz(4) by (simp add: p'_def)
    also have "\<dots> = of_nat (card (used p) * sizeof_DataChunk - ?n * sizeof_DataChunk)"
      using card(2) by (simp add: of_nat_diff)
    finally show ?thesis using card by (simp add: diff_mult_distrib)
  qed
  have each: "m_tempChunk (m_senderList p' ! j) = Some j \<and> m_index (m_senderList p' ! j) = int j
        \<and> 0 < unat (m_count (m_senderList p' ! j)) \<and> run p' j \<subseteq> {..<length (m_useFlag p')}"
    if j: "j \<in> live p'" for j
    using pool_inv_live[OF inv, of j] j fl(2) by (simp add: runj live') (simp add: p'_def)
  have reset: "m_senderList p' ! j = Sender_ctor"
    if j: "j < length (m_senderList p')" "m_tempChunk (m_senderList p' ! j) = None" for j
  proof (cases "j = k")
    case True
    then show ?thesis using klt by (simp add: sl)
  next
    case False
    then have "j < length (m_senderList p)" "j \<notin> live p" "m_senderList p' ! j = m_senderList p ! j"
      using j by (simp_all add: sl live_def)
    then show ?thesis using pool_inv_idle[OF inv] by metis
  qed
  have sep: "run p' j \<inter> run p' j' = {}" if "j \<in> live p'" "j' \<in> live p'" "j \<noteq> j'" for j j'
    using pool_inv_disjoint[OF inv, of j j'] that runj live' by simp
  have "length (m_useFlag p') = unat (m_chunkCount p')" "length (m_senderList p') = unat (m_chunkCount p')"
    "\<exists>mem. m_chunk p' = Some mem \<and> length mem = unat (m_chunkCount p') * sizeof_DataChunk"
    using sz fl(2) by (simp_all add: p'_def)
  then have "pool_inv p'" using Un sep each size reset unfolding pool_inv_def by blast
  then show thesis using that[OF ret _ live' used' runj] by (simp add: p'_def)
qed

text \<open>The live runs determine the pool.\<close>

lemma pool_inv_determined:
  assumes p: "pool_inv p" and q: "pool_inv q" and live: "live p = live q"
    and run: "\<And>k. k \<in> live q \<Longrightarrow> run p k = run q k"
    and mem: "m_chunk p = m_chunk q" "m_chunkCount p = m_chunkCount q"
  shows "p = q"
proof -
  note sp = pool_inv_sizes[OF p] and sq = pool_inv_sizes[OF q]
  have used: "used p = used q" using pool_inv_used[OF p] pool_inv_used[OF q] live run by simp
  have "m_useFlag p = m_useFlag q"
    using used sp(1) sq(1) mem(2) by (intro nth_equalityI) (auto simp: used_def)
  moreover have "m_senderList p ! k = m_senderList q ! k" if "k < length (m_senderList p)" for k
  proof (cases "k \<in> live q")
    case True
    then have kp: "k \<in> live p" using live by simp
    have "unat (m_count (m_senderList p ! k)) = unat (m_count (m_senderList q ! k))"
      using run[OF True] by (simp add: run_def ivl_eq_same_lower)
    then show ?thesis using pool_inv_live(1,2)[OF p kp] pool_inv_live(1,2)[OF q True]
      by (intro Sender.equality) (simp_all add: word_unat_eq_iff)
  next
    case False
    then show ?thesis using that pool_inv_idle[OF p] pool_inv_idle[OF q] live sp(2) sq(2) mem(2) by metis
  qed
  then have "m_senderList p = m_senderList q" using sp(2) sq(2) mem(2) by (intro nth_equalityI) simp_all
  ultimately show ?thesis using mem sp(4) sq(4) used by (intro SendPool.equality) simp_all
qed

section \<open>The allocator contract\<close>

interpretation pool: run_allocator pool_inv live run SendPool_Alloc Sender_DeAlloc
proof unfold_locales
  fix p :: SendPool and q
  assume inv: "pool_inv p"
  show "run p k \<inter> run p k' = {}" if "k \<in> live p" "k' \<in> live p" "k \<noteq> k'" for k k'
    using pool_inv_disjoint[OF inv that] .
  show "\<exists>r p'. SendPool_Alloc q p = Inr (r, p') \<and> pool_inv p'"
    using inv by (cases rule: SendPool_Alloc_cases[OF inv, of q, case_names exhausted run]) auto
  show "p' = p" if "SendPool_Alloc q p = Inr (None, p')" for p'
    using that by (cases rule: SendPool_Alloc_cases[OF inv, of q, case_names exhausted run]) auto
  show "k \<notin> live p \<and> live p' = insert k (live p) \<and> (\<forall>j \<in> live p. run p' j = run p j)"
    if "SendPool_Alloc q p = Inr (Some k, p')" for k p'
    using that by (cases rule: SendPool_Alloc_cases[OF inv, of q, case_names exhausted run]) auto
  show "\<exists>p'. Sender_DeAlloc k p = Inr p' \<and> pool_inv p' \<and> live p' = live p - {k}
      \<and> (\<forall>j \<in> live p'. run p' j = run p j)" if "k \<in> live p" for k
    using Sender_DeAlloc_live[OF inv that] by metis
qed

section \<open>Properties\<close>

text \<open>First-fit allocation is exact and safe.  On a well-formed pool \<open>SendPool::Alloc\<close> never
  faults.  It returns \<^verbatim>\<open>nullptr\<close> and changes nothing exactly when the pool has no contiguous run of
  \<open>size / 1024 + 1\<close> free chunks; otherwise it hands out the lowest such run, which is larger than the
  packet, was owned by nobody, and is disjoint from the run of every other live \<open>Sender\<close>; the pool
  stays well-formed.\<close>

lemma SendPool_Alloc_first_fit:
  assumes "pool_inv p"
  shows "case SendPool_Alloc sz p of
      Inl _ \<Rightarrow> False
    | Inr (None, p') \<Rightarrow> p' = p \<and> (\<forall>i. \<not> free_run (m_useFlag p) i (unat sz div 1024 + 1))
    | Inr (Some k, p') \<Rightarrow>
        pool_inv p' \<and> live p' = insert k (live p) \<and> k \<notin> live p
      \<and> free_run (m_useFlag p) k (unat sz div 1024 + 1)
      \<and> (\<forall>i<k. \<not> free_run (m_useFlag p) i (unat sz div 1024 + 1))
      \<and> unat sz < card (run p' k) * sizeof_DataChunk
      \<and> (\<forall>j \<in> live p. run p' j = run p j \<and> run p' j \<inter> run p' k = {})"
proof (cases rule: SendPool_Alloc_cases[OF assms, of sz, case_names exhausted run])
  case exhausted
  then show ?thesis by (simp add: unat_chunks_for)
next
  case (run k p')
  have "run p' j \<inter> run p' k = {}" if "j \<in> live p" for j
    using pool_inv_disjoint[OF run(2), of j k] that run(4,5) by auto
  then show ?thesis
    using run chunks_for_fits[of sz] by (simp add: first_free_def unat_chunks_for)
qed

definition four_kb :: "byte list" where
  "four_kb = replicate (4 * 1024) 0"

definition four_chunks :: SendPool where
  "four_chunks = \<lparr>m_chunk = Some four_kb, m_senderList = [Sender_ctor, Sender_ctor, Sender_ctor, Sender_ctor],
     m_useFlag = [False, False, False, False], m_chunkCount = 4, m_useSize = 0\<rparr>"

lemma replicate_4: "replicate 4 x = [x, x, x, x]"
  by (simp add: numeral_eq_Suc)

lemma four_chunks_inv: "pool_inv four_chunks" and four_chunks_live: "live four_chunks = {}"
proof -
  obtain p where p: "SendPool_Init 4 (Some four_kb) SendPool_ctor = Inr p" "pool_inv p" "live p = {}"
    using pool_inv_Init[of four_kb 4] by (auto simp: sizeof_DataChunk_def four_kb_def)
  then have "p = four_chunks"
    by (simp add: SendPool_Init_def SendPool_ctor_def four_chunks_def replicate_4)
  then show "pool_inv four_chunks" "live four_chunks = {}" using p by simp_all
qed

lemma four_chunks_Alloc: "\<exists>p'. SendPool_Alloc 1312 four_chunks = Inr (Some 0, p')"
  by (simp add: SendPool_Alloc_def four_chunks_def GetAllocIndex_def chunks_for_def sizeof_DataChunk_def
      SetSendDataChunk_def Sender_ctor_def Let_def)

lemma SendPool_Alloc_first_fit_witness:
  "pool_inv four_chunks \<and> (\<exists>p'. SendPool_Alloc 1312 four_chunks = Inr (Some 0, p')
     \<and> pool_inv p' \<and> live p' = {0} \<and> 1312 < card (run p' 0) * sizeof_DataChunk)"
  using SendPool_Alloc_first_fit[OF four_chunks_inv, of 1312] four_chunks_inv four_chunks_live
    four_chunks_Alloc by auto

text \<open>(C21) Releasing what was just allocated gives back the very pool there was before: chunk flags,
  usage counter and \<open>Sender\<close> slots are all restored.\<close>

theorem SendPool_Alloc_DeAlloc:
  assumes "pool_inv p" "SendPool_Alloc sz p = Inr (Some k, p')"
  shows "Sender_DeAlloc k p' = Inr p"
proof (cases rule: SendPool_Alloc_cases[OF assms(1), of sz, case_names exhausted run])
  case exhausted
  then show ?thesis using assms(2) by simp
next
  case (run k' q)
  then have eq: "k' = k" "q = p'" using assms(2) by simp_all
  have p': "pool_inv p'" "k \<in> live p'" using run eq by simp_all
  obtain r where r: "Sender_DeAlloc k p' = Inr r" "pool_inv r" "live r = live p' - {k}"
    "\<And>j. j \<in> live r \<Longrightarrow> run r j = run p' j" "m_chunk r = m_chunk p'" "m_chunkCount r = m_chunkCount p'"
    using Sender_DeAlloc_live[OF p'] by metis
  have "live r = live p" using r(3) run(4,5) eq by simp
  moreover have "run r j = run p j" if "j \<in> live p" for j
    using that r(4) run(7) eq calculation by simp
  ultimately have "r = p" by (intro pool_inv_determined[OF r(2) assms(1)]) (use r run eq in simp_all)
  then show ?thesis using r(1) by simp
qed

theorem SendPool_Alloc_DeAlloc_witness:
  "pool_inv four_chunks \<and> (\<exists>p'. SendPool_Alloc 1312 four_chunks = Inr (Some 0, p')
     \<and> Sender_DeAlloc 0 p' = Inr four_chunks)"
  using SendPool_Alloc_DeAlloc[OF four_chunks_inv] four_chunks_Alloc four_chunks_inv by blast





end
