(* ===== verification/Session.thy ===== *)
theory Session
  imports RecvBuffer SendPool
begin

text \<open>
  \<^verbatim>\<open>ServerCore/{Session,IocpEvent,SocketUtils,NetAddress}\<close> and the session table of \<^verbatim>\<open>Service\<close>: one
  overlapped TCP connection.  Completion handlers are atomic steps on the network state; the
  operating system is a parameter, a function from the history of system calls to the answer of the
  last one; the four virtual functions a subclass overrides are a record of parameters.
\<close>

section \<open>The operating system\<close>

datatype EventType = Connect_ev | Disconnect_ev | Accept_ev | Recv_ev | Send_ev

datatype sockopt = SO_LINGER uint16 uint16 | SO_REUSEADDR bool | SO_RCVBUF int | SO_SNDBUF int
  | TCP_NODELAY bool | SO_UPDATE_ACCEPT_CONTEXT nat

text \<open>An address is the IPv4 address and the port; \<^verbatim>\<open>INADDR_ANY\<close> is address 0.\<close>

type_synonym SOCKADDR_IN = "uint32 \<times> uint16"

text \<open>A \<^verbatim>\<open>WSABUF\<close>: a pointer, here the index of the chunk it points at, and a length.\<close>

type_synonym WSABUF = "nat option \<times> nat"

datatype syscall =
    sys_WSAStartup | sys_WSACleanup | sys_WSAIoctl nat EventType
  | sys_WSASocket | sys_closesocket nat | sys_setsockopt nat sockopt | sys_bind nat SOCKADDR_IN | sys_listen nat
  | sys_CreateIoCompletionPort nat | sys_ConnectEx nat SOCKADDR_IN | sys_DisconnectEx nat
  | sys_AcceptEx nat nat | sys_getpeername nat
  | sys_WSARecv nat nat int | sys_WSASend nat "WSABUF list"

text \<open>What a call answers: success with a value (a handle, an address), or an error code.\<close>

datatype answer = Ok uint32 uint16 | Err int

type_synonym os = "syscall list \<Rightarrow> answer"

definition WSA_IO_PENDING :: int where "WSA_IO_PENDING = 997"
definition WSAECONNABORTED :: int where "WSAECONNABORTED = 10053"
definition WSAECONNRESET :: int where "WSAECONNRESET = 10054"
definition INVALID_SOCKET :: nat where "INVALID_SOCKET = 2 ^ 64 - 1"

section \<open>State\<close>

record Session =
  m_socket :: nat
  m_netAddress :: SOCKADDR_IN
  m_connected :: bool
  m_connectOwner :: "nat option"
  m_disconnectOwner :: "nat option"
  m_recvOwner :: "nat option"
  m_sendOwner :: "nat option"
  m_senders :: "nat list"
  m_recvBuffer :: RecvBuffer
  m_senderQueue :: "nat list"
  m_sendRegistered :: bool

text \<open>The network state: the sessions, addressed by position; the session table of the \<open>Service\<close> (a
  \<^verbatim>\<open>std::set\<close> ordered by address); the socket of the \<open>Listener\<close> and the session its accept event waits
  for; the pool of \<open>Sender\<close>; the history of system calls; and the state
  \<open>app\<close> of the code that overrides the virtual functions.\<close>

record 'app net =
  heap :: "Session list"
  m_sessions :: "nat list"
  m_sessionCount :: int
  m_maxSessionCount :: int
  m_isServerService :: bool
  m_serviceAddress :: SOCKADDR_IN
  m_listenSocket :: nat
  m_acceptSession :: "nat option"
  pool :: SendPool
  log :: "syscall list"
  app :: 'app

text \<open>The overridable functions.  \<open>OnRecv\<close> gets the memory its packet pointer points into.\<close>

record 'app hooks =
  OnConnected :: "nat \<Rightarrow> 'app net \<Rightarrow> 'app net outcome"
  OnRecv :: "nat \<Rightarrow> byte list \<Rightarrow> 'app net \<Rightarrow> (bool \<times> 'app net) outcome"
  OnSend :: "nat \<Rightarrow> int \<Rightarrow> 'app net \<Rightarrow> 'app net outcome"
  OnDisconnected :: "nat \<Rightarrow> 'app net \<Rightarrow> 'app net outcome"

abbreviation ses :: "nat \<Rightarrow> 'app net \<Rightarrow> Session" where
  "ses sid net \<equiv> heap net ! sid"

definition upd :: "nat \<Rightarrow> (Session \<Rightarrow> Session) \<Rightarrow> 'app net \<Rightarrow> 'app net" where
  "upd sid f net = net\<lparr>heap := (heap net)[sid := f (ses sid net)]\<rparr>"

definition syscall :: "os \<Rightarrow> syscall \<Rightarrow> 'app net \<Rightarrow> answer \<times> 'app net" where
  "syscall os c net = (os (log net @ [c]), net\<lparr>log := log net @ [c]\<rparr>)"

fun succeeded :: "answer \<Rightarrow> bool" where
  "succeeded (Ok _ _) = True"
| "succeeded (Err _) = False"

section \<open>SocketUtils\<close>

definition CreateSocket :: "os \<Rightarrow> 'app net \<Rightarrow> nat \<times> 'app net" where
  "CreateSocket os net =
     (case syscall os sys_WSASocket net of
        (Ok h _, net') \<Rightarrow> (unat h, net')
      | (Err _, net') \<Rightarrow> (INVALID_SOCKET, net'))"

definition SetSockOpt :: "os \<Rightarrow> nat \<Rightarrow> sockopt \<Rightarrow> 'app net \<Rightarrow> bool \<times> 'app net" where
  "SetSockOpt os s opt net = map_prod succeeded id (syscall os (sys_setsockopt s opt) net)"

definition SetLinger :: "os \<Rightarrow> nat \<Rightarrow> uint16 \<Rightarrow> uint16 \<Rightarrow> 'app net \<Rightarrow> bool \<times> 'app net" where
  "SetLinger os s onoff linger = SetSockOpt os s (SO_LINGER onoff linger)"

definition SetReuseAddress :: "os \<Rightarrow> nat \<Rightarrow> bool \<Rightarrow> 'app net \<Rightarrow> bool \<times> 'app net" where
  "SetReuseAddress os s flag = SetSockOpt os s (SO_REUSEADDR flag)"

definition SetRecvBufferSize :: "os \<Rightarrow> nat \<Rightarrow> int \<Rightarrow> 'app net \<Rightarrow> bool \<times> 'app net" where
  "SetRecvBufferSize os s sz = SetSockOpt os s (SO_RCVBUF sz)"

definition SetSendBufferSize :: "os \<Rightarrow> nat \<Rightarrow> int \<Rightarrow> 'app net \<Rightarrow> bool \<times> 'app net" where
  "SetSendBufferSize os s sz = SetSockOpt os s (SO_SNDBUF sz)"

definition SetTcpNoDelay :: "os \<Rightarrow> nat \<Rightarrow> bool \<Rightarrow> 'app net \<Rightarrow> bool \<times> 'app net" where
  "SetTcpNoDelay os s flag = SetSockOpt os s (TCP_NODELAY flag)"

definition SetUpdateAcceptSocket :: "os \<Rightarrow> nat \<Rightarrow> nat \<Rightarrow> 'app net \<Rightarrow> bool \<times> 'app net" where
  "SetUpdateAcceptSocket os s listenSocket = SetSockOpt os s (SO_UPDATE_ACCEPT_CONTEXT listenSocket)"

definition Bind :: "os \<Rightarrow> nat \<Rightarrow> SOCKADDR_IN \<Rightarrow> 'app net \<Rightarrow> bool \<times> 'app net" where
  "Bind os s addr net = map_prod succeeded id (syscall os (sys_bind s addr) net)"

definition BindAnyAddress :: "os \<Rightarrow> nat \<Rightarrow> uint16 \<Rightarrow> 'app net \<Rightarrow> bool \<times> 'app net" where
  "BindAnyAddress os s port net = map_prod succeeded id (syscall os (sys_bind s (0, port)) net)"

definition Listen :: "os \<Rightarrow> nat \<Rightarrow> 'app net \<Rightarrow> bool \<times> 'app net" where
  "Listen os s net = map_prod succeeded id (syscall os (sys_listen s) net)"

text \<open>\<open>Close\<close> returns the new value of the socket variable.\<close>

definition Close :: "os \<Rightarrow> nat \<Rightarrow> 'app net \<Rightarrow> nat \<times> 'app net" where
  "Close os s net =
     (INVALID_SOCKET, if s \<noteq> INVALID_SOCKET then snd (syscall os (sys_closesocket s) net) else net)"

definition BindWindowsFunction :: "os \<Rightarrow> nat \<Rightarrow> EventType \<Rightarrow> 'app net \<Rightarrow> bool \<times> 'app net" where
  "BindWindowsFunction os s fn net = map_prod succeeded id (syscall os (sys_WSAIoctl s fn) net)"

definition SocketUtils_Init :: "os \<Rightarrow> 'app net \<Rightarrow> 'app net outcome" where
  "SocketUtils_Init os net =
     (let (r, net) = syscall os sys_WSAStartup net in
      ASSERT_CRASH (succeeded r)
       (let (dummySocket, net) = CreateSocket os net; (ok, net) = BindWindowsFunction os dummySocket Connect_ev net in
        ASSERT_CRASH ok
         (let (ok, net) = BindWindowsFunction os dummySocket Disconnect_ev net in
          ASSERT_CRASH ok
           (let (ok, net) = BindWindowsFunction os dummySocket Accept_ev net in
            ASSERT_CRASH ok (Inr (snd (Close os dummySocket net)))))))"

definition SocketUtils_Clear :: "os \<Rightarrow> 'app net \<Rightarrow> 'app net" where
  "SocketUtils_Clear os net = snd (syscall os sys_WSACleanup net)"

section \<open>The session table of the service\<close>

definition AddSession :: "nat \<Rightarrow> 'app net \<Rightarrow> 'app net" where
  "AddSession sid net =
     net\<lparr>m_sessionCount := m_sessionCount net + 1,
         m_sessions := (if sid \<in> set (m_sessions net) then m_sessions net else insort sid (m_sessions net))\<rparr>"

definition ReleaseSession :: "nat \<Rightarrow> 'app net \<Rightarrow> 'app net outcome" where
  "ReleaseSession sid net =
     ASSERT_CRASH (sid \<in> set (m_sessions net))
       (Inr (net\<lparr>m_sessions := remove1 sid (m_sessions net), m_sessionCount := m_sessionCount net - 1\<rparr>))"

section \<open>References to senders\<close>

text \<open>A \<open>SenderRef\<close> is a shared pointer with \<open>Sender::DeAlloc\<close> as its deleter: when a holder lets go
  of a handle that no queue and no send event holds any more, the run goes back to the pool.\<close>

definition sender_refs :: "'app net \<Rightarrow> nat set" where
  "sender_refs net = (\<Union>s \<in> set (heap net). set (m_senderQueue s) \<union> set (m_senders s))"

definition release_sender :: "nat \<Rightarrow> 'app net \<Rightarrow> 'app net outcome" where
  "release_sender k net =
     (if k \<in> sender_refs net then Inr net
      else bindR (Sender_DeAlloc k (pool net)) (\<lambda>p. Inr (net\<lparr>pool := p\<rparr>)))"

fun release_senders :: "nat list \<Rightarrow> 'app net \<Rightarrow> 'app net outcome" where
  "release_senders [] net = Inr net"
| "release_senders (k # ks) net = bindR (release_sender k net) (release_senders ks)"

text \<open>\<^verbatim>\<open>m_sendEvent.m_senders.clear()\<close>\<close>

definition clear_senders :: "nat \<Rightarrow> 'app net \<Rightarrow> 'app net outcome" where
  "clear_senders sid net =
     release_senders (m_senders (ses sid net)) (upd sid (\<lambda>s. s\<lparr>m_senders := []\<rparr>) net)"

section \<open>Session\<close>

definition BUFFER_SIZE :: int where
  "BUFFER_SIZE = 0x10000"

text \<open>The constructor: a new session at the end of the heap.\<close>

definition Session_ctor :: "os \<Rightarrow> 'app net \<Rightarrow> nat \<times> 'app net" where
  "Session_ctor os net =
     (let (sock, net) = CreateSocket os net in
      (length (heap net), net\<lparr>heap := heap net @
         [\<lparr>m_socket = sock, m_netAddress = (0, 0), m_connected = False, m_connectOwner = None,
           m_disconnectOwner = None, m_recvOwner = None, m_sendOwner = None, m_senders = [],
           m_recvBuffer = RecvBuffer_ctor BUFFER_SIZE, m_senderQueue = [], m_sendRegistered = False\<rparr>]\<rparr>))"

definition RegisterDisconnect :: "os \<Rightarrow> nat \<Rightarrow> 'app net \<Rightarrow> bool \<times> 'app net" where
  "RegisterDisconnect os sid net =
     (let net = upd sid (\<lambda>s. s\<lparr>m_disconnectOwner := Some sid\<rparr>) net in
      case syscall os (sys_DisconnectEx (m_socket (ses sid net))) net of
        (Ok _ _, net) \<Rightarrow> (True, net)
      | (Err errorCode, net) \<Rightarrow>
          if errorCode \<noteq> WSA_IO_PENDING then (False, upd sid (\<lambda>s. s\<lparr>m_disconnectOwner := None\<rparr>) net)
          else (True, net))"

definition Disconnect :: "os \<Rightarrow> 'app hooks \<Rightarrow> nat \<Rightarrow> 'app net \<Rightarrow> 'app net outcome" where
  "Disconnect os hk sid net =
     (if \<not> m_connected (ses sid net) then Inr net
      else bindR (OnDisconnected hk sid (upd sid (\<lambda>s. s\<lparr>m_connected := False\<rparr>) net)) (\<lambda>net.
           bindR (ReleaseSession sid net) (\<lambda>net.
             Inr (snd (RegisterDisconnect os sid net)))))"

definition HandleError :: "os \<Rightarrow> 'app hooks \<Rightarrow> int \<Rightarrow> nat \<Rightarrow> 'app net \<Rightarrow> 'app net outcome" where
  "HandleError os hk errorCode sid net =
     (if errorCode = WSAECONNRESET \<or> errorCode = WSAECONNABORTED then Disconnect os hk sid net else Inr net)"

definition RegisterConnect :: "os \<Rightarrow> nat \<Rightarrow> 'app net \<Rightarrow> bool \<times> 'app net" where
  "RegisterConnect os sid net =
     (if m_connected (ses sid net) then (False, net)
      else if m_isServerService net then (False, net)
      else let (ok, net) = SetReuseAddress os (m_socket (ses sid net)) True net in
      if \<not> ok then (False, net)
      else let (ok, net) = BindAnyAddress os (m_socket (ses sid net)) 0 net in
      if \<not> ok then (False, net)
      else let net = upd sid (\<lambda>s. s\<lparr>m_connectOwner := Some sid\<rparr>) net in
      case syscall os (sys_ConnectEx (m_socket (ses sid net)) (m_serviceAddress net)) net of
        (Ok _ _, net) \<Rightarrow> (True, net)
      | (Err errorCode, net) \<Rightarrow>
          if errorCode \<noteq> WSA_IO_PENDING then (False, upd sid (\<lambda>s. s\<lparr>m_connectOwner := None\<rparr>) net)
          else (True, net))"

definition Connect :: "os \<Rightarrow> nat \<Rightarrow> 'app net \<Rightarrow> bool \<times> 'app net" where
  "Connect os sid net = RegisterConnect os sid net"

definition RegisterRecv :: "os \<Rightarrow> 'app hooks \<Rightarrow> nat \<Rightarrow> 'app net \<Rightarrow> 'app net outcome" where
  "RegisterRecv os hk sid net =
     (if \<not> m_connected (ses sid net) then Inr net
      else let net = upd sid (\<lambda>s. s\<lparr>m_recvOwner := Some sid\<rparr>) net; b = m_recvBuffer (ses sid net) in
      bindR (WritePos b) (\<lambda>w.
        case syscall os (sys_WSARecv (m_socket (ses sid net)) w (FreeSize b)) net of
          (Ok _ _, net) \<Rightarrow> Inr net
        | (Err errorCode, net) \<Rightarrow>
            if errorCode \<noteq> WSA_IO_PENDING
            then bindR (HandleError os hk errorCode sid net)
                   (\<lambda>net. Inr (upd sid (\<lambda>s. s\<lparr>m_recvOwner := None\<rparr>) net))
            else Inr net))"

definition RegisterSend :: "os \<Rightarrow> 'app hooks \<Rightarrow> nat \<Rightarrow> 'app net \<Rightarrow> 'app net outcome" where
  "RegisterSend os hk sid net =
     (if \<not> m_connected (ses sid net) then Inr net
      else let net = upd sid (\<lambda>s. s\<lparr>m_sendOwner := Some sid, m_senders := m_senders s @ m_senderQueue s,
                                     m_senderQueue := []\<rparr>) net;
               wsaBufs = map (\<lambda>k. (GetSendPointer k (pool net), unat (GetSendSize k (pool net))))
                           (m_senders (ses sid net)) in
      case syscall os (sys_WSASend (m_socket (ses sid net)) wsaBufs) net of
        (Ok _ _, net) \<Rightarrow> Inr net
      | (Err errorCode, net) \<Rightarrow>
          if errorCode \<noteq> WSA_IO_PENDING
          then bindR (HandleError os hk errorCode sid net) (\<lambda>net.
               bindR (clear_senders sid (upd sid (\<lambda>s. s\<lparr>m_sendOwner := None\<rparr>) net)) (\<lambda>net.
                 Inr (upd sid (\<lambda>s. s\<lparr>m_sendRegistered := False\<rparr>) net)))
          else Inr net)"

definition Send :: "os \<Rightarrow> 'app hooks \<Rightarrow> nat \<Rightarrow> nat \<Rightarrow> 'app net \<Rightarrow> 'app net outcome" where
  "Send os hk sid sender net =
     (let registered = m_sendRegistered (ses sid net);
          net = upd sid (\<lambda>s. s\<lparr>m_senderQueue := m_senderQueue s @ [sender], m_sendRegistered := True\<rparr>) net in
      if \<not> registered then RegisterSend os hk sid net else Inr net)"

definition ProcessConnect :: "os \<Rightarrow> 'app hooks \<Rightarrow> nat \<Rightarrow> 'app net \<Rightarrow> 'app net outcome" where
  "ProcessConnect os hk sid net =
     (let net = upd sid (\<lambda>s. s\<lparr>m_connectOwner := None, m_connected := True\<rparr>) net;
          net = AddSession sid net in
      bindR (OnConnected hk sid net) (RegisterRecv os hk sid))"

definition ProcessDisconnect :: "nat \<Rightarrow> 'app net \<Rightarrow> 'app net" where
  "ProcessDisconnect sid net = upd sid (\<lambda>s. s\<lparr>m_disconnectOwner := None\<rparr>) net"

text \<open>The loop of \<open>ProcessRecv\<close>.  The receive buffer is private to the session and no hook touches
  it, so the loop carries it beside the state the hooks see.  A loop that leaves by \<^verbatim>\<open>return\<close> says
  so with \<open>False\<close>.\<close>

function recv_loop :: "'app hooks \<Rightarrow> nat \<Rightarrow> RecvBuffer \<Rightarrow> 'app net \<Rightarrow> (bool \<times> RecvBuffer \<times> 'app net) outcome" where
  "recv_loop hk sid buf net =
     (if to_size_t (DataSize buf) < sizeof_PacketHeader then Inr (True, buf, net)
      else bindR (ReadPos buf) (\<lambda>r.
        let packet = drop r (m_buffer buf) in
        if length packet < sizeof_PacketHeader then Inl (UB ''header past the buffer'')
        else if unat (m_dataSize packet) < sizeof_PacketHeader then Inr (False, buf, net)
        else if DataSize buf < int (unat (m_dataSize packet)) then Inr (True, buf, net)
        else bindR (OnRecv hk sid packet net) (\<lambda>(ok, net).
          if \<not> ok then Inr (False, buf, net)
          else if fst (OnRead (int (unat (m_dataSize packet))) buf)
          then recv_loop hk sid (snd (OnRead (int (unat (m_dataSize packet))) buf)) net
          else Inr (False, buf, net))))"
  by pat_completeness auto
termination
  by (relation "measure (\<lambda>(_, _, buf, _). nat (DataSize buf))")
    (auto simp: OnRead_def DataSize_def sizeof_PacketHeader_def simp del: of_nat_unat)

declare recv_loop.simps [simp del]

definition ProcessRecv :: "os \<Rightarrow> 'app hooks \<Rightarrow> int \<Rightarrow> nat \<Rightarrow> 'app net \<Rightarrow> 'app net outcome" where
  "ProcessRecv os hk numOfBytes sid net =
     (let net = upd sid (\<lambda>s. s\<lparr>m_recvOwner := None\<rparr>) net in
      if numOfBytes = 0 then Disconnect os hk sid net
      else let (ok, buf) = OnWrite numOfBytes (m_recvBuffer (ses sid net)) in
      if \<not> ok then Disconnect os hk sid net
      else bindR (recv_loop hk sid buf (upd sid (\<lambda>s. s\<lparr>m_recvBuffer := buf\<rparr>) net)) (\<lambda>(more, buf, net).
        let net = upd sid (\<lambda>s. s\<lparr>m_recvBuffer := buf\<rparr>) net in
        if \<not> more then Disconnect os hk sid net
        else bindR (Clean buf) (\<lambda>buf.
          RegisterRecv os hk sid (upd sid (\<lambda>s. s\<lparr>m_recvBuffer := buf\<rparr>) net))))"

definition ProcessSend :: "os \<Rightarrow> 'app hooks \<Rightarrow> int \<Rightarrow> nat \<Rightarrow> 'app net \<Rightarrow> 'app net outcome" where
  "ProcessSend os hk numOfBytes sid net =
     bindR (clear_senders sid (upd sid (\<lambda>s. s\<lparr>m_sendOwner := None\<rparr>) net)) (\<lambda>net.
       if numOfBytes = 0 then Disconnect os hk sid net
       else bindR (OnSend hk sid numOfBytes net) (\<lambda>net.
         if m_senderQueue (ses sid net) = [] then Inr (upd sid (\<lambda>s. s\<lparr>m_sendRegistered := False\<rparr>) net)
         else RegisterSend os hk sid net))"

definition Session_Dispatch :: "os \<Rightarrow> 'app hooks \<Rightarrow> EventType \<Rightarrow> int \<Rightarrow> nat \<Rightarrow> 'app net \<Rightarrow> 'app net outcome" where
  "Session_Dispatch os hk ty numOfBytes sid net =
     (case ty of
        Connect_ev \<Rightarrow> ProcessConnect os hk sid net
      | Disconnect_ev \<Rightarrow> Inr (ProcessDisconnect sid net)
      | Recv_ev \<Rightarrow> ProcessRecv os hk numOfBytes sid net
      | Send_ev \<Rightarrow> ProcessSend os hk numOfBytes sid net
      | Accept_ev \<Rightarrow> Inr net)"

end
