(* ===== verification/Stream.thy ===== *)
theory Stream
  imports Session
begin

text \<open>
  The receive path of a session.  \<open>split_frames\<close> is the reference reading of a TCP byte stream as a
  sequence of length-prefixed packets; the lemmas show that \<open>ProcessRecv\<close> hands exactly these packets
  to \<open>OnRecv\<close>, in order, however the stream is cut into completions.
\<close>

section \<open>The reference parser\<close>

text \<open>The packets at the front of a byte stream, what is left, and whether what is left starts with a
  header whose size field is smaller than a header.\<close>

function split_frames :: "byte list \<Rightarrow> byte list list \<times> byte list \<times> bool" where
  "split_frames bs =
     (if length bs < sizeof_PacketHeader then ([], bs, False)
      else let n = unat (m_dataSize bs) in
        if n < sizeof_PacketHeader then ([], bs, True)
        else if length bs < n then ([], bs, False)
        else let (fs, rest, bad) = split_frames (drop n bs) in (take n bs # fs, rest, bad))"
  by pat_completeness auto
termination by (relation "measure length") (auto simp: sizeof_PacketHeader_def)

declare split_frames.simps [simp del]

lemma m_dataSize_append: "4 \<le> length bs \<Longrightarrow> m_dataSize (bs @ cs) = m_dataSize bs"
  by (simp add: m_dataSize_def bytes_at_def)

lemma m_dataSize_take: "4 \<le> n \<Longrightarrow> m_dataSize (take n bs) = m_dataSize bs"
  by (simp add: m_dataSize_def bytes_at_def drop_take min_def)

lemma split_frames_cases:
  obtains (short) "length bs < 4" "split_frames bs = ([], bs, False)"
  | (bad) "4 \<le> length bs" "unat (m_dataSize bs) < 4" "split_frames bs = ([], bs, True)"
  | (part) "4 \<le> length bs" "4 \<le> unat (m_dataSize bs)" "length bs < unat (m_dataSize bs)"
      "split_frames bs = ([], bs, False)"
  | (frame) fs rest b where "4 \<le> length bs" "4 \<le> unat (m_dataSize bs)" "unat (m_dataSize bs) \<le> length bs"
      "split_frames (drop (unat (m_dataSize bs)) bs) = (fs, rest, b)"
      "split_frames bs = (take (unat (m_dataSize bs)) bs # fs, rest, b)"
proof -
  consider "length bs < 4" | "4 \<le> length bs" "unat (m_dataSize bs) < 4"
    | "4 \<le> length bs" "4 \<le> unat (m_dataSize bs)" "length bs < unat (m_dataSize bs)"
    | "4 \<le> length bs" "4 \<le> unat (m_dataSize bs)" "unat (m_dataSize bs) \<le> length bs" by linarith
  then show thesis
  proof cases
    case 1
    then show thesis using short by (simp add: split_frames.simps sizeof_PacketHeader_def)
  next
    case 2
    then show thesis using bad by (simp add: split_frames.simps sizeof_PacketHeader_def Let_def)
  next
    case 3
    then show thesis using part by (simp add: split_frames.simps sizeof_PacketHeader_def Let_def)
  next
    case 4
    obtain fs rest b where "split_frames (drop (unat (m_dataSize bs)) bs) = (fs, rest, b)"
      by (metis prod_cases3)
    then show thesis using 4 frame
      by (simp add: split_frames.simps[of bs] sizeof_PacketHeader_def Let_def)
  qed
qed

text \<open>A frame boundary does not depend on where the stream is cut.\<close>

lemma split_frames_append:
  "split_frames xs = (fs, rest, False) \<Longrightarrow> split_frames (rest @ ys) = (gs, rest', b) \<Longrightarrow>
   split_frames (xs @ ys) = (fs @ gs, rest', b)"
proof (induction xs arbitrary: fs rule: split_frames.induct)
  case (1 xs)
  show ?case
  proof (cases xs rule: split_frames_cases)
    case (frame hs rest1 b1)
    let ?n = "unat (m_dataSize xs)"
    have eq: "fs = take ?n xs # hs" "rest1 = rest" "b1 = False" using "1.prems"(1) frame(5) by simp_all
    have IH: "split_frames (drop ?n xs @ ys) = (hs @ gs, rest', b)"
      using "1.IH"[of ?n hs] frame eq "1.prems"(2) by (simp add: sizeof_PacketHeader_def)
    have "unat (m_dataSize (xs @ ys)) = ?n" using frame by (simp add: m_dataSize_append)
    then show ?thesis
      using frame IH eq by (simp add: split_frames.simps[of "xs @ ys"] sizeof_PacketHeader_def Let_def)
  qed (use "1.prems" in simp_all)
qed

lemma split_frames_rest:
  "split_frames bs = (fs, rest, False) \<Longrightarrow> length rest < 65536 \<and> split_frames rest = ([], rest, False)"
proof (induction bs arbitrary: fs rule: split_frames.induct)
  case (1 bs)
  show ?case
  proof (cases bs rule: split_frames_cases)
    case part
    then have "length bs < 65536" using unsigned_less[of "m_dataSize bs", where 'a = nat] by simp
    then show ?thesis using part "1.prems" by simp
  next
    case (frame hs rest1 b1)
    then show ?thesis using "1.IH"[of "unat (m_dataSize bs)" hs] "1.prems"
      by (simp add: sizeof_PacketHeader_def)
  qed (use "1.prems" in simp_all)
qed

lemma split_frames_concat:
  "split_frames bs = (fs, rest, b) \<Longrightarrow> concat fs @ rest = bs"
proof (induction bs arbitrary: fs rule: split_frames.induct)
  case (1 bs)
  show ?case
  proof (cases bs rule: split_frames_cases)
    case (frame hs rest1 b1)
    then show ?thesis using "1.IH"[of "unat (m_dataSize bs)" hs] "1.prems"
      by (auto simp: sizeof_PacketHeader_def)
  qed (use "1.prems" in simp_all)
qed

lemma split_frames_whole:
  "\<forall>f \<in> set fs. 4 \<le> length f \<and> unat (m_dataSize f) = length f \<Longrightarrow> split_frames (concat fs) = (fs, [], False)"
proof (induction fs)
  case (Cons f fs)
  then have "unat (m_dataSize (f @ concat fs)) = length f" by (simp add: m_dataSize_append)
  then show ?case using Cons by (simp add: split_frames.simps[of "f @ concat fs"] sizeof_PacketHeader_def Let_def)
qed (simp add: split_frames.simps sizeof_PacketHeader_def)

section \<open>The packet loop\<close>

text \<open>Handing a sequence of packets to \<open>OnRecv\<close>, up to the first it refuses.\<close>

fun feed :: "'app hooks \<Rightarrow> nat \<Rightarrow> byte list list \<Rightarrow> 'app net \<Rightarrow> (bool \<times> 'app net) outcome" where
  "feed hk sid [] net = Inr (True, net)"
| "feed hk sid (f # fs) net =
     bindR (OnRecv hk sid f net) (\<lambda>(ok, net). if ok then feed hk sid fs net else Inr (False, net))"

text \<open>\<open>OnRecv\<close> looks at the bytes of its packet only, not at what lies behind them in the buffer.\<close>

definition reads_only :: "'app hooks \<Rightarrow> nat \<Rightarrow> byte list \<Rightarrow> bool" where
  "reads_only hk sid f \<longleftrightarrow> (\<forall>junk net. OnRecv hk sid (f @ junk) net = OnRecv hk sid f net)"

definition behind :: "RecvBuffer \<Rightarrow> byte list" where
  "behind b = drop (nat (DataSize b)) (drop (nat (m_readPos b)) (m_buffer b))"

lemma recv_loop_pending:
  assumes "rb_inv b"
  shows "recv_loop hk sid b net =
     (let n = unat (m_dataSize (pending b)) in
      if length (pending b) < 4 then Inr (True, b, net)
      else if n < 4 then Inr (False, b, net)
      else if length (pending b) < n then Inr (True, b, net)
      else bindR (OnRecv hk sid (pending b @ behind b) net) (\<lambda>(ok, net).
        if \<not> ok then Inr (False, b, net) else recv_loop hk sid (snd (OnRead (int n) b)) net))"
proof -
  have sz: "DataSize b = int (length (pending b))" using length_pending[OF assms] by simp
  then have st: "to_size_t (DataSize b) = length (pending b)" using assms by (simp add: rb_defs)
  have mem: "drop (nat (m_readPos b)) (m_buffer b) = pending b @ behind b"
    unfolding pending_def behind_def by (rule append_take_drop_id[symmetric])
  have rp: "ReadPos b = Inr (nat (m_readPos b))" if "4 \<le> length (pending b)"
    using that sz assms by (simp add: ReadPos_def rb_inv_def DataSize_def)
  show ?thesis
  proof (cases "length (pending b) < 4")
    case True
    then show ?thesis using st by (subst recv_loop.simps) (simp add: sizeof_PacketHeader_def Let_def)
  next
    case False
    then have four: "4 \<le> length (pending b)" by simp
    have "fst (OnRead (int n) b)" if "n \<le> length (pending b)" for n
      using that sz by (simp add: OnRead_def)
    moreover have "\<not> length (drop (nat (m_readPos b)) (m_buffer b)) < 4" unfolding mem using four by simp
    moreover have "DataSize b < int n \<longleftrightarrow> length (pending b) < n" for n using sz by simp
    ultimately show ?thesis using four
      by (subst recv_loop.simps) (simp add: sizeof_PacketHeader_def Let_def m_dataSize_append rp st mem
          del: of_nat_unat length_drop cong: if_cong)
  qed
qed

lemma recv_loop_feed:
  assumes "rb_inv buf" "split_frames (pending buf) = (fs, rest, bad)" "\<forall>f \<in> set fs. reads_only hk sid f"
  shows "case feed hk sid fs net of
      Inl e \<Rightarrow> recv_loop hk sid buf net = Inl e
    | Inr (ok, net') \<Rightarrow> \<exists>buf'. recv_loop hk sid buf net = Inr (ok \<and> \<not> bad, buf', net') \<and> rb_inv buf'
        \<and> m_bufferSize buf' = m_bufferSize buf \<and> (ok \<longrightarrow> pending buf' = rest)"
  using assms
proof (induction fs arbitrary: buf net)
  case Nil
  then show ?case
    by (cases "pending buf" rule: split_frames_cases) (simp_all add: recv_loop_pending Let_def)
next
  case (Cons f fs)
  show ?case
  proof (cases "pending buf" rule: split_frames_cases)
    case (frame hs r b)
    let ?n = "unat (m_dataSize (pending buf))"
    have eq: "f = take ?n (pending buf)" "hs = fs" "r = rest" "b = bad" using frame(5) Cons.prems(2) by simp_all
    have "OnRecv hk sid (pending buf @ behind buf) net = OnRecv hk sid f net"
      using Cons.prems(3) eq(1) unfolding reads_only_def
      by (metis append.assoc append_take_drop_id list.set_intros(1))
    then have loop: "recv_loop hk sid buf net = bindR (OnRecv hk sid f net) (\<lambda>(ok, net).
        if \<not> ok then Inr (False, buf, net) else recv_loop hk sid (snd (OnRead (int ?n) buf)) net)"
      using frame by (simp add: recv_loop_pending[OF Cons.prems(1)] Let_def)
    from OnRead_refines[OF Cons.prems(1) frame(3)] obtain b1 where b1: "OnRead (int ?n) buf = (True, b1)"
      "rb_inv b1" "pending b1 = drop ?n (pending buf)" "m_bufferSize b1 = m_bufferSize buf" by blast
    have "split_frames (pending b1) = (fs, rest, bad)" using b1(3) frame(4) eq by simp
    from Cons.IH[OF b1(2) this] Cons.prems(3) have IH: "case feed hk sid fs net' of
        Inl e \<Rightarrow> recv_loop hk sid b1 net' = Inl e
      | Inr (ok, net'') \<Rightarrow> \<exists>buf'. recv_loop hk sid b1 net' = Inr (ok \<and> \<not> bad, buf', net'') \<and> rb_inv buf'
          \<and> m_bufferSize buf' = m_bufferSize b1 \<and> (ok \<longrightarrow> pending buf' = rest)" for net'
      by simp
    show ?thesis
    proof (cases "OnRecv hk sid f net")
      case (Inl e)
      then show ?thesis using loop by simp
    next
      case (Inr r)
      obtain ok net' where r: "r = (ok, net')" by fastforce
      show ?thesis
      proof (cases ok)
        case True
        then have l: "recv_loop hk sid buf net = recv_loop hk sid b1 net'"
            "feed hk sid (f # fs) net = feed hk sid fs net'"
          using Inr r loop b1(1) by simp_all
        show ?thesis unfolding l using IH[of net', unfolded b1(4)] .
      next
        case False
        then show ?thesis using Inr r loop Cons.prems(1) by simp
      qed
    qed
  qed (use Cons.prems in simp_all)
qed

section \<open>Receive completions\<close>

text \<open>A session that waits for data: connected, at least 64 KiB posted, and no complete packet left
  in the buffer.\<close>

definition rx_ready :: "nat \<Rightarrow> 'app net \<Rightarrow> bool" where
  "rx_ready sid net \<longleftrightarrow> sid < length (heap net) \<and> m_connected (ses sid net)
     \<and> rb_inv (m_recvBuffer (ses sid net)) \<and> m_bufferSize (m_recvBuffer (ses sid net)) = BUFFER_SIZE
     \<and> BUFFER_SIZE \<le> FreeSize (m_recvBuffer (ses sid net))
     \<and> (let p = pending (m_recvBuffer (ses sid net)) in split_frames p = ([], p, False))"

text \<open>The receive-side contract of the operating system: a posted receive is accepted.\<close>

definition recv_accepted :: "os \<Rightarrow> bool" where
  "recv_accepted os \<longleftrightarrow> (\<forall>l s w n. os (l @ [sys_WSARecv s w n]) = Err WSA_IO_PENDING
      \<or> succeeded (os (l @ [sys_WSARecv s w n])))"

text \<open>A completed receive: the system has stored the bytes at the write cursor.\<close>

definition arrive :: "os \<Rightarrow> 'app hooks \<Rightarrow> nat \<Rightarrow> byte list \<Rightarrow> 'app net \<Rightarrow> 'app net outcome" where
  "arrive os hk sid bs net =
     ProcessRecv os hk (int (length bs)) sid
       (upd sid (\<lambda>s. s\<lparr>m_recvBuffer := recv_store bs (m_recvBuffer s)\<rparr>) net)"

text \<open>An \<open>OnRecv\<close> that accepts packet \<open>f\<close> as long as the application state satisfies \<open>P\<close>: it looks at the
  packet only, updates the application state by \<open>step\<close>, keeps \<open>P\<close>, and leaves this session connected.\<close>

definition accepts :: "'app hooks \<Rightarrow> nat \<Rightarrow> ('app \<Rightarrow> bool) \<Rightarrow> (byte list \<Rightarrow> 'app \<Rightarrow> 'app) \<Rightarrow> byte list \<Rightarrow> bool" where
  "accepts hk sid P step f \<longleftrightarrow> reads_only hk sid f \<and>
     (\<forall>net. sid < length (heap net) \<and> m_connected (ses sid net) \<and> P (app net) \<longrightarrow>
       (\<exists>net'. OnRecv hk sid f net = Inr (True, net') \<and> app net' = step f (app net) \<and> P (app net')
          \<and> sid < length (heap net') \<and> m_connected (ses sid net')))"

text \<open>The same without an invariant: an \<open>OnRecv\<close> that takes the application from one state to another with a packet, and
  through a sequence of packets.\<close>

definition takes :: "'app hooks \<Rightarrow> nat \<Rightarrow> 'app \<Rightarrow> byte list \<Rightarrow> 'app \<Rightarrow> bool" where
  "takes hk sid a f b \<longleftrightarrow> reads_only hk sid f \<and>
     (\<forall>net. sid < length (heap net) \<and> m_connected (ses sid net) \<and> app net = a \<longrightarrow>
       (\<exists>net'. OnRecv hk sid f net = Inr (True, net') \<and> app net' = b \<and> sid < length (heap net') \<and> m_connected (ses sid net')))"

fun takes_all :: "'app hooks \<Rightarrow> nat \<Rightarrow> 'app \<Rightarrow> byte list list \<Rightarrow> 'app \<Rightarrow> bool" where
  "takes_all hk sid a [] b \<longleftrightarrow> a = b"
| "takes_all hk sid a (f # fs) c \<longleftrightarrow> (\<exists>b. takes hk sid a f b \<and> takes_all hk sid b fs c)"

lemma takes_all_append: "takes_all hk sid a (fs @ gs) c \<longleftrightarrow> (\<exists>b. takes_all hk sid a fs b \<and> takes_all hk sid b gs c)"
  by (induction fs arbitrary: a) auto

lemma takes_all_reads_only: "takes_all hk sid a fs b \<Longrightarrow> \<forall>f \<in> set fs. reads_only hk sid f"
  by (induction fs arbitrary: a) (auto simp: takes_def)

lemma accepts_takes:
  "\<forall>f \<in> set fs. accepts hk sid P step f \<Longrightarrow> sid < length (heap net) \<Longrightarrow> m_connected (ses sid net) \<Longrightarrow> P (app net) \<Longrightarrow>
   takes_all hk sid (app net) fs (fold step fs (app net))"
proof (induction fs arbitrary: net)
  case (Cons f fs)
  then obtain net1 where n1: "app net1 = step f (app net)" "P (app net1)" "sid < length (heap net1)" "m_connected (ses sid net1)"
    unfolding accepts_def by (metis list.set_intros(1))
  have "takes hk sid (app net) f (step f (app net))"
    using Cons.prems(1,4) unfolding takes_def accepts_def by (metis list.set_intros(1))
  then show ?case using Cons.IH[of net1] Cons.prems(1) n1 by auto
qed simp

lemma feed_takes:
  "takes_all hk sid (app net) fs b \<Longrightarrow> sid < length (heap net) \<Longrightarrow> m_connected (ses sid net) \<Longrightarrow>
   \<exists>net'. feed hk sid fs net = Inr (True, net') \<and> app net' = b \<and> sid < length (heap net') \<and> m_connected (ses sid net')"
proof (induction fs arbitrary: net)
  case (Cons f fs)
  then obtain a where "takes hk sid (app net) f a" "takes_all hk sid a fs b" by auto
  moreover from this obtain net1 where "OnRecv hk sid f net = Inr (True, net1)" "app net1 = a"
    "sid < length (heap net1)" "m_connected (ses sid net1)"
    using Cons.prems(2,3) unfolding takes_def by metis
  ultimately show ?case using Cons.IH[of net1] by simp
qed simp

lemma upd_simps [simp]:
  "length (heap (upd sid f net)) = length (heap net)"
  "sid < length (heap net) \<Longrightarrow> ses sid (upd sid f net) = f (ses sid net)"
  "app (upd sid f net) = app net" "log (upd sid f net) = log net" "pool (upd sid f net) = pool net"
  "m_sessions (upd sid f net) = m_sessions net"
  by (simp_all add: upd_def)

lemma RegisterRecv_ready:
  assumes os: "recv_accepted os" and sid: "sid < length (heap net)" "m_connected (ses sid net)"
    and buf: "rb_inv (m_recvBuffer (ses sid net))" "0 < FreeSize (m_recvBuffer (ses sid net))"
  shows "\<exists>w. RegisterRecv os hk sid net = Inr ((upd sid (\<lambda>s. s\<lparr>m_recvOwner := Some sid\<rparr>) net)
    \<lparr>log := log net @ [sys_WSARecv (m_socket (ses sid net)) w (FreeSize (m_recvBuffer (ses sid net)))]\<rparr>)"
proof -
  have w: "WritePos (m_recvBuffer (ses sid net)) = Inr (nat (m_writePos (m_recvBuffer (ses sid net))))"
    using buf by (simp add: WritePos_def rb_inv_def FreeSize_def)
  from os have "os (log net @ [sys_WSARecv s w' n]) = Err WSA_IO_PENDING \<or>
      (\<exists>a b. os (log net @ [sys_WSARecv s w' n]) = Ok a b)" for s w' n
    unfolding recv_accepted_def by (metis succeeded.elims(2))
  then show ?thesis using sid w
    by (auto simp: RegisterRecv_def Let_def syscall_def split: answer.splits)
      (metis answer.distinct(1) answer.inject(2))+
qed

lemma upd_upd [simp]: "upd sid f (upd sid g net) = upd sid (f \<circ> g) net"
  by (cases "sid < length (heap net)") (simp_all add: upd_def list_update_beyond)

text \<open>One completion: \<open>OnRecv\<close> gets the packets that are now complete; then the rest is kept and the
  next receive is posted, or, behind a malformed header, the session is disconnected.\<close>

lemma arrive_step:
  assumes ready: "rx_ready sid net" and c: "c \<noteq> []" "int (length c) \<le> FreeSize (m_recvBuffer (ses sid net))"
    and split: "split_frames (pending (m_recvBuffer (ses sid net)) @ c) = (fs, rest, bad)"
    and acc: "takes_all hk sid (app net) fs a"
  shows "\<exists>net1. sid < length (heap net1) \<and> m_connected (ses sid net1) \<and> app net1 = a
    \<and> rb_inv (m_recvBuffer (ses sid net1)) \<and> m_bufferSize (m_recvBuffer (ses sid net1)) = BUFFER_SIZE
    \<and> (bad \<longrightarrow> arrive os hk sid c net = Disconnect os hk sid net1)
    \<and> (\<not> bad \<longrightarrow> arrive os hk sid c net = RegisterRecv os hk sid net1
        \<and> pending (m_recvBuffer (ses sid net1)) = rest \<and> BUFFER_SIZE \<le> FreeSize (m_recvBuffer (ses sid net1)))"
proof -
  let ?b = "m_recvBuffer (ses sid net)"
  note rdy = ready[unfolded rx_ready_def Let_def]
  obtain b1 where b1: "OnWrite (int (length c)) (recv_store c ?b) = (True, b1)" "rb_inv b1"
    "pending b1 = pending ?b @ c" "m_bufferSize b1 = BUFFER_SIZE"
    using OnWrite_refines[of ?b c] rdy c(2) by auto
  define net0 where "net0 = upd sid (\<lambda>s. s\<lparr>m_recvOwner := None, m_recvBuffer := b1\<rparr>) net"
  have up: "upd sid (\<lambda>s. s\<lparr>m_recvBuffer := b1\<rparr>) (upd sid (\<lambda>s. s\<lparr>m_recvOwner := None\<rparr>)
      (upd sid (\<lambda>s. s\<lparr>m_recvBuffer := recv_store c (m_recvBuffer s)\<rparr>) net)) = net0"
    by (simp add: net0_def comp_def)
  have n0: "sid < length (heap net0)" "m_connected (ses sid net0)" "app net0 = app net"
    using rdy by (simp_all add: net0_def)
  obtain net1 where n1: "feed hk sid fs net0 = Inr (True, net1)" "app net1 = a"
    "sid < length (heap net1)" "m_connected (ses sid net1)"
    using feed_takes[of hk sid net0 fs a] acc n0 by auto
  note takes_all_reads_only[OF acc]
  from recv_loop_feed[OF b1(2) split[folded b1(3)] this, of net0] n1(1) obtain b2 where b2:
    "recv_loop hk sid b1 net0 = Inr (\<not> bad, b2, net1)" "rb_inv b2" "m_bufferSize b2 = BUFFER_SIZE" "pending b2 = rest"
    using b1(4) by auto
  let ?net2 = "upd sid (\<lambda>s. s\<lparr>m_recvBuffer := b2\<rparr>) net1"
  have arr: "arrive os hk sid c net = (if bad then Disconnect os hk sid ?net2 else bindR (Clean b2)
      (\<lambda>b. RegisterRecv os hk sid (upd sid (\<lambda>s. s\<lparr>m_recvBuffer := b\<rparr>) ?net2)))"
    using rdy c(1) b1(1) up b2(1) by (simp add: arrive_def ProcessRecv_def Let_def)
  show ?thesis
  proof (cases bad)
    case True
    then show ?thesis using arr n1 b2 by (intro exI[of _ ?net2]) simp
  next
    case False
    have "int (length (pending b2)) < m_bufferSize b2"
      using split_frames_rest[of "pending ?b @ c" fs rest] split False b2(3,4) by (simp add: BUFFER_SIZE_def)
    from Clean_refines[OF b2(2) this] obtain b3 where "Clean b2 = Inr b3" "rb_inv b3" "pending b3 = rest"
      "m_bufferSize b3 = BUFFER_SIZE" "BUFFER_SIZE \<le> FreeSize b3" using b2(3,4) by auto
    then show ?thesis using arr n1 False
      by (intro exI[of _ "upd sid (\<lambda>s. s\<lparr>m_recvBuffer := b3\<rparr>) ?net2"]) simp
  qed
qed

text \<open>Any way for the system to deliver a stream: in each completion it stores some number of bytes, at
  most what was posted.\<close>

fun receive :: "os \<Rightarrow> 'app hooks \<Rightarrow> nat \<Rightarrow> nat list \<Rightarrow> byte list \<Rightarrow> 'app net \<Rightarrow> 'app net outcome" where
  "receive os hk sid [] stream net = Inr net"
| "receive os hk sid (n # ns) stream net =
     (let c = take (min n (nat (FreeSize (m_recvBuffer (ses sid net))))) stream in
      if c = [] then receive os hk sid ns stream net
      else bindR (arrive os hk sid c net) (receive os hk sid ns (drop (length c) stream)))"

lemma split_frames_prefix:
  assumes "split_frames (xs @ ys) = (hs, rest, False)"
  obtains fs r gs where "split_frames xs = (fs, r, False)" "split_frames (r @ ys) = (gs, rest, False)"
    "hs = fs @ gs"
proof -
  obtain fs r b where f: "split_frames xs = (fs, r, b)" by (metis prod_cases3)
  have "\<not> b"
    using assms f
  proof (induction xs arbitrary: fs hs rule: split_frames.induct)
    case (1 xs)
    show ?case
    proof (cases xs rule: split_frames_cases)
      case bad
      then have "split_frames (xs @ ys) = ([], xs @ ys, True)"
        by (simp add: split_frames.simps[of "xs @ ys"] m_dataSize_append sizeof_PacketHeader_def)
      then show ?thesis using "1.prems" by simp
    next
      case (frame fs' r' b')
      let ?n = "unat (m_dataSize xs)"
      obtain h g e where "split_frames (drop ?n xs @ ys) = (h, g, e)" by (metis prod_cases3)
      then show ?thesis using "1.IH"[of ?n] frame "1.prems"
        by (simp add: split_frames.simps[of "xs @ ys"] m_dataSize_append sizeof_PacketHeader_def Let_def)
    qed (use "1.prems" in simp_all)
  qed
  moreover obtain gs r2 b2 where g: "split_frames (r @ ys) = (gs, r2, b2)" by (metis prod_cases3)
  ultimately show thesis using that[of fs r gs] split_frames_append[of xs fs r ys gs r2 b2] f assms by simp
qed

lemma arrive_ready:
  assumes os: "recv_accepted os" and ready: "rx_ready sid net"
    and c: "c \<noteq> []" "int (length c) \<le> FreeSize (m_recvBuffer (ses sid net))"
    and split: "split_frames (pending (m_recvBuffer (ses sid net)) @ c) = (fs, rest, False)"
    and acc: "takes_all hk sid (app net) fs a"
  shows "\<exists>net'. arrive os hk sid c net = Inr net' \<and> rx_ready sid net' \<and> app net' = a
    \<and> pending (m_recvBuffer (ses sid net')) = rest"
proof -
  obtain net1 where n1: "sid < length (heap net1)" "m_connected (ses sid net1)" "app net1 = a"
    "rb_inv (m_recvBuffer (ses sid net1))" "m_bufferSize (m_recvBuffer (ses sid net1)) = BUFFER_SIZE"
    "arrive os hk sid c net = RegisterRecv os hk sid net1"
    "pending (m_recvBuffer (ses sid net1)) = rest" "BUFFER_SIZE \<le> FreeSize (m_recvBuffer (ses sid net1))"
    using arrive_step[OF ready c split acc, of os] by auto
  have "0 < FreeSize (m_recvBuffer (ses sid net1))" using n1(8) by (simp add: BUFFER_SIZE_def)
  from RegisterRecv_ready[OF os n1(1,2,4) this, of hk] obtain w where w: "RegisterRecv os hk sid net1 =
    Inr ((upd sid (\<lambda>s. s\<lparr>m_recvOwner := Some sid\<rparr>) net1)
      \<lparr>log := log net1 @ [sys_WSARecv (m_socket (ses sid net1)) w (FreeSize (m_recvBuffer (ses sid net1)))]\<rparr>)"
    by blast
  have "split_frames rest = ([], rest, False)" using split_frames_rest split by blast
  then show ?thesis using n1 w by (simp add: rx_ready_def Let_def upd_def)
qed

lemma receive_takes:
  assumes os: "recv_accepted os"
  shows "rx_ready sid net \<Longrightarrow> split_frames (pending (m_recvBuffer (ses sid net)) @ stream) = (fs, rest, False) \<Longrightarrow>
   takes_all hk sid (app net) fs a \<Longrightarrow> \<forall>n \<in> set ns. 0 < n \<Longrightarrow> length stream \<le> length ns \<Longrightarrow>
   \<exists>net'. receive os hk sid ns stream net = Inr net' \<and> rx_ready sid net' \<and> app net' = a
     \<and> pending (m_recvBuffer (ses sid net')) = rest"
proof (induction ns arbitrary: stream net fs)
  case Nil
  then show ?case by (simp add: rx_ready_def Let_def)
next
  case (Cons n ns)
  let ?b = "m_recvBuffer (ses sid net)"
  have free: "0 < FreeSize ?b" using Cons.prems(1) by (simp add: rx_ready_def BUFFER_SIZE_def)
  define c where "c = take (min n (nat (FreeSize ?b))) stream"
  show ?case
  proof (cases "stream = []")
    case True
    then show ?thesis using Cons.IH[of net "[]" fs] Cons.prems by (simp add: Let_def)
  next
    case False
    have c: "c \<noteq> []" "int (length c) \<le> FreeSize ?b" "stream = c @ drop (length c) stream"
      "length (drop (length c) stream) \<le> length ns"
      using False free Cons.prems(4,5) by (auto simp: c_def min_def)
    have "split_frames ((pending ?b @ c) @ drop (length c) stream) = (fs, rest, False)"
      using Cons.prems(2) c(3) by (metis append.assoc)
    from split_frames_prefix[OF this] obtain fs1 r1 fs2 where s: "split_frames (pending ?b @ c) = (fs1, r1, False)"
      "split_frames (r1 @ drop (length c) stream) = (fs2, rest, False)" "fs = fs1 @ fs2" by metis
    obtain b where acc: "takes_all hk sid (app net) fs1 b" "takes_all hk sid b fs2 a"
      using Cons.prems(3) s(3) by (auto simp: takes_all_append)
    obtain net1 where n1: "arrive os hk sid c net = Inr net1" "rx_ready sid net1"
      "app net1 = b" "pending (m_recvBuffer (ses sid net1)) = r1"
      using arrive_ready[OF os Cons.prems(1) c(1,2) s(1) acc(1)] by blast
    have "receive os hk sid (n # ns) stream net = receive os hk sid ns (drop (length c) stream) net1"
      using c(1) n1(1) by (simp add: Let_def flip: c_def)
    then show ?thesis
      using Cons.IH[OF n1(2), of "drop (length c) stream" fs2] s(2,3) n1(3,4) acc(2) Cons.prems(4) c(4) by simp
  qed
qed

lemma receive_all:
  assumes "recv_accepted os" "rx_ready sid net" "split_frames (pending (m_recvBuffer (ses sid net)) @ stream) = (fs, rest, False)"
    and "\<forall>f \<in> set fs. accepts hk sid P step f" "P (app net)" "\<forall>n \<in> set ns. 0 < n" "length stream \<le> length ns"
  shows "\<exists>net'. receive os hk sid ns stream net = Inr net' \<and> rx_ready sid net' \<and> app net' = fold step fs (app net)
     \<and> pending (m_recvBuffer (ses sid net')) = rest"
  using receive_takes[OF assms(1-3)] accepts_takes[OF assms(4) _ _ assms(5)] assms(2,6,7) unfolding rx_ready_def by blast

section \<open>Properties\<close>

definition recorder :: "byte list list hooks" where
  "recorder = \<lparr>OnConnected = \<lambda>sid net. Inr net,
     OnRecv = \<lambda>sid mem net. Inr (True, net\<lparr>app := app net @ [take (unat (m_dataSize mem)) mem]\<rparr>),
     OnSend = \<lambda>sid n net. Inr net, OnDisconnected = \<lambda>sid net. Inr net\<rparr>"

definition one_session :: "byte list list net" where
  "one_session = \<lparr>heap = [\<lparr>m_socket = 7, m_netAddress = (0, 0), m_connected = True, m_connectOwner = None,
       m_disconnectOwner = None, m_recvOwner = Some 0, m_sendOwner = None, m_senders = [],
       m_recvBuffer = RecvBuffer_ctor BUFFER_SIZE, m_senderQueue = [], m_sendRegistered = False\<rparr>],
     m_sessions = [0], m_sessionCount = 1, m_maxSessionCount = 100, m_isServerService = True,
     m_serviceAddress = (0, 7900), m_listenSocket = 5, m_acceptSession = None, pool = SendPool_ctor, log = [], app = []\<rparr>"

lemma recorder_accepts:
  assumes "4 \<le> unat (m_dataSize f)" "length f = unat (m_dataSize f)"
  shows "accepts recorder sid (\<lambda>_. True) (\<lambda>f fs. fs @ [f]) f"
  using assms by (auto simp: accepts_def reads_only_def recorder_def m_dataSize_append)

lemma one_session_ready:
  "rx_ready 0 one_session" "pending (m_recvBuffer (ses 0 one_session)) = []"
proof -
  have "rb_inv (RecvBuffer_ctor BUFFER_SIZE)" "m_bufferSize (RecvBuffer_ctor BUFFER_SIZE) = BUFFER_SIZE"
    "BUFFER_SIZE \<le> FreeSize (RecvBuffer_ctor BUFFER_SIZE)"
    using rb_inv_ctor[of BUFFER_SIZE] by (simp_all add: BUFFER_SIZE_def BUFFER_COUNT_def RecvBuffer_ctor_def FreeSize_def)
  then show "rx_ready 0 one_session" "pending (m_recvBuffer (ses 0 one_session)) = []"
    by (simp_all add: rx_ready_def one_session_def split_frames.simps sizeof_PacketHeader_def)
qed

lemma two_frames:
  "split_frames [60, 0, 4, 0, 65, 0, 5, 0, 9, 1] = ([[60, 0, 4, 0], [65, 0, 5, 0, 9]], [1], False)"
  by (simp add: split_frames.simps sizeof_PacketHeader_def m_dataSize_def bytes_at_def Let_def)

lemma bad_second_frame:
  "split_frames [60, 0, 4, 0, 65, 0, 2, 0] = ([[60, 0, 4, 0]], [65, 0, 2, 0], True)"
  by (simp add: split_frames.simps sizeof_PacketHeader_def m_dataSize_def bytes_at_def Let_def)




text \<open>(C22) A header whose size field is smaller than a header ends the session: the packets before it
  are delivered, then the session is disconnected and nothing behind the bad header is ever delivered.\<close>

theorem malformed_header_disconnects:
  assumes "rx_ready sid net" "c \<noteq> []" "int (length c) \<le> FreeSize (m_recvBuffer (ses sid net))"
    and "split_frames (pending (m_recvBuffer (ses sid net)) @ c) = (fs, rest, True)"
    and "\<forall>f \<in> set fs. accepts hk sid P step f" "P (app net)"
  shows "\<exists>net1. arrive os hk sid c net = Disconnect os hk sid net1 \<and> m_connected (ses sid net1)
     \<and> app net1 = fold step fs (app net)"
  using arrive_step[OF assms(1-4) accepts_takes[OF assms(5) _ _ assms(6)], of os] assms(1) by (auto simp: rx_ready_def)

theorem malformed_header_disconnects_witness:
  "\<exists>net1. arrive (\<lambda>_. Err 997) recorder 0 [60, 0, 4, 0, 65, 0, 2, 0] one_session = Disconnect (\<lambda>_. Err 997) recorder 0 net1
     \<and> m_connected (ses 0 net1) \<and> app net1 = [[60, 0, 4, 0]]"
proof -
  have "\<forall>f \<in> set [[60, 0, 4, 0]]. accepts recorder 0 (\<lambda>_. True) (\<lambda>f fs. fs @ [f]) f"
    by (auto intro!: recorder_accepts simp: m_dataSize_def bytes_at_def)
  moreover have "int (length [60, 0, 4, 0, 65, 0, 2, 0 :: byte]) \<le> FreeSize (m_recvBuffer (ses 0 one_session))"
    using one_session_ready(1) by (simp add: rx_ready_def BUFFER_SIZE_def)
  ultimately show ?thesis
    using malformed_header_disconnects[OF one_session_ready(1), of "[60, 0, 4, 0, 65, 0, 2, 0]"
        "[[60, 0, 4, 0]]" "[65, 0, 2, 0]" recorder "\<lambda>_. True" "\<lambda>f fs. fs @ [f]" "\<lambda>_. Err 997"] one_session_ready(2) bad_second_frame
    by (simp add: one_session_def)
qed

end
