(* ===== verification/Client.thy ===== *)
theory Client
  imports Server Stream
begin

text \<open>
  The console client: the handlers of \<^verbatim>\<open>DhNet_Client\<close>, its handler table and \<^verbatim>\<open>ServerSession\<close> as the application
  behind a session of the network layer.  What the handlers send is recorded in \<open>cl_out\<close>; \<open>creq_bytes\<close> gives the
  bytes.  \<open>cl_open\<close> turns false when a handler asks for a disconnect, \<open>cl_calls\<close> counts received packets, so that each
  call may see a different stack and different answers of the library.
\<close>

section \<open>Requests\<close>

datatype creq =
    CReqRoomEnter
  | CReqRoomChat "byte list"
  | CReqRoomExit
  | CReqLobbyChat "byte list"
  | CTest "byte list"
  | CPing

text \<open>\<open>CPing\<close> is a test packet whose text is not written.\<close>

fun creq_bytes :: "creq \<Rightarrow> byte list \<Rightarrow> byte list" where
  "creq_bytes CReqRoomEnter mem = ReqRoomEnter_Init mem"
| "creq_bytes (CReqRoomChat s) mem = ReqRoomChat_Init s mem"
| "creq_bytes CReqRoomExit mem = PacketHeader_Init (packetNum Req_RoomExit) (size16 cls_ReqRoomExit) mem"
| "creq_bytes (CReqLobbyChat s) mem = ReqLobbyChat_Init s mem"
| "creq_bytes (CTest t) mem =
     overwrite (offset cls_TestPacket 0) (t @ [0]) (PacketHeader_Init (packetNum Test) (size16 cls_TestPacket) mem)"
| "creq_bytes CPing mem = PacketHeader_Init (packetNum Test) (size16 cls_TestPacket) mem"

section \<open>State\<close>

record 'k client =
  cl_playerId :: uint64
  cl_playerName :: "byte list"
  cl_crypt :: "'k crypt"
  g_inRoom :: bool
  cl_out :: "creq list"
  cl_wire :: "byte list list"
  cl_open :: bool
  cl_calls :: nat

definition client_send :: "creq \<Rightarrow> 'k client \<Rightarrow> 'k client" where
  "client_send r c = c\<lparr>cl_out := cl_out c @ [r]\<rparr>"

section \<open>Handlers\<close>

definition client_text :: "byte list" where
  "client_text = map (\<lambda>c. of_nat (of_char c)) ''Test(Client)''"

definition RecvTestPacket :: "byte list \<Rightarrow> 'k client \<Rightarrow> (bool \<times> 'k client) outcome" where
  "RecvTestPacket mem c = Inr (True, client_send (CTest client_text) c)"

definition HandleResLoginPacket :: "byte list \<Rightarrow> 'k client \<Rightarrow> (bool \<times> 'k client) outcome" where
  "HandleResLoginPacket mem c = bindR (cstring (offset cls_ResLogin 1) mem) (\<lambda>name.
     Inr (True, c\<lparr>cl_playerId := get64 (offset cls_ResLogin 0) mem, cl_playerName := name\<rparr>))"

definition HandleResLoginFailedPacket :: "byte list \<Rightarrow> 'k client \<Rightarrow> (bool \<times> 'k client) outcome" where
  "HandleResLoginFailedPacket mem c = Inr (True, c\<lparr>cl_open := False\<rparr>)"

definition HandleResLobbyEnterPacket :: "byte list \<Rightarrow> 'k client \<Rightarrow> (bool \<times> 'k client) outcome" where
  "HandleResLobbyEnterPacket mem c = Inr (True, client_send CReqRoomEnter c)"

text \<open>The log lines of the next five handlers print character arrays, which reads them up to a terminator.\<close>

definition HandleNotiLobbyPlayerEnterPacket :: "byte list \<Rightarrow> 'k client \<Rightarrow> (bool \<times> 'k client) outcome" where
  "HandleNotiLobbyPlayerEnterPacket mem c = bindR (cstring (offset cls_NotiLobbyPlayerEnter 1) mem) (\<lambda>_. Inr (True, c))"

definition HandleNotiLobbyPlayerExitPacket :: "byte list \<Rightarrow> 'k client \<Rightarrow> (bool \<times> 'k client) outcome" where
  "HandleNotiLobbyPlayerExitPacket mem c = bindR (cstring (offset cls_NotiLobbyPlayerExit 1) mem) (\<lambda>_. Inr (True, c))"

definition HandleNotiLobbyChatPacket :: "byte list \<Rightarrow> 'k client \<Rightarrow> (bool \<times> 'k client) outcome" where
  "HandleNotiLobbyChatPacket mem c = bindR (cstring (offset cls_NotiLobbyChat 1) mem) (\<lambda>_.
     bindR (cstring (offset cls_NotiLobbyChat 2) mem) (\<lambda>_. Inr (True, c)))"

definition HandleResRoomEnterPacket :: "byte list \<Rightarrow> 'k client \<Rightarrow> (bool \<times> 'k client) outcome" where
  "HandleResRoomEnterPacket mem c =
     Inr (True, if bytes_at (offset cls_ResRoomEnter 0) 1 mem = [0] then c\<lparr>g_inRoom := False\<rparr> else c)"

definition HandleNotiRoomEnterPacket :: "byte list \<Rightarrow> 'k client \<Rightarrow> (bool \<times> 'k client) outcome" where
  "HandleNotiRoomEnterPacket mem c = bindR (cstring (offset cls_NotiRoomEnter 1) mem) (\<lambda>_. Inr (True, c\<lparr>g_inRoom := True\<rparr>))"

definition HandleNotiRoomChatPacket :: "byte list \<Rightarrow> 'k client \<Rightarrow> (bool \<times> 'k client) outcome" where
  "HandleNotiRoomChatPacket mem c = bindR (cstring (offset cls_NotiRoomChat 1) mem) (\<lambda>_.
     bindR (cstring (offset cls_NotiRoomChat 2) mem) (\<lambda>_. Inr (True, c)))"

definition HandleNotiRoomExitPacket :: "byte list \<Rightarrow> 'k client \<Rightarrow> (bool \<times> 'k client) outcome" where
  "HandleNotiRoomExitPacket mem c = bindR (cstring (offset cls_NotiRoomExit 1) mem) (\<lambda>_.
     Inr (True, if get64 (offset cls_NotiRoomExit 0) mem = cl_playerId c then c\<lparr>g_inRoom := False\<rparr> else c))"

section \<open>The handler table and the session\<close>

definition client_table :: "(byte list \<Rightarrow> 'k client \<Rightarrow> (bool \<times> 'k client) outcome) handlers" where
  "client_table = register_all
     [(uint (packetNum Test), RecvTestPacket), (uint (packetNum Res_Login), HandleResLoginPacket),
      (uint (packetNum Res_LoginFailed), HandleResLoginFailedPacket), (uint (packetNum Res_LobbyEnter), HandleResLobbyEnterPacket),
      (uint (packetNum Noti_LobbyPlayerEnter), HandleNotiLobbyPlayerEnterPacket),
      (uint (packetNum Noti_LobbyPlayerExit), HandleNotiLobbyPlayerExitPacket),
      (uint (packetNum Noti_LobbyChat), HandleNotiLobbyChatPacket), (uint (packetNum Res_RoomEnter), HandleResRoomEnterPacket),
      (uint (packetNum Noti_RoomEnter), HandleNotiRoomEnterPacket), (uint (packetNum Noti_RoomChat), HandleNotiRoomChatPacket),
      (uint (packetNum Noti_RoomExit), HandleNotiRoomExitPacket)] []"

definition client_Process :: "byte list \<Rightarrow> 'k client \<Rightarrow> (bool \<times> 'k client) outcome" where
  "client_Process mem c = Process (uint (m_packetNum mem)) (\<lambda>h. h mem c) (Inr (False, c)) client_table"

text \<open>What an action of the session code does to the client.  A key exchange that fails disconnects and still
  counts as handled.\<close>

definition client_act :: "bool \<Rightarrow> action \<Rightarrow> 'k client \<Rightarrow> (bool \<times> 'k client) outcome" where
  "client_act exchange a c = (case a of
       SendBytes f \<Rightarrow> Inr (True, c\<lparr>cl_wire := cl_wire c @ [f]\<rparr>)
     | Disconnects reason \<Rightarrow> Inr (exchange, c\<lparr>cl_open := False\<rparr>)
     | Dispatch buf \<Rightarrow> client_Process buf c
     | Refuse \<Rightarrow> Inr (False, c)
     | Nothing \<Rightarrow> Inr (exchange, c))"

definition client_OnRecv :: "'k openssl \<Rightarrow> (nat \<Rightarrow> 'k draw) \<Rightarrow> byte list \<Rightarrow> (nat \<Rightarrow> byte list) \<Rightarrow> byte list \<Rightarrow> 'k client \<Rightarrow> (bool \<times> 'k client) outcome" where
  "client_OnRecv ssl ds lm stacks mem c =
     (let n = cl_calls c in
      bindR (ServerSession_OnRecv ssl (ds n) lm (stacks n) mem (cl_crypt c)) (\<lambda>(a, k).
        client_act (\<not> m_handshakeDone (cl_crypt c)) a (c\<lparr>cl_crypt := k, cl_calls := n + 1\<rparr>)))"

definition client_OnConnected :: "'k openssl \<Rightarrow> (nat \<Rightarrow> 'k draw) \<Rightarrow> 'k client \<Rightarrow> (bool \<times> 'k client) outcome" where
  "client_OnConnected ssl ds c =
     (let n = cl_calls c; (a, k) = ServerSession_OnConnected ssl (ds n) (cl_crypt c) in
      client_act True a (c\<lparr>cl_crypt := k, cl_calls := n + 1\<rparr>))"

definition client_hooks :: "'k openssl \<Rightarrow> (nat \<Rightarrow> 'k draw) \<Rightarrow> byte list \<Rightarrow> (nat \<Rightarrow> byte list) \<Rightarrow> 'k client hooks" where
  "client_hooks ssl ds lm stacks = \<lparr>
     OnConnected = \<lambda>sid net. bindR (client_OnConnected ssl ds (app net)) (\<lambda>(_, c). Inr (net\<lparr>app := c\<rparr>)),
     OnRecv = \<lambda>sid mem net. bindR (client_OnRecv ssl ds lm stacks mem (app net)) (\<lambda>(ok, c). Inr (ok, net\<lparr>app := c\<rparr>)),
     OnSend = \<lambda>sid n net. Inr net,
     OnDisconnected = \<lambda>sid net. Inr net\<rparr>"

text \<open>One turn of the loop at the end of \<^verbatim>\<open>main\<close>.\<close>

definition chat_text :: "byte list" where
  "chat_text = map (\<lambda>c. of_nat (of_char c)) ''Test Message''"

definition main_tick :: "'k client \<Rightarrow> 'k client" where
  "main_tick c = (if g_inRoom c then client_send (CReqRoomChat chat_text) c else c)"

section \<open>What a message does to the client\<close>

text \<open>The specification: the effect of a server message, without bytes.\<close>

fun client_effect :: "msg \<Rightarrow> 'k client \<Rightarrow> 'k client" where
  "client_effect (Msg_ResLogin i n) c = c\<lparr>cl_playerId := i, cl_playerName := take 15 (c_str n)\<rparr>"
| "client_effect Msg_ResLoginFailed c = c\<lparr>cl_open := False\<rparr>"
| "client_effect (Msg_NotiRoomEnter i n) c = c\<lparr>g_inRoom := True\<rparr>"
| "client_effect (Msg_NotiRoomExit i n) c = (if i = cl_playerId c then c\<lparr>g_inRoom := False\<rparr> else c)"
| "client_effect (Msg_ResLobbyEnter l ps) c = client_send CReqRoomEnter c"
| "client_effect (Msg_Test t) c = client_send (CTest client_text) c"
| "client_effect _ c = c"

fun expected :: "msg \<Rightarrow> bool" where
  "expected (Msg_ResRoomList rs) = False"
| "expected (Msg_Test t) = (length t \<le> 255)"
| "expected m = True"

lemma map_of_client_table:
  "map_of client_table n = map_of
     [(0, RecvTestPacket), (uint (packetNum Res_Login), HandleResLoginPacket),
      (uint (packetNum Res_LoginFailed), HandleResLoginFailedPacket), (uint (packetNum Res_LobbyEnter), HandleResLobbyEnterPacket),
      (uint (packetNum Noti_LobbyPlayerEnter), HandleNotiLobbyPlayerEnterPacket),
      (uint (packetNum Noti_LobbyPlayerExit), HandleNotiLobbyPlayerExitPacket),
      (uint (packetNum Noti_LobbyChat), HandleNotiLobbyChatPacket), (uint (packetNum Res_RoomEnter), HandleResRoomEnterPacket),
      (uint (packetNum Noti_RoomEnter), HandleNotiRoomEnterPacket), (uint (packetNum Noti_RoomChat), HandleNotiRoomChatPacket),
      (uint (packetNum Noti_RoomExit), HandleNotiRoomExitPacket)] n"
  by (simp add: client_table_def map_of_register_all)

text \<open>Members of a packet, seen through the stack buffer it was decrypted into.\<close>

lemma bytes_in_buffer:
  assumes "o' + n \<le> k" "k \<le> length p" "k \<le> length stack"
  shows "bytes_at o' n (overwrite 0 (take k p) stack) = bytes_at o' n p"
proof -
  have "overwrite 0 (take k p) stack = take k p @ drop k stack" using assms by (simp add: overwrite_def)
  then show ?thesis using bytes_at_prefix[OF assms(1,2)] by simp
qed

lemma cstring_in_buffer:
  assumes "o' + n \<le> k" "k \<le> length p" "k \<le> length stack" "0 \<in> set (bytes_at o' n p)"
  shows "cstring o' (overwrite 0 (take k p) stack) = Inr (c_str (bytes_at o' n p))"
proof -
  let ?b = "overwrite 0 (take k p) stack"
  have "drop o' ?b = bytes_at o' n ?b @ drop (o' + n) ?b"
    by (simp add: bytes_at_def flip: drop_drop) (metis add.commute append_take_drop_id drop_drop)
  then have "drop o' ?b = bytes_at o' n p @ drop (o' + n) ?b" using bytes_in_buffer[OF assms(1-3)] by simp
  then show ?thesis using assms(4) by (auto simp: cstring_def c_str_def takeWhile_append1)
qed

lemma string_terminated:
  assumes "0 < n" "off + n \<le> length mem"
  shows "0 \<in> set (bytes_at off n (put_string off n s mem))"
proof (rule ccontr)
  let ?f = "bytes_at off n (put_string off n s mem)"
  assume "0 \<notin> set ?f"
  then have "c_str ?f = ?f" by (rule c_str_id)
  then have "length ?f \<le> n - 1" using c_str_bytes_at_put_string[OF assms, of s] by (metis length_take min.cobounded2)
  moreover have "length ?f = n" using assms by (simp add: bytes_at_def)
  ultimately show False using assms(1) by simp
qed

text \<open>The two layouts most notifications have: an id and a name, and behind them a text.\<close>

lemma named_packet:
  assumes "28 \<le> length mem" "p = put_string 12 16 n (put64 4 i (PacketHeader_Init num sz mem))"
  shows "m_packetNum p = num" "get64 4 p = i" "0 \<in> set (bytes_at 12 16 p)" "c_str (bytes_at 12 16 p) = take 15 (c_str n)"
    "length p = length mem"
  using assms(1) string_terminated[of 16 12 "put64 4 i (PacketHeader_Init num sz mem)" n] unfolding assms(2)
  by (simp_all add: m_packetNum_def get64_def PacketHeader_Init_def put64_def)

lemma chat_packet:
  assumes "284 \<le> length mem" "q = put_string 28 256 t (put_string 12 16 n (put64 4 i (PacketHeader_Init num sz mem)))"
  shows "m_packetNum q = num" "0 \<in> set (bytes_at 12 16 q)" "0 \<in> set (bytes_at 28 256 q)" "length q = length mem"
proof -
  let ?p = "put_string 12 16 n (put64 4 i (PacketHeader_Init num sz mem))"
  note np = named_packet[of mem ?p n i num sz]
  have l: "length ?p = length mem" using assms(1) np(5) by simp
  show "m_packetNum q = num" using assms(1) np(1) l unfolding assms(2) by (simp add: m_packetNum_def)
  show "0 \<in> set (bytes_at 12 16 q)" using assms(1) np(3) l unfolding assms(2) by simp
  show "0 \<in> set (bytes_at 28 256 q)" using assms(1) l unfolding assms(2) by (intro string_terminated) simp_all
  show "length q = length mem" using assms(1) l unfolding assms(2) by simp
qed

text \<open>Dispatch on a packet in the stack buffer.\<close>

lemma client_Process_buffer:
  assumes "2 \<le> k" "k \<le> length p" "k \<le> length stack" "map_of client_table (uint (m_packetNum p)) = Some h"
  shows "client_Process (overwrite 0 (take k p) stack) c = h (overwrite 0 (take k p) stack) c"
  using assms bytes_in_buffer[of 0 2 k p stack] by (simp add: client_Process_def Process_def m_packetNum_def)

lemma AddPlayer_num:
  assumes "1212 \<le> length mem"
  shows "m_packetNum (ResLobbyEnter_AddPlayer i s mem) = m_packetNum mem"
proof (cases "get_int32 (offset cls_ResLobbyEnter 1) mem \<ge> 50")
  case False
  then have "nat (get_int32 8 mem) \<le> 49" by (simp add: layout_defs)
  then show ?thesis using assms False by (simp add: ResLobbyEnter_AddPlayer_def layout_defs m_packetNum_def Let_def)
qed (use assms in \<open>simp add: ResLobbyEnter_AddPlayer_def layout_defs\<close>)

lemma ResLobbyEnter_num:
  assumes "1212 \<le> length mem"
  shows "m_packetNum (msg_bytes (Msg_ResLobbyEnter l ps) mem) = packetNum Res_LobbyEnter"
proof -
  have "m_packetNum (fold (\<lambda>(i, s). ResLobbyEnter_AddPlayer i s) ps p) = m_packetNum p" if "1212 \<le> length p" for p
    using that by (induction ps arbitrary: p) (auto simp: AddPlayer_num AddPlayer_length)
  moreover have "m_packetNum (ResLobbyEnter_Init l mem) = packetNum Res_LobbyEnter" "length (ResLobbyEnter_Init l mem) = length mem"
    using assms by (simp_all add: ResLobbyEnter_Init_def layout_defs m_packetNum_def PacketHeader_Init_def put_int32_def)
  ultimately show ?thesis using assms by simp
qed

lemmas init_defs = ResLogin_Init_def NotiRoomEnter_Init_def NotiRoomExit_Init_def NotiLobbyPlayerEnter_Init_def
  NotiLobbyPlayerExit_Init_def NotiRoomChat_Init_def NotiLobbyChat_Init_def
lemmas handler_defs = RecvTestPacket_def HandleResLoginPacket_def HandleResLoginFailedPacket_def HandleResLobbyEnterPacket_def
  HandleNotiLobbyPlayerEnterPacket_def HandleNotiLobbyPlayerExitPacket_def HandleNotiLobbyChatPacket_def
  HandleNotiRoomEnterPacket_def HandleNotiRoomChatPacket_def HandleNotiRoomExitPacket_def

lemma client_Process_named:
  assumes "28 \<le> length mem" "28 \<le> length stack" "map_of client_table (uint num) = Some h"
    and "b = overwrite 0 (take 28 (put_string 12 16 n (put64 4 i (PacketHeader_Init num sz mem)))) stack"
  shows "client_Process b c = h b c" "get64 4 b = i" "cstring 12 b = Inr (take 15 (c_str n))"
proof -
  let ?p = "put_string 12 16 n (put64 4 i (PacketHeader_Init num sz mem))"
  note np = named_packet[OF assms(1) refl, of n i num sz]
  have len: "28 \<le> length ?p" using np(5) assms(1) by simp
  show "client_Process b c = h b c" unfolding assms(4)
    by (rule client_Process_buffer[OF _ len assms(2)]) (simp_all add: np(1) assms(3))
  show "get64 4 b = i" using bytes_in_buffer[OF _ len assms(2), of 4 8] np(2) by (simp add: get64_def assms(4))
  show "cstring 12 b = Inr (take 15 (c_str n))"
    using cstring_in_buffer[OF _ len assms(2), of 12 16] np(3,4) by (simp add: assms(4))
qed

lemma client_Process_chat:
  assumes "284 \<le> length mem" "284 \<le> length stack" "map_of client_table (uint num) = Some h"
    and "b = overwrite 0 (take 284 (put_string 28 256 t (put_string 12 16 n (put64 4 i (PacketHeader_Init num sz mem))))) stack"
  shows "client_Process b c = h b c" "\<exists>x. cstring 12 b = Inr x" "\<exists>x. cstring 28 b = Inr x"
proof -
  let ?p = "put_string 28 256 t (put_string 12 16 n (put64 4 i (PacketHeader_Init num sz mem)))"
  note cp = chat_packet[OF assms(1) refl, of t n i num sz]
  have len: "284 \<le> length ?p" using cp(4) assms(1) by simp
  show "client_Process b c = h b c" unfolding assms(4)
    by (rule client_Process_buffer[OF _ len assms(2)]) (simp_all add: cp(1) assms(3))
  show "\<exists>x. cstring 12 b = Inr x" "\<exists>x. cstring 28 b = Inr x"
    using cstring_in_buffer[OF _ len assms(2), of 12 16] cstring_in_buffer[OF _ len assms(2), of 28 256] cp(2,3) by (simp_all add: assms(4))
qed

text \<open>Messages the handlers treat by number alone.\<close>

lemma client_Process_plain:
  assumes "size_of (msg_class m) \<le> length mem" "expected m" "length stack = MAX_PLAIN_PACKET_SIZE"
    and "map_of client_table (uint (m_packetNum (msg_bytes m mem))) = Some h"
  shows "client_Process (overwrite 0 (take (size_of (msg_class m)) (msg_bytes m mem)) stack) c
    = h (overwrite 0 (take (size_of (msg_class m)) (msg_bytes m mem)) stack) c"
proof -
  have "sendable m" using assms(2) by (cases m) (simp_all add: sendable_def)
  then have "size_of (msg_class m) \<le> length (msg_bytes m mem)"
    using msg_well_sized[OF assms(1)] assms(1) by (simp add: well_sized_def)
  then show ?thesis
    using client_Process_buffer[OF _ _ _ assms(4), of "size_of (msg_class m)" stack c] assms(3) class_sizes(3)[of m]
      header_le_size_of[of "msg_class m"] by simp
qed

lemma client_Process_msg:
  assumes mem: "size_of (msg_class m) \<le> length mem" and m: "expected m" and st: "length stack = MAX_PLAIN_PACKET_SIZE"
  shows "client_Process (overwrite 0 (take (size_of (msg_class m)) (msg_bytes m mem)) stack) c = Inr (True, client_effect m c)"
proof -
  note plain = client_Process_plain[OF mem m st, unfolded map_of_client_table]
  have l: "28 \<le> length stack" "284 \<le> length stack" using st by (simp_all add: layout_defs)
  note named = client_Process_named[OF _ l(1) _ refl, unfolded map_of_client_table]
  note chat = client_Process_chat[OF _ l(2) _ refl, unfolded map_of_client_table]
  show ?thesis
  proof (cases m)
    case (Msg_ResLobbyEnter l ps)
    then show ?thesis using plain[where h = HandleResLobbyEnterPacket] ResLobbyEnter_num[of mem l ps] mem by (simp add: handler_defs)
  next
    case (Msg_Test t)
    then show ?thesis using plain[where h = RecvTestPacket] mem m by (simp add: handler_defs layout_defs m_packetNum_def PacketHeader_Init_def)
  next
    case Msg_ResLoginFailed
    then show ?thesis using plain[where h = HandleResLoginFailedPacket] mem by (simp add: handler_defs ResLoginFailed_Init_def layout_defs)
  next
    case (Msg_NotiRoomChat i n t)
    then show ?thesis using chat[of mem "packetNum Noti_RoomChat" HandleNotiRoomChatPacket t n i "size16 cls_NotiRoomChat"] mem
      by (auto simp: init_defs handler_defs layout_defs)
  next
    case (Msg_NotiLobbyChat i n t)
    then show ?thesis using chat[of mem "packetNum Noti_LobbyChat" HandleNotiLobbyChatPacket t n i "size16 cls_NotiLobbyChat"] mem
      by (auto simp: init_defs handler_defs layout_defs)
  next
    case (Msg_ResLogin i n)
    then show ?thesis using named[of mem "packetNum Res_Login" HandleResLoginPacket n i "size16 cls_ResLogin"] mem
      by (simp add: init_defs handler_defs layout_defs)
  next
    case (Msg_NotiRoomEnter i n)
    then show ?thesis using named[of mem "packetNum Noti_RoomEnter" HandleNotiRoomEnterPacket n i "size16 cls_NotiRoomEnter"] mem
      by (simp add: init_defs handler_defs layout_defs)
  next
    case (Msg_NotiRoomExit i n)
    then show ?thesis using named(1)[of mem "packetNum Noti_RoomExit" HandleNotiRoomExitPacket n i "size16 cls_NotiRoomExit" c]
        named(2,3)[of mem "packetNum Noti_RoomExit" "HandleNotiRoomExitPacket :: _ \<Rightarrow> 'a client \<Rightarrow> _" n i "size16 cls_NotiRoomExit"] mem
      by (simp add: init_defs handler_defs layout_defs)
  next
    case (Msg_NotiLobbyPlayerEnter i n)
    then show ?thesis using named[of mem "packetNum Noti_LobbyPlayerEnter" HandleNotiLobbyPlayerEnterPacket n i "size16 cls_NotiLobbyPlayerEnter"] mem
      by (simp add: init_defs handler_defs layout_defs)
  next
    case (Msg_NotiLobbyPlayerExit i n)
    then show ?thesis using named[of mem "packetNum Noti_LobbyPlayerExit" HandleNotiLobbyPlayerExitPacket n i "size16 cls_NotiLobbyPlayerExit"] mem
      by (simp add: init_defs handler_defs layout_defs)
  qed (use m in simp)
qed

section \<open>The client on top of the network layer\<close>

text \<open>An established session: both ends hold \<open>key\<close>.\<close>

definition established :: "byte list \<Rightarrow> 'k client \<Rightarrow> bool" where
  "established key c \<longleftrightarrow> m_handshakeDone (cl_crypt c) \<and> m_cipher (cl_crypt c) = Some key"

text \<open>The frame the server makes of a message.\<close>

definition frame_of :: "'k openssl \<Rightarrow> 'k crypt \<Rightarrow> msg \<Rightarrow> byte list \<Rightarrow> bool" where
  "frame_of ssl k m f \<longleftrightarrow> expected m \<and> (\<exists>d mem. sending_draw d \<and> size_of (msg_class m) \<le> length mem
     \<and> GameSession_Send ssl d (msg_bytes m mem) k = Inr (SendBytes f))"

text \<open>The specified step, and the specified state after a sequence of messages.\<close>

definition client_step :: "msg \<Rightarrow> 'k client \<Rightarrow> 'k client" where
  "client_step m c = client_effect m (c\<lparr>cl_calls := cl_calls c + 1\<rparr>)"

lemma client_effect_crypt [simp]: "cl_crypt (client_effect m c) = cl_crypt c"
  by (cases m) (simp_all add: client_send_def)

lemma established_step: "established key c \<Longrightarrow> established key (client_step m c)"
  by (simp add: established_def client_step_def)

lemma frame_received:
  assumes "gcm_ok ssl" "m_cipher k = Some key" "m_handshakeDone k" "\<And>n. d_ctx (ds n)" "\<And>n. length (stacks n) = MAX_PLAIN_PACKET_SIZE"
    and f: "frame_of ssl k m f" and c: "established key c"
  shows "client_OnRecv ssl ds lm stacks (f @ rest) c = Inr (True, client_step m c)"
proof -
  obtain d mem where d: "expected m" "sending_draw d" "size_of (msg_class m) \<le> length mem"
    "GameSession_Send ssl d (msg_bytes m mem) k = Inr (SendBytes f)" using f by (auto simp: frame_of_def)
  then have "sendable m" by (cases m) (simp_all add: sendable_def)
  then have sz: "unat (m_dataSize (msg_bytes m mem)) = size_of (msg_class m)" "length (msg_bytes m mem) = length mem"
    using msg_well_sized[OF d(3)] class_sizes(1)[of m] by (simp_all add: well_sized_def)
  have cc: "m_cipher (cl_crypt c) = Some key" "m_handshakeDone (cl_crypt c)" using c by (simp_all add: established_def)
  have "ServerSession_OnRecv ssl (ds n) lm (stacks n) (f @ rest) (cl_crypt c)
      = Inr (Dispatch (overwrite 0 (take (size_of (msg_class m)) (msg_bytes m mem)) (stacks n)), cl_crypt c)" for n
    using channel_delivers[OF assms(1) d(2) assms(4) assms(2) cc(1) assms(3) cc(2), of "msg_bytes m mem" f] d(3,4) sz
    by (simp add: sent_bytes_def)
  then show ?thesis
    using client_Process_msg[OF d(3,1) assms(5)] c by (simp add: client_OnRecv_def client_act_def client_step_def Let_def)
qed

text \<open>A message's frame is a sealed frame.\<close>

lemma frame_sealed:
  assumes "m_cipher k = Some key" "m_handshakeDone k" "frame_of ssl k m f"
  obtains d inner where "sending_draw d" "unat (m_dataSize inner) \<le> length inner" "SendEncrypted ssl d key inner = SendBytes f"
proof -
  obtain d mem where d: "expected m" "sending_draw d" "size_of (msg_class m) \<le> length mem"
    "SendEncrypted ssl d key (msg_bytes m mem) = SendBytes f"
    using assms by (auto simp: frame_of_def GameSession_Send_def)
  then have "sendable m" by (cases m) (simp_all add: sendable_def)
  then have "unat (m_dataSize (msg_bytes m mem)) \<le> length (msg_bytes m mem)"
    using msg_well_sized[OF d(3)] class_sizes(1)[of m] d(3) by (simp add: well_sized_def)
  then show thesis using d that by blast
qed

lemma messages_followed:
  assumes "gcm_ok ssl" "m_cipher k = Some key" "m_handshakeDone k" "\<And>n. d_ctx (ds n)" "\<And>n. length (stacks n) = MAX_PLAIN_PACKET_SIZE"
    and "recv_accepted os" "rx_ready sid net" "pending (m_recvBuffer (ses sid net)) = []" "established key (app net)"
    and fs: "list_all2 (frame_of ssl k) ms fs" and ns: "\<forall>n \<in> set ns. 0 < n" "length (concat fs) \<le> length ns"
  shows "\<exists>net'. receive os (client_hooks ssl ds lm stacks) sid ns (concat fs) net = Inr net' \<and> rx_ready sid net'
    \<and> app net' = fold client_step ms (app net) \<and> pending (m_recvBuffer (ses sid net')) = []"
proof -
  let ?hk = "client_hooks ssl ds lm stacks"
  define step where "step f c = (case client_OnRecv ssl ds lm stacks f c of Inr (_, c') \<Rightarrow> c' | Inl _ \<Rightarrow> c)" for f c
  have made: "\<exists>m. frame_of ssl k m f" if "f \<in> set fs" for f
    using fs that by (auto simp: list_all2_conv_all_nth in_set_conv_nth)
  have step: "client_OnRecv ssl ds lm stacks f c = Inr (True, client_step m c) \<and> step f c = client_step m c"
    if "frame_of ssl k m f" "established key c" for m f c
    using frame_received[OF assms(1-5) that, where lm = lm and rest = "[]"] by (simp add: step_def)
  have acc: "accepts ?hk sid (established key) step f" if f: "f \<in> set fs" for f
  proof -
    obtain m where m: "frame_of ssl k m f" using made[OF f] by blast
    obtain d inner where "sending_draw d" "unat (m_dataSize inner) \<le> length inner" "SendEncrypted ssl d key inner = SendBytes f"
      by (rule frame_sealed[OF assms(2,3) m])
    note sealed_prefix(2)[OF assms(1) this]
    then have "client_OnRecv ssl ds lm stacks (f @ junk) c = client_OnRecv ssl ds lm stacks f c" for junk c
      by (simp add: client_OnRecv_def)
    then show ?thesis using step[OF m] established_step by (auto simp: accepts_def reads_only_def client_hooks_def)
  qed
  have "32 < length f \<and> unat (m_dataSize f) = length f" if "f \<in> set fs" for f
    using made[OF that] by (auto elim!: frame_sealed[OF assms(2,3)] dest: sealed_shape(3,4)[OF assms(1)])
  then have "split_frames (concat fs) = (fs, [], False)" by (intro split_frames_whole) force
  then obtain net' where n: "receive os ?hk sid ns (concat fs) net = Inr net'" "rx_ready sid net'"
    "app net' = fold step fs (app net)" "pending (m_recvBuffer (ses sid net')) = []"
    using receive_all[OF assms(6,7), of "concat fs" fs "[]" ?hk "established key" step ns] acc assms(8,9) ns by auto
  moreover have "fold step fs c = fold client_step ms c" if "established key c" for c
    using fs that by (induction arbitrary: c rule: list_all2_induct) (simp_all add: step established_step)
  ultimately show ?thesis using assms(9) by auto
qed


definition toy_client :: "byte client" where
  "toy_client = \<lparr>cl_playerId = 0, cl_playerName = [], cl_crypt = toy_crypt, g_inRoom = False, cl_out = [], cl_wire = [],
     cl_open = True, cl_calls = 0\<rparr>"

definition client_net :: "byte client net" where
  "client_net = \<lparr>heap = heap one_session, m_sessions = [0], m_sessionCount = 1, m_maxSessionCount = 1, m_isServerService = False,
     m_serviceAddress = (0, 7900), m_listenSocket = 5, m_acceptSession = None, pool = SendPool_ctor, log = [], app = toy_client\<rparr>"

lemma toy_frame: "expected m \<Longrightarrow> \<exists>f. frame_of toy_ssl toy_crypt m f"
proof -
  assume m: "expected m"
  then have "sendable m" by (cases m) (simp_all add: sendable_def)
  then have "\<exists>f. GameSession_Send toy_ssl (toy_draw 3) (msg_bytes m (replicate (size_of (msg_class m)) 0)) toy_crypt = Inr (SendBytes f)"
    using message_frame(1)[OF toy_ssl_ok(6)[of "replicate 16 9"] toy_draw_ok(1,2)[of 3], of toy_crypt m "replicate (size_of (msg_class m)) 0"]
    by (auto simp: toy_crypt_def)
  then show ?thesis using m toy_draw_ok(1)[of 3] unfolding frame_of_def by (metis length_replicate order_refl)
qed


end
