(* ===== verification/SendPath.thy ===== *)
theory SendPath
  imports Stream
begin

text \<open>
  The send path of a session: \<open>Send\<close> queues a handle and posts one gathered \<^verbatim>\<open>WSASend\<close> when none is
  outstanding; \<open>ProcessSend\<close> releases what was sent and posts what has queued up since.  The lemmas
  show that handles reach the network in the order they were sent, once each, and that the memory of
  an outstanding send is never given back to the pool.
\<close>

section \<open>Events and invariant\<close>

datatype tx = TxSend nat | TxDone int

text \<open>A send completion can only come while a send is outstanding.\<close>

fun transmit :: "os \<Rightarrow> 'app hooks \<Rightarrow> nat \<Rightarrow> tx list \<Rightarrow> 'app net \<Rightarrow> 'app net outcome" where
  "transmit os hk sid [] net = Inr net"
| "transmit os hk sid (TxSend k # es) net = bindR (Send os hk sid k net) (transmit os hk sid es)"
| "transmit os hk sid (TxDone n # es) net =
     (if m_sendRegistered (ses sid net) then bindR (ProcessSend os hk n sid net) (transmit os hk sid es)
      else transmit os hk sid es net)"

fun sends :: "tx list \<Rightarrow> nat list" where
  "sends [] = []"
| "sends (TxSend k # es) = k # sends es"
| "sends (TxDone n # es) = sends es"

text \<open>The chunk pointers that went out on a socket, in order.\<close>

fun posted :: "nat \<Rightarrow> syscall list \<Rightarrow> nat option list" where
  "posted s [] = []"
| "posted s (sys_WSASend s' bufs # l) = (if s = s' then map fst bufs else []) @ posted s l"
| "posted s (_ # l) = posted s l"

lemma posted_append [simp]: "posted s (l @ l') = posted s l @ posted s l'"
  by (induction s l rule: posted.induct) auto

definition send_accepted :: "os \<Rightarrow> bool" where
  "send_accepted os \<longleftrightarrow> (\<forall>l s bufs. os (l @ [sys_WSASend s bufs]) = Err WSA_IO_PENDING
      \<or> succeeded (os (l @ [sys_WSASend s bufs])))"

definition tx_inv :: "nat \<Rightarrow> 'app net \<Rightarrow> bool" where
  "tx_inv sid net \<longleftrightarrow> sid < length (heap net) \<and> m_connected (ses sid net) \<and> pool_inv (pool net)
     \<and> distinct (m_senderQueue (ses sid net) @ m_senders (ses sid net))
     \<and> set (m_senderQueue (ses sid net)) \<union> set (m_senders (ses sid net)) \<subseteq> live (pool net)
     \<and> (m_sendRegistered (ses sid net) \<longleftrightarrow> m_senders (ses sid net) \<noteq> [])
     \<and> (\<not> m_sendRegistered (ses sid net) \<longrightarrow> m_senderQueue (ses sid net) = [])"

section \<open>Releasing senders\<close>

lemma sender_refs_pool [simp]: "sender_refs (net\<lparr>pool := p\<rparr>) = sender_refs net"
  by (simp add: sender_refs_def)

lemma release_senders_live:
  "pool_inv (pool net) \<Longrightarrow> distinct ks \<Longrightarrow> set ks \<subseteq> live (pool net) \<Longrightarrow>
   \<exists>p. release_senders ks net = Inr (net\<lparr>pool := p\<rparr>) \<and> pool_inv p \<and> live p = live (pool net) - (set ks - sender_refs net)"
proof (induction ks arbitrary: net)
  case Nil
  have "net = net\<lparr>pool := pool net\<rparr>" by simp
  then show ?case using Nil.prems by (intro exI[of _ "pool net"]) simp
next
  case (Cons k ks)
  show ?case
  proof (cases "k \<in> sender_refs net")
    case True
    then show ?thesis using Cons.IH[of net] Cons.prems by (simp add: release_sender_def insert_Diff_if)
  next
    case False
    obtain p1 where p1: "Sender_DeAlloc k (pool net) = Inr p1" "pool_inv p1" "live p1 = live (pool net) - {k}"
      using Cons.prems(3) by (metis Sender_DeAlloc_live[OF Cons.prems(1), of k] list.set_intros(1) subsetD)
    have "\<exists>p. release_senders ks (net\<lparr>pool := p1\<rparr>) = Inr (net\<lparr>pool := p1\<rparr>\<lparr>pool := p\<rparr>) \<and> pool_inv p
        \<and> live p = live (pool (net\<lparr>pool := p1\<rparr>)) - (set ks - sender_refs (net\<lparr>pool := p1\<rparr>))"
      by (rule Cons.IH) (use p1 Cons.prems in auto)
    then show ?thesis using p1(1,3) False
      by (auto simp: release_sender_def)
  qed
qed

lemma clear_senders_inv:
  assumes inv: "pool_inv (pool net)" and sid: "sid < length (heap net)"
    and d: "distinct (m_senders (ses sid net))" "set (m_senders (ses sid net)) \<subseteq> live (pool net)"
  shows "\<exists>p. clear_senders sid net = Inr ((upd sid (\<lambda>s. s\<lparr>m_senders := []\<rparr>) net)\<lparr>pool := p\<rparr>) \<and> pool_inv p
    \<and> live (pool net) - set (m_senders (ses sid net)) \<subseteq> live p
    \<and> set (m_senderQueue (ses sid net)) \<inter> live (pool net) \<subseteq> live p"
proof -
  let ?net = "upd sid (\<lambda>s. s\<lparr>m_senders := []\<rparr>) net"
  have q: "set (m_senderQueue (ses sid net)) \<subseteq> sender_refs ?net"
  proof -
    have "ses sid ?net \<in> set (heap ?net)" using sid by (intro nth_mem) simp
    moreover have "m_senderQueue (ses sid ?net) = m_senderQueue (ses sid net)" using sid by simp
    ultimately show ?thesis unfolding sender_refs_def by fastforce
  qed
  from release_senders_live[of ?net "m_senders (ses sid net)"] show ?thesis
    using inv d q by (auto simp: clear_senders_def)
qed

section \<open>Steps\<close>

text \<open>The state after an accepted \<^verbatim>\<open>WSASend\<close> of everything queued.\<close>

definition posted_send :: "nat \<Rightarrow> WSABUF list \<Rightarrow> 'app net \<Rightarrow> 'app net" where
  "posted_send sid bufs net =
     (upd sid (\<lambda>s. s\<lparr>m_sendOwner := Some sid, m_senders := m_senderQueue s, m_senderQueue := []\<rparr>) net)
       \<lparr>log := log net @ [sys_WSASend (m_socket (ses sid net)) bufs]\<rparr>"

lemma posted_send_simps [simp]:
  "length (heap (posted_send sid bufs net)) = length (heap net)"
  "sid < length (heap net) \<Longrightarrow> ses sid (posted_send sid bufs net) = (ses sid net)
     \<lparr>m_sendOwner := Some sid, m_senders := m_senderQueue (ses sid net), m_senderQueue := []\<rparr>"
  "pool (posted_send sid bufs net) = pool net"
  "log (posted_send sid bufs net) = log net @ [sys_WSASend (m_socket (ses sid net)) bufs]"
  by (simp_all add: posted_send_def)

lemma RegisterSend_step:
  assumes os: "send_accepted os" and sid: "sid < length (heap net)" "m_connected (ses sid net)"
    and live: "pool_inv (pool net)" "set (m_senderQueue (ses sid net)) \<subseteq> live (pool net)"
    and idle: "m_senders (ses sid net) = []"
  obtains bufs where "map fst bufs = map Some (m_senderQueue (ses sid net))"
    "RegisterSend os hk sid net = Inr (posted_send sid bufs net)"
proof -
  let ?q = "m_senderQueue (ses sid net)"
  let ?bufs = "map (\<lambda>k. (GetSendPointer k (pool net), unat (GetSendSize k (pool net)))) ?q"
  have "GetSendPointer k (pool net) = Some k" if "k \<in> set ?q" for k
    using pool_inv_live(1)[OF live(1)] live(2) that by (auto simp: GetSendPointer_def)
  then have fst: "map fst ?bufs = map Some ?q" by (simp add: comp_def)
  have same: "upd sid (\<lambda>s. s\<lparr>m_sendOwner := Some sid, m_senders := m_senders s @ m_senderQueue s,
      m_senderQueue := []\<rparr>) net = upd sid (\<lambda>s. s\<lparr>m_sendOwner := Some sid, m_senders := m_senderQueue s,
      m_senderQueue := []\<rparr>) net"
    using idle by (simp add: upd_def)
  let ?l = "log net @ [sys_WSASend (m_socket (ses sid net)) ?bufs]"
  have "os ?l = Err WSA_IO_PENDING \<or> succeeded (os ?l)"
    using os unfolding send_accepted_def by blast
  then consider a b where "os ?l = Ok a b" | "os ?l = Err WSA_IO_PENDING" by (cases "os ?l") auto
  then have "RegisterSend os hk sid net = Inr (posted_send sid ?bufs net)"
    using sid idle by cases (simp_all add: RegisterSend_def Let_def syscall_def same posted_send_def)
  with fst show thesis using that by blast
qed

text \<open>What each step does to the order of handles on the wire and in the queue.\<close>

definition wire :: "nat \<Rightarrow> 'app net \<Rightarrow> nat option list" where
  "wire sid net = posted (m_socket (ses sid net)) (log net) @ map Some (m_senderQueue (ses sid net))"

abbreviation held :: "nat \<Rightarrow> 'app net \<Rightarrow> nat set" where
  "held sid net \<equiv> set (m_senderQueue (ses sid net)) \<union> set (m_senders (ses sid net))"

lemma Send_step:
  assumes os: "send_accepted os" and inv: "tx_inv sid net" and k: "k \<in> live (pool net)" "k \<notin> held sid net"
  shows "\<exists>net'. Send os hk sid k net = Inr net' \<and> tx_inv sid net' \<and> wire sid net' = wire sid net @ [Some k]
    \<and> pool net' = pool net \<and> held sid net' = insert k (held sid net)"
proof -
  note iv = inv[unfolded tx_inv_def]
  define net1 where "net1 = upd sid (\<lambda>s. s\<lparr>m_senderQueue := m_senderQueue s @ [k], m_sendRegistered := True\<rparr>) net"
  have n1: "length (heap net1) = length (heap net)" "pool net1 = pool net" "log net1 = log net"
    "ses sid net1 = (ses sid net)\<lparr>m_senderQueue := m_senderQueue (ses sid net) @ [k], m_sendRegistered := True\<rparr>"
    using iv by (simp_all add: net1_def)
  show ?thesis
  proof (cases "m_sendRegistered (ses sid net)")
    case True
    then have "Send os hk sid k net = Inr net1" by (simp add: Send_def Let_def net1_def)
    then show ?thesis using iv k True n1 by (auto simp: tx_inv_def wire_def)
  next
    case False
    then have q: "m_senderQueue (ses sid net) = []" "m_senders (ses sid net) = []" using iv by auto
    obtain bufs where b: "map fst bufs = [Some k]" "RegisterSend os hk sid net1 = Inr (posted_send sid bufs net1)"
      by (rule RegisterSend_step[OF os, of sid net1 hk]) (use iv q k n1 in simp_all)
    have "Send os hk sid k net = Inr (posted_send sid bufs net1)"
      using False b(2) by (simp add: Send_def Let_def net1_def)
    then show ?thesis using iv q k n1 b(1) by (simp add: tx_inv_def wire_def)
  qed
qed

lemma ProcessSend_step:
  assumes os: "send_accepted os" and inv: "tx_inv sid net" and reg: "m_sendRegistered (ses sid net)"
    and n: "n \<noteq> 0" and hook: "OnSend hk = (\<lambda>sid n net. Inr net)"
  shows "\<exists>net'. ProcessSend os hk n sid net = Inr net' \<and> tx_inv sid net' \<and> wire sid net' = wire sid net
    \<and> live (pool net) - set (m_senders (ses sid net)) \<subseteq> live (pool net') \<and> held sid net' \<subseteq> held sid net"
proof -
  note iv = inv[unfolded tx_inv_def]
  let ?net0 = "upd sid (\<lambda>s. s\<lparr>m_sendOwner := None\<rparr>) net"
  let ?q = "m_senderQueue (ses sid net)"
  have s0: "ses sid ?net0 = (ses sid net)\<lparr>m_sendOwner := None\<rparr>" "pool ?net0 = pool net"
    "sid < length (heap ?net0)" using iv by simp_all
  have q: "set ?q \<subseteq> live (pool net)" "distinct (m_senders (ses sid net))"
    "set (m_senders (ses sid net)) \<subseteq> live (pool net)" "pool_inv (pool net)" using iv by simp_all
  obtain p where p: "clear_senders sid ?net0 = Inr ((upd sid (\<lambda>s. s\<lparr>m_senders := []\<rparr>) ?net0)\<lparr>pool := p\<rparr>)"
    "pool_inv p" "live (pool net) - set (m_senders (ses sid net)) \<subseteq> live p" "set ?q \<subseteq> live p"
    using clear_senders_inv[of ?net0 sid] q s0(3) by (simp add: s0(1,2) Int_absorb2) blast
  define net1 where "net1 = (upd sid (\<lambda>s. s\<lparr>m_senders := []\<rparr>) ?net0)\<lparr>pool := p\<rparr>"
  have n1: "length (heap net1) = length (heap net)" "pool net1 = p" "log net1 = log net"
    "ses sid net1 = (ses sid net)\<lparr>m_sendOwner := None, m_senders := []\<rparr>"
    using iv by (simp_all add: net1_def)
  have ps: "ProcessSend os hk n sid net = (if ?q = [] then Inr (upd sid (\<lambda>s. s\<lparr>m_sendRegistered := False\<rparr>) net1)
      else RegisterSend os hk sid net1)"
    unfolding ProcessSend_def hook p(1)[folded net1_def] using n n1(4) by simp
  show ?thesis
  proof (cases "?q = []")
    case True
    then show ?thesis using iv p n1 ps by (simp add: tx_inv_def wire_def)
  next
    case False
    obtain bufs where b: "map fst bufs = map Some ?q" "RegisterSend os hk sid net1 = Inr (posted_send sid bufs net1)"
      by (rule RegisterSend_step[OF os, of sid net1 hk]) (use iv p n1 in simp_all)
    then show ?thesis using iv p n1 ps False reg by (simp add: tx_inv_def wire_def)
  qed
qed

section \<open>Sequences of events\<close>

lemma transmit_inv:
  assumes os: "send_accepted os" and hook: "OnSend hk = (\<lambda>sid n net. Inr net)"
  shows "tx_inv sid net \<Longrightarrow> distinct (sends es) \<Longrightarrow> set (sends es) \<subseteq> live (pool net) - held sid net \<Longrightarrow>
    TxDone 0 \<notin> set es \<Longrightarrow>
    \<exists>net'. transmit os hk sid es net = Inr net' \<and> tx_inv sid net' \<and> wire sid net' = wire sid net @ map Some (sends es)"
proof (induction es arbitrary: net)
  case Nil
  then show ?case by simp
next
  case (Cons e es)
  show ?case
  proof (cases e)
    case (TxSend k)
    have k: "k \<in> live (pool net)" "k \<notin> held sid net" using Cons.prems(3) TxSend by auto
    obtain net1 where n1: "Send os hk sid k net = Inr net1" "tx_inv sid net1" "wire sid net1 = wire sid net @ [Some k]"
      "pool net1 = pool net" "held sid net1 = insert k (held sid net)"
      using Send_step[OF os Cons.prems(1) k] by blast
    have "set (sends es) \<subseteq> live (pool net1) - held sid net1" using Cons.prems(2,3) TxSend n1(4,5) by auto
    then show ?thesis using Cons.IH[OF n1(2)] Cons.prems(2,4) n1(1,3) TxSend by simp
  next
    case (TxDone n)
    show ?thesis
    proof (cases "m_sendRegistered (ses sid net)")
      case True
      have "n \<noteq> 0" using Cons.prems(4) TxDone by auto
      then obtain net1 where n1: "ProcessSend os hk n sid net = Inr net1" "tx_inv sid net1" "wire sid net1 = wire sid net"
        "live (pool net) - set (m_senders (ses sid net)) \<subseteq> live (pool net1)" "held sid net1 \<subseteq> held sid net"
        using ProcessSend_step[OF os Cons.prems(1) True _ hook] by blast
      have "set (sends es) \<subseteq> live (pool net1) - held sid net1" using Cons.prems(3) TxDone n1(4,5) by auto
      then show ?thesis using Cons.IH[OF n1(2)] Cons.prems(2,4) n1(1,3) TxDone True by simp
    next
      case False
      then show ?thesis using Cons.IH[OF Cons.prems(1)] Cons.prems TxDone by simp
    qed
  qed
qed

section \<open>Properties\<close>

text \<open>(C14) Sends are delivered in order and their memory is safe.  On a connected session whose sends the
  system accepts, whatever the interleaving of \<open>Send\<close> calls and send completions: no operation faults;
  the chunks handed to \<^verbatim>\<open>WSASend\<close>, followed by those still queued, are exactly the handles passed to
  \<open>Send\<close>, in order and without loss or duplication; a send is outstanding exactly while
  \<open>m_sendRegistered\<close> is set, handles only wait in the queue while one is, and every handle that is
  outstanding or queued still owns its run of the pool.\<close>

theorem send_fifo:
  assumes "send_accepted os" "OnSend hk = (\<lambda>sid n net. Inr net)" "tx_inv sid net"
    and "distinct (sends es)" "set (sends es) \<subseteq> live (pool net) - held sid net" "TxDone 0 \<notin> set es"
  shows "\<exists>net'. transmit os hk sid es net = Inr net'
     \<and> posted (m_socket (ses sid net')) (log net') @ map Some (m_senderQueue (ses sid net'))
         = posted (m_socket (ses sid net)) (log net) @ map Some (m_senderQueue (ses sid net) @ sends es)
     \<and> (m_sendRegistered (ses sid net') \<longleftrightarrow> m_senders (ses sid net') \<noteq> [])
     \<and> (m_senderQueue (ses sid net') \<noteq> [] \<longrightarrow> m_sendRegistered (ses sid net'))
     \<and> held sid net' \<subseteq> live (pool net') \<and> pool_inv (pool net')"
  using transmit_inv[OF assms(1-6)] by (auto simp: wire_def tx_inv_def)

theorem send_fifo_witness:
  "\<exists>p net'. SendPool_Alloc 1312 four_chunks = Inr (Some 0, p)
     \<and> transmit (\<lambda>_. Err WSA_IO_PENDING) recorder 0 [TxSend 0, TxDone 1312] (one_session\<lparr>pool := p\<rparr>) = Inr net'
     \<and> posted (m_socket (ses 0 net')) (log net') @ map Some (m_senderQueue (ses 0 net')) = [Some 0]"
proof -
  obtain p where p: "SendPool_Alloc 1312 four_chunks = Inr (Some 0, p)" using four_chunks_Alloc by blast
  have inv: "pool_inv p" using pool.alloc_ok[OF four_chunks_inv, of 1312] p by simp
  have lv: "live p = {0}" using pool.alloc_some[OF four_chunks_inv p] four_chunks_live by simp
  have "tx_inv 0 (one_session\<lparr>pool := p\<rparr>)" using inv by (simp add: tx_inv_def one_session_def)
  from send_fifo[OF _ _ this, of "\<lambda>_. Err WSA_IO_PENDING" recorder "[TxSend 0, TxDone 1312]"] p lv
  show ?thesis by (auto simp: send_accepted_def recorder_def one_session_def)
qed

end
