(* ===== verification/Service.thy ===== *)
theory Service
  imports SendPath
begin

text \<open>
  \<^verbatim>\<open>ServerCore/{Service,Listener,IocpCore}\<close>: the session factory and session table, the accept loop,
  and the dispatch of completions to their owners.
\<close>

section \<open>Service\<close>

type_synonym 'app factory = "'app net \<Rightarrow> nat \<times> 'app net"

definition IocpCore_Register :: "os \<Rightarrow> nat \<Rightarrow> 'app net \<Rightarrow> bool \<times> 'app net" where
  "IocpCore_Register os handle net = map_prod succeeded id (syscall os (sys_CreateIoCompletionPort handle) net)"

definition CreateSession :: "os \<Rightarrow> 'app factory \<Rightarrow> 'app net \<Rightarrow> nat option \<times> 'app net" where
  "CreateSession os factory net =
     (let (session, net) = factory net; (ok, net) = IocpCore_Register os (m_socket (ses session net)) net in
      if \<not> ok then (None, net) else (Some session, net))"

text \<open>\<open>BroadCast\<close>: one \<open>Send\<close> per session of the table, in its order.\<close>

fun BroadCast_loop :: "os \<Rightarrow> 'app hooks \<Rightarrow> nat \<Rightarrow> nat list \<Rightarrow> 'app net \<Rightarrow> 'app net outcome" where
  "BroadCast_loop os hk sender [] net = Inr net"
| "BroadCast_loop os hk sender (sid # sids) net =
     bindR (Send os hk sid sender net) (BroadCast_loop os hk sender sids)"

definition BroadCast :: "os \<Rightarrow> 'app hooks \<Rightarrow> nat \<Rightarrow> 'app net \<Rightarrow> 'app net outcome" where
  "BroadCast os hk sender net = BroadCast_loop os hk sender (m_sessions net) net"

definition GetSessions :: "'app net \<Rightarrow> nat list" where
  "GetSessions net = m_sessions net"

section \<open>Listener\<close>

text \<open>\<open>RegisterAccept\<close> calls itself when \<^verbatim>\<open>AcceptEx\<close> fails outright; \<open>depth\<close> is the call stack that is
  left.  A factory session that could not be registered is a null pointer, which is dereferenced.\<close>

fun RegisterAccept :: "os \<Rightarrow> 'app factory \<Rightarrow> nat \<Rightarrow> 'app net \<Rightarrow> 'app net outcome" where
  "RegisterAccept os factory 0 net = Inl (UB ''stack overflow'')"
| "RegisterAccept os factory (Suc depth) net =
     (case CreateSession os factory net of
        (None, net) \<Rightarrow> Inl (UB ''null session'')
      | (Some session, net) \<Rightarrow>
          bindR (WritePos (m_recvBuffer (ses session net))) (\<lambda>_.
            case syscall os (sys_AcceptEx (m_listenSocket net) (m_socket (ses session net)))
                   (net\<lparr>m_acceptSession := Some session\<rparr>) of
              (Ok _ _, net) \<Rightarrow> Inr net
            | (Err errorCode, net) \<Rightarrow>
                if errorCode \<noteq> WSA_IO_PENDING then RegisterAccept os factory depth net else Inr net))"

definition StartAccept :: "os \<Rightarrow> 'app factory \<Rightarrow> nat \<Rightarrow> 'app net \<Rightarrow> (bool \<times> 'app net) outcome" where
  "StartAccept os factory depth net =
     (let (sock, net) = CreateSocket os net; net = net\<lparr>m_listenSocket := sock\<rparr> in
      if sock = INVALID_SOCKET then Inr (False, net)
      else let (ok, net) = IocpCore_Register os sock net in
      if \<not> ok then Inr (False, net)
      else let (ok, net) = SetReuseAddress os sock True net in
      if \<not> ok then Inr (False, net)
      else let (ok, net) = SetLinger os sock 0 0 net in
      if \<not> ok then Inr (False, net)
      else let (ok, net) = Bind os sock (m_serviceAddress net) net in
      if \<not> ok then Inr (False, net)
      else let (ok, net) = Listen os sock net in
      if \<not> ok then Inr (False, net)
      else bindR (RegisterAccept os factory depth net) (\<lambda>net. Inr (True, net)))"

definition CloseSocket :: "os \<Rightarrow> 'app net \<Rightarrow> 'app net" where
  "CloseSocket os net = (let (sock, net) = Close os (m_listenSocket net) net in net\<lparr>m_listenSocket := sock\<rparr>)"

definition ProcessAccept :: "os \<Rightarrow> 'app hooks \<Rightarrow> 'app factory \<Rightarrow> nat \<Rightarrow> 'app net \<Rightarrow> 'app net outcome" where
  "ProcessAccept os hk factory depth net =
     (case m_acceptSession net of
        None \<Rightarrow> Inl (UB ''null session'')
      | Some session \<Rightarrow>
          let (ok, net) = SetUpdateAcceptSocket os (m_socket (ses session net)) (m_listenSocket net) net in
          if \<not> ok then RegisterAccept os factory depth net
          else case syscall os (sys_getpeername (m_socket (ses session net))) net of
            (Err _, net) \<Rightarrow> RegisterAccept os factory depth net
          | (Ok ip port, net) \<Rightarrow>
              bindR (ProcessConnect os hk session (upd session (\<lambda>s. s\<lparr>m_netAddress := (ip, port)\<rparr>) net))
                (RegisterAccept os factory depth))"

definition Listener_Dispatch :: "os \<Rightarrow> 'app hooks \<Rightarrow> 'app factory \<Rightarrow> nat \<Rightarrow> EventType \<Rightarrow> 'app net \<Rightarrow> 'app net outcome" where
  "Listener_Dispatch os hk factory depth ty net =
     ASSERT_CRASH (ty = Accept_ev) (ProcessAccept os hk factory depth net)"

section \<open>ServerService and ClientService\<close>

text \<open>\<open>ServerService::Start\<close>; \<open>fresh\<close> is the memory \<open>Sender::Init\<close> gets for its 30000 chunks.\<close>

definition ServerService_Start :: "os \<Rightarrow> 'app factory \<Rightarrow> nat \<Rightarrow> byte list option \<Rightarrow> 'app net \<Rightarrow> (bool \<times> 'app net) outcome" where
  "ServerService_Start os factory depth fresh net =
     bindR (StartAccept os factory depth net) (\<lambda>(ok, net).
       if \<not> ok then Inr (False, net)
       else bindR (Sender_Init 30000 fresh (pool net)) (\<lambda>p. Inr (True, net\<lparr>pool := p\<rparr>)))"

fun ClientService_Start_loop :: "os \<Rightarrow> 'app factory \<Rightarrow> nat \<Rightarrow> 'app net \<Rightarrow> (bool \<times> 'app net) outcome" where
  "ClientService_Start_loop os factory 0 net = Inr (True, net)"
| "ClientService_Start_loop os factory (Suc n) net =
     (case CreateSession os factory net of
        (None, net) \<Rightarrow> Inl (UB ''null session'')
      | (Some session, net) \<Rightarrow>
          let (ok, net) = Connect os session net in
          if \<not> ok then Inr (False, net) else ClientService_Start_loop os factory n net)"

definition ClientService_Start :: "os \<Rightarrow> 'app factory \<Rightarrow> 'app net \<Rightarrow> (bool \<times> 'app net) outcome" where
  "ClientService_Start os factory net = ClientService_Start_loop os factory (nat (m_maxSessionCount net)) net"

fun ClientService_End_loop :: "os \<Rightarrow> 'app hooks \<Rightarrow> nat list \<Rightarrow> 'app net \<Rightarrow> 'app net outcome" where
  "ClientService_End_loop os hk [] net = Inr net"
| "ClientService_End_loop os hk (s # sessions) net =
     (if m_connected (ses s net)
      then bindR (Disconnect os hk s net) (ClientService_End_loop os hk sessions)
      else ClientService_End_loop os hk sessions net)"

definition ClientService_End :: "os \<Rightarrow> 'app hooks \<Rightarrow> 'app net \<Rightarrow> 'app net outcome" where
  "ClientService_End os hk net = ClientService_End_loop os hk (m_sessions net) net"

section \<open>IocpCore\<close>

text \<open>What \<^verbatim>\<open>GetQueuedCompletionStatus\<close> returns: a completion, or an error code with the completion it
  belongs to, if any.  A completed receive comes with the bytes the system stored.\<close>

datatype completion = C_Connect nat | C_Disconnect nat | C_Recv nat "byte list" | C_Send nat int | C_Accept

datatype gqcs = GQ_ok completion | GQ_fail int "completion option"

definition WAIT_TIMEOUT :: int where "WAIT_TIMEOUT = 258"
definition ERROR_CONNECTION_REFUSED :: int where "ERROR_CONNECTION_REFUSED = 1225"

text \<open>\<^verbatim>\<open>iocpEvent->m_owner\<close> and the virtual \<open>Dispatch\<close> of the owner.\<close>

definition owned :: "nat option \<Rightarrow> (nat \<Rightarrow> 'a outcome) \<Rightarrow> 'a outcome" where
  "owned owner k = (case owner of None \<Rightarrow> Inl (UB ''null owner'') | Some sid \<Rightarrow> k sid)"

fun dispatch_owner :: "os \<Rightarrow> 'app hooks \<Rightarrow> 'app factory \<Rightarrow> nat \<Rightarrow> completion \<Rightarrow> 'app net \<Rightarrow> 'app net outcome" where
  "dispatch_owner os hk factory depth (C_Connect sid) net =
     owned (m_connectOwner (ses sid net)) (\<lambda>own. Session_Dispatch os hk Connect_ev 0 own net)"
| "dispatch_owner os hk factory depth (C_Disconnect sid) net =
     owned (m_disconnectOwner (ses sid net)) (\<lambda>own. Session_Dispatch os hk Disconnect_ev 0 own net)"
| "dispatch_owner os hk factory depth (C_Recv sid bs) net =
     owned (m_recvOwner (ses sid net)) (\<lambda>own. Session_Dispatch os hk Recv_ev (int (length bs)) own
       (upd sid (\<lambda>s. s\<lparr>m_recvBuffer := recv_store bs (m_recvBuffer s)\<rparr>) net))"
| "dispatch_owner os hk factory depth (C_Send sid n) net =
     owned (m_sendOwner (ses sid net)) (\<lambda>own. Session_Dispatch os hk Send_ev n own net)"
| "dispatch_owner os hk factory depth C_Accept net = Listener_Dispatch os hk factory depth Accept_ev net"

definition IocpCore_Dispatch :: "os \<Rightarrow> 'app hooks \<Rightarrow> 'app factory \<Rightarrow> nat \<Rightarrow> gqcs \<Rightarrow> 'app net \<Rightarrow> (bool \<times> 'app net) outcome" where
  "IocpCore_Dispatch os hk factory depth status net =
     (case status of
        GQ_ok ev \<Rightarrow> bindR (dispatch_owner os hk factory depth ev net) (\<lambda>net. Inr (True, net))
      | GQ_fail errCode ev \<Rightarrow>
          if errCode = WAIT_TIMEOUT then Inr (False, net)
          else if errCode = ERROR_CONNECTION_REFUSED then Inr (False, net)
          else case ev of
            None \<Rightarrow> Inl (UB ''null event'')
          | Some ev \<Rightarrow> bindR (dispatch_owner os hk factory depth ev net) (\<lambda>net. Inr (True, net)))"

section \<open>The session table\<close>

text \<open>The table holds exactly the connected sessions, once each, and the counter counts them.\<close>

definition svc_inv :: "'app net \<Rightarrow> bool" where
  "svc_inv net \<longleftrightarrow> distinct (m_sessions net) \<and> m_sessionCount net = int (length (m_sessions net))
     \<and> set (m_sessions net) = {sid. sid < length (heap net) \<and> m_connected (ses sid net)}"

definition same_table :: "'app net \<Rightarrow> 'app net \<Rightarrow> bool" where
  "same_table net net' \<longleftrightarrow> m_sessions net' = m_sessions net \<and> m_sessionCount net' = m_sessionCount net
     \<and> map m_connected (heap net') = map m_connected (heap net)"

text \<open>An \<open>OnDisconnected\<close> that returns, and neither connects nor disconnects anybody.\<close>

definition quiet_OnDisconnected :: "'app hooks \<Rightarrow> bool" where
  "quiet_OnDisconnected hk \<longleftrightarrow> (\<forall>sid net. \<exists>net'. OnDisconnected hk sid net = Inr net' \<and> same_table net net')"

lemma same_table_refl [simp]: "same_table net net"
  by (simp add: same_table_def)

lemma same_table_trans: "same_table a b \<Longrightarrow> same_table b c \<Longrightarrow> same_table a c"
  by (simp add: same_table_def)

lemma same_table_length: "same_table net net' \<Longrightarrow> length (heap net') = length (heap net)"
  unfolding same_table_def by (metis length_map)

lemma same_table_connected:
  "same_table net net' \<Longrightarrow> sid < length (heap net) \<Longrightarrow> m_connected (ses sid net') = m_connected (ses sid net)"
  unfolding same_table_def by (metis length_map nth_map)

lemma same_table_upd:
  "(\<And>s. m_connected (f s) = m_connected s) \<Longrightarrow> same_table net (upd sid f net)"
  by (cases "sid < length (heap net)")
    (simp_all add: same_table_def upd_def map_update list_update_same_conv list_update_beyond)

lemma same_table_syscall: "same_table net (snd (syscall os c net))"
  by (simp add: same_table_def syscall_def)

lemma same_table_RegisterDisconnect: "same_table net (snd (RegisterDisconnect os sid net))"
proof -
  let ?net1 = "upd sid (\<lambda>s. s\<lparr>m_disconnectOwner := Some sid\<rparr>) net"
  have 1: "same_table net ?net1" by (rule same_table_upd) simp
  obtain r net2 where r: "syscall os (sys_DisconnectEx (m_socket (ses sid ?net1))) ?net1 = (r, net2)" by fastforce
  have 2: "same_table ?net1 net2" using same_table_syscall[of ?net1 os] r by (metis snd_conv)
  have 3: "same_table net2 (upd sid (\<lambda>s. s\<lparr>m_disconnectOwner := None\<rparr>) net2)" by (rule same_table_upd) simp
  have 4: "same_table net net2" using 1 2 by (rule same_table_trans)
  have "snd (RegisterDisconnect os sid net) \<in> {net2, upd sid (\<lambda>s. s\<lparr>m_disconnectOwner := None\<rparr>) net2}"
    using r by (simp add: RegisterDisconnect_def Let_def split: answer.splits)
  then show ?thesis using 4 same_table_trans[OF 4 3] by auto
qed

lemma Disconnect_connected:
  assumes inv: "svc_inv net" and hook: "quiet_OnDisconnected hk"
    and sid: "sid < length (heap net)" "m_connected (ses sid net)"
  shows "\<exists>net'. Disconnect os hk sid net = Inr net' \<and> svc_inv net' \<and> \<not> m_connected (ses sid net')
    \<and> m_sessions net' = remove1 sid (m_sessions net) \<and> length (heap net') = length (heap net)
    \<and> (\<forall>j < length (heap net). j \<noteq> sid \<longrightarrow> m_connected (ses j net') = m_connected (ses j net))"
proof -
  let ?net1 = "upd sid (\<lambda>s. s\<lparr>m_connected := False\<rparr>) net"
  obtain net2 where n2: "OnDisconnected hk sid ?net1 = Inr net2" "same_table ?net1 net2"
    using hook unfolding quiet_OnDisconnected_def by blast
  let ?net3 = "net2\<lparr>m_sessions := remove1 sid (m_sessions net2), m_sessionCount := m_sessionCount net2 - 1\<rparr>"
  have mem: "sid \<in> set (m_sessions net2)" using n2(2) inv sid by (simp add: same_table_def svc_inv_def)
  define net4 where "net4 = snd (RegisterDisconnect os sid ?net3)"
  have st: "same_table ?net3 net4" using same_table_RegisterDisconnect net4_def by metis
  have ret: "Disconnect os hk sid net = Inr net4"
    using sid n2(1) mem by (simp add: Disconnect_def ReleaseSession_def net4_def)
  have len: "length (heap net4) = length (heap net)"
    using same_table_length[OF st] same_table_length[OF n2(2)] by simp
  have conn: "m_connected (ses j net4) = (j \<noteq> sid \<and> m_connected (ses j net))" if "j < length (heap net)" for j
  proof -
    have "m_connected (ses j net4) = m_connected (ses j ?net1)"
      using same_table_connected[OF st, of j] same_table_connected[OF n2(2), of j] same_table_length[OF n2(2)] that by simp
    then show ?thesis using that sid(1) by (simp add: upd_def nth_list_update)
  qed
  have tab: "m_sessions net4 = remove1 sid (m_sessions net)" "m_sessionCount net4 = m_sessionCount net - 1"
    using st n2(2) by (simp_all add: same_table_def upd_def)
  note iv = inv[unfolded svc_inv_def]
  have smem: "sid \<in> set (m_sessions net)" using iv sid by simp
  have "set (remove1 sid (m_sessions net)) = {j. j < length (heap net) \<and> m_connected (ses j net4)}"
    using iv conn by (auto simp: set_remove1_eq)
  moreover have "m_sessionCount net - 1 = int (length (remove1 sid (m_sessions net)))"
    using iv length_pos_if_in_set[OF smem] smem by (simp add: length_remove1 Suc_le_eq of_nat_diff)
  ultimately have "svc_inv net4" unfolding svc_inv_def tab len using iv by simp
  then show ?thesis using ret conn sid tab len by auto
qed

lemma End_loop_disconnects:
  assumes hook: "quiet_OnDisconnected hk"
  shows "svc_inv net \<Longrightarrow> set sids \<subseteq> {..<length (heap net)} \<Longrightarrow>
    \<exists>net'. ClientService_End_loop os hk sids net = Inr net' \<and> svc_inv net' \<and> length (heap net') = length (heap net)
      \<and> (\<forall>j < length (heap net). m_connected (ses j net') = (j \<notin> set sids \<and> m_connected (ses j net)))"
proof (induction sids arbitrary: net)
  case Nil
  then show ?case by simp
next
  case (Cons s sids)
  show ?case
  proof (cases "m_connected (ses s net)")
    case True
    obtain net1 where n1: "Disconnect os hk s net = Inr net1" "svc_inv net1" "\<not> m_connected (ses s net1)"
      "length (heap net1) = length (heap net)"
      "\<forall>j < length (heap net). j \<noteq> s \<longrightarrow> m_connected (ses j net1) = m_connected (ses j net)"
      using Disconnect_connected[OF Cons.prems(1) hook _ True] Cons.prems(2) by fastforce
    from Cons.IH[OF n1(2)] obtain net2 where "ClientService_End_loop os hk sids net1 = Inr net2" "svc_inv net2"
      "length (heap net2) = length (heap net)"
      "\<forall>j < length (heap net). m_connected (ses j net2) = (j \<notin> set sids \<and> m_connected (ses j net1))"
      using Cons.prems(2) n1(4) by auto
    then show ?thesis using n1 True by auto
  next
    case False
    obtain net2 where "ClientService_End_loop os hk sids net = Inr net2" "svc_inv net2"
      "length (heap net2) = length (heap net)"
      "\<forall>j < length (heap net). m_connected (ses j net2) = (j \<notin> set sids \<and> m_connected (ses j net))"
      using Cons.IH[OF Cons.prems(1)] Cons.prems(2) by auto
    then show ?thesis using False by auto
  qed
qed

section \<open>Properties\<close>

text \<open>(C26) Shutting a client service down disconnects everybody: from a state whose session table holds
  exactly the connected sessions, \<open>ClientService::End\<close> returns (the assertion of \<open>ReleaseSession\<close> never
  fires), leaves an empty table with count zero, and no session connected.\<close>

theorem ClientService_End_disconnects_all:
  assumes "svc_inv net" "quiet_OnDisconnected hk"
  shows "\<exists>net'. ClientService_End os hk net = Inr net' \<and> m_sessions net' = [] \<and> m_sessionCount net' = 0
     \<and> (\<forall>sid < length (heap net'). \<not> m_connected (ses sid net'))"
proof -
  have tab: "set (m_sessions net) = {sid. sid < length (heap net) \<and> m_connected (ses sid net)}"
    using assms(1) by (simp add: svc_inv_def)
  then obtain net' where n: "ClientService_End os hk net = Inr net'" "svc_inv net'"
    "length (heap net') = length (heap net)"
    "\<forall>j < length (heap net). m_connected (ses j net') = (j \<notin> set (m_sessions net) \<and> m_connected (ses j net))"
    using End_loop_disconnects[OF assms(2,1), of "m_sessions net" os] unfolding ClientService_End_def by blast
  then have off: "\<not> m_connected (ses sid net')" if "sid < length (heap net')" for sid using that tab by auto
  then have "set (m_sessions net') = {}" using n(2) by (auto simp: svc_inv_def)
  then show ?thesis using n off by (auto simp: svc_inv_def)
qed

lemma recorder_quiet: "quiet_OnDisconnected recorder"
  by (simp add: quiet_OnDisconnected_def recorder_def)

lemma one_session_svc: "svc_inv one_session"
  by (auto simp: svc_inv_def one_session_def)

theorem ClientService_End_disconnects_all_witness:
  "\<exists>net'. ClientService_End (\<lambda>_. Err WSA_IO_PENDING) recorder one_session = Inr net' \<and> m_sessions net' = []"
  using ClientService_End_disconnects_all[OF one_session_svc recorder_quiet] by blast

text \<open>Disconnecting is done once: a connected session leaves the table, the counter drops by one, and
  a second \<open>Disconnect\<close> does nothing.\<close>

lemma Disconnect_once:
  assumes "svc_inv net" "quiet_OnDisconnected hk" "sid < length (heap net)" "m_connected (ses sid net)"
  shows "\<exists>net'. Disconnect os hk sid net = Inr net' \<and> svc_inv net' \<and> \<not> m_connected (ses sid net')
     \<and> sid \<notin> set (m_sessions net') \<and> m_sessionCount net' = m_sessionCount net - 1
     \<and> Disconnect os hk sid net' = Inr net'"
proof -
  obtain net' where n: "Disconnect os hk sid net = Inr net'" "svc_inv net'" "\<not> m_connected (ses sid net')"
    "m_sessions net' = remove1 sid (m_sessions net)" using Disconnect_connected[OF assms] by blast
  have mem: "sid \<in> set (m_sessions net)" "distinct (m_sessions net)" using assms by (auto simp: svc_inv_def)
  then have "length (m_sessions net) = Suc (length (m_sessions net'))"
    using n(4) length_pos_if_in_set[OF mem(1)] by (simp add: length_remove1)
  then show ?thesis using n mem assms(1) by (auto simp: svc_inv_def Disconnect_def)
qed

theorem Disconnect_once_witness:
  "\<exists>net'. Disconnect (\<lambda>_. Err WSA_IO_PENDING) recorder 0 one_session = Inr net'
     \<and> m_sessionCount net' = 0 \<and> Disconnect (\<lambda>_. Err WSA_IO_PENDING) recorder 0 net' = Inr net'"
  using Disconnect_once[OF one_session_svc recorder_quiet, of 0 "\<lambda>_. Err WSA_IO_PENDING"]
  by (auto simp: one_session_def)

text \<open>When \<^verbatim>\<open>AcceptEx\<close> keeps failing outright, \<open>RegisterAccept\<close> recurses until the call stack is
  exhausted, whatever its size: the accept loop has no bound and no way to give up.\<close>

lemma RegisterAccept_unbounded:
  assumes "\<And>l s a. os (l @ [sys_AcceptEx s a]) = Err e" "e \<noteq> WSA_IO_PENDING"
    and "\<And>l h. succeeded (os (l @ [sys_CreateIoCompletionPort h]))"
  shows "RegisterAccept os (Session_ctor os) depth net = Inl (UB ''stack overflow'')"
proof (induction depth arbitrary: net)
  case 0
  then show ?case by simp
next
  case (Suc depth)
  obtain k net1 where k: "Session_ctor os net = (k, net1)" by fastforce
  have len: "k < length (heap net1)" "m_recvBuffer (ses k net1) = RecvBuffer_ctor BUFFER_SIZE"
    using k by (auto simp: Session_ctor_def Let_def split: prod.splits)
  obtain net2 where c: "CreateSession os (Session_ctor os) net = (Some k, net2)" "heap net2 = heap net1"
    using k assms(3) by (simp add: CreateSession_def IocpCore_Register_def syscall_def)
  have "WritePos (RecvBuffer_ctor BUFFER_SIZE) = Inr 0"
    by (simp add: WritePos_def RecvBuffer_ctor_def BUFFER_SIZE_def BUFFER_COUNT_def)
  then show ?case using c len assms(1,2) Suc.IH by (simp add: syscall_def)
qed

lemma RegisterAccept_unbounded_witness:
  "RegisterAccept (\<lambda>l. case last l of sys_AcceptEx _ _ \<Rightarrow> Err 10038 | _ \<Rightarrow> Ok 1 0)
     (Session_ctor (\<lambda>l. case last l of sys_AcceptEx _ _ \<Rightarrow> Err 10038 | _ \<Rightarrow> Ok 1 0)) 1000 one_session
   = Inl (UB ''stack overflow'')"
  by (rule RegisterAccept_unbounded[where e = 10038]) (simp_all add: WSA_IO_PENDING_def)

text \<open>A connection attempt that fails with any error but a timeout of the wait or a refusal (an
  unreachable host, a timed-out handshake) is dispatched like a success: the session counts as
  connected and enters the session table.\<close>

lemma failed_connect_counts_as_connected:
  assumes "errCode \<noteq> WAIT_TIMEOUT" "errCode \<noteq> ERROR_CONNECTION_REFUSED"
    and "sid < length (heap net)" "m_connectOwner (ses sid net) = Some sid"
    and "recv_accepted os" "OnConnected hk = (\<lambda>sid net. Inr net)"
    and "rb_inv (m_recvBuffer (ses sid net))" "0 < FreeSize (m_recvBuffer (ses sid net))"
  shows "\<exists>net'. IocpCore_Dispatch os hk factory depth (GQ_fail errCode (Some (C_Connect sid))) net = Inr (True, net')
     \<and> m_connected (ses sid net') \<and> sid \<in> set (m_sessions net')"
proof -
  define net1 where "net1 = AddSession sid (upd sid (\<lambda>s. s\<lparr>m_connectOwner := None, m_connected := True\<rparr>) net)"
  have h: "heap net1 = heap (upd sid (\<lambda>s. s\<lparr>m_connectOwner := None, m_connected := True\<rparr>) net)"
    and mem: "sid \<in> set (m_sessions net1)"
    by (simp_all add: net1_def AddSession_def set_insort_key)
  have s1: "sid < length (heap net1)" "ses sid net1 = (ses sid net)\<lparr>m_connectOwner := None, m_connected := True\<rparr>"
    unfolding h using assms(3) by simp_all
  obtain w where "RegisterRecv os hk sid net1 = Inr ((upd sid (\<lambda>s. s\<lparr>m_recvOwner := Some sid\<rparr>) net1)
    \<lparr>log := log net1 @ [sys_WSARecv (m_socket (ses sid net1)) w (FreeSize (m_recvBuffer (ses sid net1)))]\<rparr>)"
    using RegisterRecv_ready[OF assms(5) s1(1), of hk] s1(2) assms(7,8) by auto
  then show ?thesis using assms(1,2,4,6) s1 mem
    by (simp add: IocpCore_Dispatch_def owned_def Session_Dispatch_def ProcessConnect_def Let_def flip: net1_def)
qed

definition connecting :: "byte list list net" where
  "connecting = upd 0 (\<lambda>s. s\<lparr>m_connected := False, m_connectOwner := Some 0\<rparr>)
     (one_session\<lparr>m_sessions := [], m_sessionCount := 0\<rparr>)"

lemma failed_connect_counts_as_connected_witness:
  "\<exists>net'. IocpCore_Dispatch (\<lambda>_. Err WSA_IO_PENDING) recorder (Session_ctor (\<lambda>_. Err 1)) 10
      (GQ_fail 1232 (Some (C_Connect 0))) connecting = Inr (True, net') \<and> m_connected (ses 0 net')"
proof -
  have "rb_inv (RecvBuffer_ctor BUFFER_SIZE)" "0 < FreeSize (RecvBuffer_ctor BUFFER_SIZE)"
    using rb_inv_ctor[of BUFFER_SIZE] by (simp_all add: BUFFER_SIZE_def BUFFER_COUNT_def RecvBuffer_ctor_def FreeSize_def)
  then show ?thesis
    using failed_connect_counts_as_connected[of 1232 0 connecting "\<lambda>_. Err WSA_IO_PENDING" recorder "Session_ctor (\<lambda>_. Err 1)" 10]
    by (auto simp: connecting_def one_session_def recorder_def recv_accepted_def WAIT_TIMEOUT_def
        ERROR_CONNECTION_REFUSED_def)
qed

end
