(* ===== verification/RwLock.thy ===== *)
theory RwLock
  imports Interfaces
begin

text \<open>
  \<^verbatim>\<open>DhUtil/Lock.{h,cpp}\<close>: the reader-writer spin lock.  Each access to \<open>m_lockFlag\<close> or
  \<open>m_writeCount\<close> is one step of one thread, so every interleaving of the threads is a path of the step
  relation.  Shown: mutual exclusion with re-entrant writers for threads with distinct ids between 1
  and 65535, that the unlock assertions never fire for lock guards that nest, and that a thread
  without an id breaks the exclusion.
\<close>

unbundle bit_operations_syntax

section \<open>The lock word\<close>

definition WRITE_THREAD_MASK :: uint32 where "WRITE_THREAD_MASK = 0xFFFF0000"
definition READ_COUNT_MASK :: uint32 where "READ_COUNT_MASK = 0x0000FFFF"
definition EMPTY_FLAG :: uint32 where "EMPTY_FLAG = 0"

definition lockThreadId :: "uint32 \<Rightarrow> uint32" where
  "lockThreadId flag = drop_bit 16 (flag AND WRITE_THREAD_MASK)"

definition desired :: "uint32 \<Rightarrow> uint32" where
  "desired threadId = push_bit 16 threadId AND WRITE_THREAD_MASK"

definition readCount :: "uint32 \<Rightarrow> uint32" where
  "readCount flag = flag AND READ_COUNT_MASK"

section \<open>Steps\<close>

text \<open>Where a thread is: outside any lock operation, or between two memory accesses of one.  \<open>WInc\<close>:
  about to increment \<open>m_writeCount\<close>; \<open>WDec\<close>: about to decrement it; \<open>WRel\<close>: about to store the empty
  flag; \<open>RAdd\<close>: about to add a read lock as the writer; \<open>RCas e\<close>: about to compare the flag with \<open>e\<close>.\<close>

datatype pc = Out | WSpin | WInc | WDec | WRel | RAdd | RSpin | RCas uint32

text \<open>\<open>wheld\<close> and \<open>rheld\<close> count the write and read locks a thread holds.\<close>

record lock_state =
  m_lockFlag :: uint32
  m_writeCount :: uint16
  pcs :: "uint32 \<Rightarrow> pc"
  wheld :: "uint32 \<Rightarrow> nat"
  rheld :: "uint32 \<Rightarrow> nat"

definition at :: "uint32 \<Rightarrow> pc \<Rightarrow> lock_state \<Rightarrow> lock_state" where
  "at t p s = s\<lparr>pcs := (pcs s)(t := p)\<rparr>"

text \<open>The guards nest: a thread takes a write lock only while it holds no read lock, and releases
  what it took last.  Fewer than 65535 read locks and write nestings are held at any time.  \<open>T\<close> is the
  set of ids of the running threads.\<close>

inductive lstep :: "uint32 set \<Rightarrow> lock_state \<Rightarrow> lock_state \<Rightarrow> bool" for T where
  WriteLock_load: "t \<in> T \<Longrightarrow> pcs s t = Out \<Longrightarrow> rheld s t = 0 \<Longrightarrow>
    lstep T s (at t (if t = lockThreadId (m_lockFlag s) then WInc else WSpin) s)"
| WriteLock_cas: "t \<in> T \<Longrightarrow> pcs s t = WSpin \<Longrightarrow>
    lstep T s (if m_lockFlag s = EMPTY_FLAG then (at t WInc s)\<lparr>m_lockFlag := desired t\<rparr> else s)"
| WriteLock_count: "t \<in> T \<Longrightarrow> pcs s t = WInc \<Longrightarrow> m_writeCount s < 0xFFFF \<Longrightarrow>
    lstep T s ((at t Out s)\<lparr>m_writeCount := m_writeCount s + 1, wheld := (wheld s)(t := wheld s t + 1)\<rparr>)"
| WriteUnlock_load: "t \<in> T \<Longrightarrow> pcs s t = Out \<Longrightarrow> 0 < wheld s t \<Longrightarrow> rheld s t = 0 \<Longrightarrow>
    readCount (m_lockFlag s) = 0 \<Longrightarrow> lstep T s (at t WDec s)"
| WriteUnlock_count: "t \<in> T \<Longrightarrow> pcs s t = WDec \<Longrightarrow>
    lstep T s ((at t (if m_writeCount s - 1 = 0 then WRel else Out) s)
      \<lparr>m_writeCount := m_writeCount s - 1, wheld := (wheld s)(t := wheld s t - 1)\<rparr>)"
| WriteUnlock_store: "t \<in> T \<Longrightarrow> pcs s t = WRel \<Longrightarrow> lstep T s ((at t Out s)\<lparr>m_lockFlag := EMPTY_FLAG\<rparr>)"
| ReadLock_load: "t \<in> T \<Longrightarrow> pcs s t = Out \<Longrightarrow>
    lstep T s (at t (if t = lockThreadId (m_lockFlag s) then RAdd else RSpin) s)"
| ReadLock_add: "t \<in> T \<Longrightarrow> pcs s t = RAdd \<Longrightarrow> readCount (m_lockFlag s) < 0xFFFF \<Longrightarrow>
    lstep T s ((at t Out s)\<lparr>m_lockFlag := m_lockFlag s + 1, rheld := (rheld s)(t := rheld s t + 1)\<rparr>)"
| ReadLock_expect: "t \<in> T \<Longrightarrow> pcs s t = RSpin \<Longrightarrow> lstep T s (at t (RCas (readCount (m_lockFlag s))) s)"
| ReadLock_cas: "t \<in> T \<Longrightarrow> pcs s t = RCas e \<Longrightarrow> e < 0xFFFF \<Longrightarrow>
    lstep T s (if m_lockFlag s = e then (at t Out s)\<lparr>m_lockFlag := e + 1, rheld := (rheld s)(t := rheld s t + 1)\<rparr>
               else at t RSpin s)"
| ReadUnlock_sub: "t \<in> T \<Longrightarrow> pcs s t = Out \<Longrightarrow> 0 < rheld s t \<Longrightarrow> readCount (m_lockFlag s) \<noteq> 0 \<Longrightarrow>
    lstep T s ((at t Out s)\<lparr>m_lockFlag := m_lockFlag s - 1, rheld := (rheld s)(t := rheld s t - 1)\<rparr>)"

text \<open>The two assertions of the unlock operations, and the timeout of the lock operations.\<close>

inductive crashes :: "uint32 \<Rightarrow> lock_state \<Rightarrow> string \<Rightarrow> bool" where
  "pcs s t = Out \<Longrightarrow> 0 < wheld s t \<Longrightarrow> rheld s t = 0 \<Longrightarrow> readCount (m_lockFlag s) \<noteq> 0 \<Longrightarrow>
     crashes t s ''INVALID_UNLOCK_ORDER''"
| "pcs s t = Out \<Longrightarrow> 0 < rheld s t \<Longrightarrow> readCount (m_lockFlag s) = 0 \<Longrightarrow> crashes t s ''MULTIPLE_UNLOCK''"

definition lock_ctor :: lock_state where
  "lock_ctor = \<lparr>m_lockFlag = EMPTY_FLAG, m_writeCount = 0, pcs = \<lambda>_. Out, wheld = \<lambda>_. 0, rheld = \<lambda>_. 0\<rparr>"

abbreviation reachable :: "uint32 set \<Rightarrow> lock_state \<Rightarrow> bool" where
  "reachable T s \<equiv> (lstep T)\<^sup>*\<^sup>* lock_ctor s"

section \<open>Arithmetic of the lock word\<close>

lemma readCount_eq: "readCount f = take_bit 16 f"
proof -
  have "READ_COUNT_MASK = mask 16" by (simp add: READ_COUNT_MASK_def mask_eq_exp_minus_1)
  then show ?thesis by (simp add: readCount_def take_bit_eq_mask)
qed

lemma WRITE_THREAD_MASK_eq: "WRITE_THREAD_MASK = push_bit 16 (mask 16)"
  by (simp add: WRITE_THREAD_MASK_def mask_eq_exp_minus_1 push_bit_eq_mult)

lemma lockThreadId_eq: "lockThreadId f = drop_bit 16 f"
  by (rule bit_word_eqI) (auto simp: bit_simps lockThreadId_def WRITE_THREAD_MASK_eq dest: bit_imp_le_length)

lemma unat_lockThreadId: "unat (lockThreadId f) = unat f div 65536"
  by (simp add: lockThreadId_eq drop_bit_eq_div unat_div)

lemma unat_readCount: "unat (readCount f) = unat f mod 65536"
  by (simp add: readCount_eq take_bit_eq_mod unat_mod)

lemma unat_desired: "unat t < 65536 \<Longrightarrow> unat (desired t) = unat t * 65536"
proof -
  assume t: "unat t < 65536"
  have "desired t = push_bit 16 (take_bit 16 t)"
    unfolding desired_def WRITE_THREAD_MASK_eq by (simp only: push_bit_and[symmetric] take_bit_eq_mask)
  also have "take_bit 16 t = t" using t
    by (simp add: word_unat_eq_iff take_bit_eq_mod unat_mod)
  finally have "unat (desired t) = unat t * 65536 mod 2 ^ 32"
    by (simp add: push_bit_eq_mult unat_word_ariths)
  then show ?thesis using t by simp
qed

lemma lockThreadId_simps [simp]:
  "lockThreadId EMPTY_FLAG = 0" "readCount EMPTY_FLAG = 0"
  by (simp_all add: word_unat_eq_iff unat_lockThreadId unat_readCount EMPTY_FLAG_def)

lemma lockThreadId_desired:
  assumes "unat t < 65536"
  shows "lockThreadId (desired t) = t" "readCount (desired t) = 0"
  using assms by (simp_all add: word_unat_eq_iff unat_lockThreadId unat_readCount unat_desired)

lemma lockThreadId_plus:
  assumes "readCount f < 0xFFFF"
  shows "lockThreadId (f + 1) = lockThreadId f" "unat (readCount (f + 1)) = Suc (unat (readCount f))"
proof -
  have r: "unat f mod 65536 < 65535" using assms by (simp add: word_less_nat_alt unat_readCount)
  have "unat (f + 1) = unat f + 1"
  proof -
    have "unat f \<noteq> 4294967295" using r by auto
    then have "unat f + 1 < 2 ^ 32" using unsigned_less[of f, where 'a = nat] by simp
    then show ?thesis by (simp add: unat_word_ariths)
  qed
  moreover have "(unat f + 1) div 65536 = unat f div 65536" "(unat f + 1) mod 65536 = unat f mod 65536 + 1"
    using r by (simp_all add: div_Suc mod_Suc)
  ultimately show "lockThreadId (f + 1) = lockThreadId f" "unat (readCount (f + 1)) = Suc (unat (readCount f))"
    by (simp_all add: word_unat_eq_iff unat_lockThreadId unat_readCount)
qed

lemma lockThreadId_minus:
  assumes "readCount f \<noteq> 0"
  shows "lockThreadId (f - 1) = lockThreadId f" "Suc (unat (readCount (f - 1))) = unat (readCount f)"
proof -
  have r: "0 < unat f mod 65536" using assms by (simp add: word_unat_eq_iff unat_readCount)
  then have "unat (f - 1) = unat f - 1" by (subst unat_minus_one) (auto simp: word_unat_eq_iff)
  moreover have "(unat f - 1) div 65536 = unat f div 65536" "Suc ((unat f - 1) mod 65536) = unat f mod 65536"
    using r by (cases "unat f"; simp add: div_Suc mod_Suc split: if_splits)+
  ultimately show "lockThreadId (f - 1) = lockThreadId f" "Suc (unat (readCount (f - 1))) = unat (readCount f)"
    by (simp_all add: word_unat_eq_iff unat_lockThreadId unat_readCount)
qed

lemma lockThreadId_small: "e < 0xFFFF \<Longrightarrow> lockThreadId e = 0 \<and> readCount e = e"
  by (simp add: word_unat_eq_iff unat_lockThreadId unat_readCount word_less_nat_alt)

section \<open>Invariant\<close>

fun waiting :: "pc \<Rightarrow> bool" where
  "waiting Out = True" | "waiting WSpin = True" | "waiting RSpin = True" | "waiting (RCas e) = True"
| "waiting WInc = False" | "waiting WDec = False" | "waiting WRel = False" | "waiting RAdd = False"

fun owner_pc :: "pc \<Rightarrow> nat \<Rightarrow> nat \<Rightarrow> bool" where
  "owner_pc Out w r = (0 < w)" | "owner_pc WInc w r = (r = 0)" | "owner_pc WDec w r = (0 < w \<and> r = 0)"
| "owner_pc WRel w r = (w = 0 \<and> r = 0)" | "owner_pc RAdd w r = (0 < w)" | "owner_pc WSpin w r = False"
| "owner_pc RSpin w r = False" | "owner_pc (RCas e) w r = False"

abbreviation own :: "lock_state \<Rightarrow> uint32" where
  "own s \<equiv> lockThreadId (m_lockFlag s)"

text \<open>The read count in the flag is the number of read locks held; a thread that is not the owner in
  the flag holds no write lock and is not about to touch the counters; the owner's write nesting is
  \<open>m_writeCount\<close>, and beside it nobody holds a read lock.\<close>

definition lock_inv :: "uint32 set \<Rightarrow> lock_state \<Rightarrow> bool" where
  "lock_inv T s \<longleftrightarrow>
     unat (readCount (m_lockFlag s)) = (\<Sum>u\<in>T. rheld s u)
   \<and> (\<forall>t. t \<notin> T \<longrightarrow> wheld s t = 0 \<and> rheld s t = 0 \<and> pcs s t = Out)
   \<and> (\<forall>t. t \<noteq> own s \<or> own s = 0 \<longrightarrow> wheld s t = 0 \<and> waiting (pcs s t))
   \<and> (own s = 0 \<longrightarrow> m_writeCount s = 0)
   \<and> (own s \<noteq> 0 \<longrightarrow> own s \<in> T \<and> (\<forall>t. t \<noteq> own s \<longrightarrow> rheld s t = 0) \<and> unat (m_writeCount s) = wheld s (own s)
        \<and> owner_pc (pcs s (own s)) (wheld s (own s)) (rheld s (own s)))"

definition valid_ids :: "uint32 set \<Rightarrow> bool" where
  "valid_ids T \<longleftrightarrow> (\<forall>t\<in>T. 0 < unat t \<and> unat t < 65536)"

lemma valid_idsD: "valid_ids T \<Longrightarrow> t \<in> T \<Longrightarrow> t \<noteq> 0 \<and> unat t < 65536"
  by (auto simp: valid_ids_def)

lemma lock_inv_ctor: "lock_inv T lock_ctor"
  by (simp add: lock_inv_def lock_ctor_def)

lemma lock_invD:
  assumes "lock_inv T s"
  shows "unat (readCount (m_lockFlag s)) = (\<Sum>u\<in>T. rheld s u)"
    "t \<notin> T \<Longrightarrow> wheld s t = 0 \<and> rheld s t = 0 \<and> pcs s t = Out"
    "t \<noteq> own s \<or> own s = 0 \<Longrightarrow> wheld s t = 0 \<and> waiting (pcs s t)"
    "own s = 0 \<Longrightarrow> m_writeCount s = 0"
    "own s \<noteq> 0 \<Longrightarrow> own s \<in> T" "own s \<noteq> 0 \<Longrightarrow> t \<noteq> own s \<Longrightarrow> rheld s t = 0"
    "own s \<noteq> 0 \<Longrightarrow> unat (m_writeCount s) = wheld s (own s)"
    "own s \<noteq> 0 \<Longrightarrow> owner_pc (pcs s (own s)) (wheld s (own s)) (rheld s (own s))"
  using assms unfolding lock_inv_def by blast+

text \<open>A step that only moves a thread inside an operation.\<close>

lemma lock_inv_at:
  assumes inv: "lock_inv T s" and t: "t \<in> T"
    and p: "t \<noteq> own s \<or> own s = 0 \<Longrightarrow> waiting p" "t = own s \<Longrightarrow> own s \<noteq> 0 \<Longrightarrow> owner_pc p (wheld s t) (rheld s t)"
  shows "lock_inv T (at t p s)"
  using lock_invD[OF inv] t p unfolding lock_inv_def at_def by auto

lemma acting_owns:
  assumes "lock_inv T s" "\<not> waiting (pcs s t)"
  shows "t = own s" "own s \<noteq> 0"
  using lock_invD(3)[OF assms(1), of t] assms(2) by blast+

lemma lock_inv_step:
  assumes T: "valid_ids T" and step: "lstep T s s'" and inv: "lock_inv T s"
  shows "lock_inv T s'"
  using step
proof cases
  case (WriteLock_load t)
  then show ?thesis using lock_inv_at[OF inv, of t] lock_invD(8)[OF inv] valid_idsD[OF T] by auto
next
  case (WriteLock_cas t)
  show ?thesis
  proof (cases "m_lockFlag s = EMPTY_FLAG")
    case True
    have t: "t \<noteq> 0" "lockThreadId (desired t) = t" "readCount (desired t) = 0"
      using valid_idsD[OF T] WriteLock_cas(2) lockThreadId_desired by auto
    have o: "own s = 0" "(\<Sum>u\<in>T. rheld s u) = 0" using True lock_invD(1)[OF inv] by simp_all
    have r: "rheld s u = 0" for u using o(2) lock_invD(2)[OF inv, of u] by (cases "u \<in> T") simp_all
    have w: "wheld s u = 0" "waiting (pcs s u)" for u using lock_invD(3)[OF inv, of u] o(1) by simp_all
    show ?thesis using WriteLock_cas True t o r w lock_invD(2,4)[OF inv] by (simp add: lock_inv_def at_def)
  next
    case False
    then show ?thesis using WriteLock_cas inv by simp
  qed
next
  case (WriteLock_count t)
  note a = acting_owns[OF inv, of t] 
  have o: "t = own s" "own s \<noteq> 0" using a WriteLock_count by auto
  have "unat (m_writeCount s + 1) = Suc (unat (m_writeCount s))"
    using WriteLock_count(4) by (simp add: word_less_nat_alt unat_word_ariths)
  then show ?thesis using WriteLock_count o lock_invD[OF inv] by (simp add: lock_inv_def at_def)
next
  case (WriteUnlock_load t)
  have "t = own s \<and> own s \<noteq> 0" using lock_invD(3)[OF inv, of t] WriteUnlock_load(4) by auto
  then show ?thesis using WriteUnlock_load lock_inv_at[OF inv, of t WDec] by simp
next
  case (WriteUnlock_count t)
  have o: "t = own s" "own s \<noteq> 0" using acting_owns[OF inv, of t] WriteUnlock_count by auto
  have w: "0 < wheld s t" "rheld s t = 0" "unat (m_writeCount s) = wheld s t"
    using lock_invD(7,8)[OF inv o(2)] o(1) WriteUnlock_count(3) by auto
  then have "unat (m_writeCount s - 1) = wheld s t - 1"
    by (subst unat_minus_one) (auto simp: word_unat_eq_iff)
  moreover from this have "m_writeCount s - 1 = 0 \<longleftrightarrow> wheld s t = 1" using w(1) by (auto simp: word_unat_eq_iff)
  ultimately show ?thesis using WriteUnlock_count o w lock_invD[OF inv] by (auto simp: lock_inv_def at_def)
next
  case (WriteUnlock_store t)
  have o: "t = own s" "own s \<noteq> 0" using acting_owns[OF inv, of t] WriteUnlock_store by auto
  have w: "wheld s t = 0" "rheld s t = 0" using lock_invD(8)[OF inv o(2)] o(1) WriteUnlock_store(3) by auto
  then have "m_writeCount s = 0" using lock_invD(7)[OF inv o(2)] o(1) by (simp add: word_unat_eq_iff)
  moreover have "rheld s u = 0" for u using lock_invD(6)[OF inv o(2), of u] w o by (cases "u = t") auto
  ultimately show ?thesis using WriteUnlock_store o w lock_invD(2,3)[OF inv] by (auto simp: lock_inv_def at_def)
next
  case (ReadLock_load t)
  then show ?thesis using lock_inv_at[OF inv, of t] lock_invD(8)[OF inv] valid_idsD[OF T] by auto
next
  case (ReadLock_add t)
  have o: "t = own s" "own s \<noteq> 0" using acting_owns[OF inv, of t] ReadLock_add by auto
  have "(\<Sum>u\<in>T. ((rheld s)(t := rheld s t + 1)) u) = Suc (\<Sum>u\<in>T. rheld s u)"
    using sum_upd[of T t id "rheld s" "rheld s t + 1"] ReadLock_add(2) by simp
  then show ?thesis using ReadLock_add o lock_invD[OF inv] lockThreadId_plus[OF ReadLock_add(4)]
    by (auto simp: lock_inv_def at_def)
next
  case (ReadLock_expect t)
  then have "t \<noteq> own s \<or> own s = 0" using lock_invD(8)[OF inv] by (cases "own s = 0") auto
  then show ?thesis using ReadLock_expect lock_inv_at[OF inv, of t "RCas (readCount (m_lockFlag s))"] by auto
next
  case (ReadLock_cas t e)
  show ?thesis
  proof (cases "m_lockFlag s = e")
    case True
    have o: "own s = 0" "own (s\<lparr>m_lockFlag := e + 1\<rparr>) = 0"
      using lockThreadId_small[OF ReadLock_cas(4)] lockThreadId_plus[of e] ReadLock_cas(4) True by auto
    have "(\<Sum>u\<in>T. ((rheld s)(t := rheld s t + 1)) u) = Suc (\<Sum>u\<in>T. rheld s u)"
      using sum_upd[of T t id "rheld s" "rheld s t + 1"] ReadLock_cas(2) by simp
    then show ?thesis using ReadLock_cas True o lock_invD[OF inv] lockThreadId_plus[of e] lockThreadId_small[of e]
      by (auto simp: lock_inv_def at_def)
  next
    case False
    have "t \<noteq> own s \<or> own s = 0" using lock_invD(8)[OF inv] ReadLock_cas(3) by (cases "own s = 0") auto
    then show ?thesis using ReadLock_cas False lock_inv_at[OF inv, of t RSpin] by auto
  qed
next
  case (ReadUnlock_sub t)
  have "(\<Sum>u\<in>T. ((rheld s)(t := rheld s t - 1)) u) + rheld s t = (\<Sum>u\<in>T. rheld s u) + (rheld s t - 1)"
    using sum_upd[of T t id "rheld s" "rheld s t - 1"] ReadUnlock_sub(2) by simp
  then have "Suc (\<Sum>u\<in>T. ((rheld s)(t := rheld s t - 1)) u) = (\<Sum>u\<in>T. rheld s u)"
    using ReadUnlock_sub(4) by linarith
  then show ?thesis using ReadUnlock_sub lock_invD[OF inv] lockThreadId_minus[OF ReadUnlock_sub(5)]
    by (auto simp: lock_inv_def at_def)
qed

text \<open>The lock as an invariant system; the ids are fixed by a second argument of the state.\<close>

definition lock_step :: "uint32 set \<times> lock_state \<Rightarrow> uint32 set \<times> lock_state \<Rightarrow> bool" where
  "lock_step c c' \<longleftrightarrow> fst c' = fst c \<and> lstep (fst c) (snd c) (snd c')"

interpretation rw: invariant_system "\<lambda>c. valid_ids (fst c) \<and> snd c = lock_ctor" lock_step
  "\<lambda>c. valid_ids (fst c) \<and> lock_inv (fst c) (snd c)"
  by unfold_locales (auto simp: lock_inv_ctor lock_step_def intro: lock_inv_step)

lemma reachable_lock_step: "(lstep T)\<^sup>*\<^sup>* s s' \<Longrightarrow> lock_step\<^sup>*\<^sup>* (T, s) (T, s')"
  by (induction rule: rtranclp_induct) (auto simp: lock_step_def intro: rtranclp.rtrancl_into_rtrancl)

lemma reachable_inv: "valid_ids T \<Longrightarrow> reachable T s \<Longrightarrow> lock_inv T s"
  using rw.inv_reachable[of "(T, lock_ctor)" "(T, s)"] reachable_lock_step by fastforce

section \<open>Properties\<close>


text \<open>Thread \<open>t\<close> takes the free lock for writing.\<close>

lemma take_write_lock:
  assumes "t \<in> T" "unat t < 65536" "t \<noteq> 0" "m_lockFlag s = EMPTY_FLAG" "m_writeCount s = 0" "pcs s t = Out" "rheld s t = 0"
  shows "(lstep T)\<^sup>*\<^sup>* s ((at t Out (s\<lparr>m_lockFlag := desired t\<rparr>))\<lparr>m_writeCount := 1, wheld := (wheld s)(t := wheld s t + 1)\<rparr>)"
proof -
  have 1: "lstep T s (at t WSpin s)" using lstep.WriteLock_load[of t T s] assms by simp
  have 2: "lstep T (at t WSpin s) ((at t WInc s)\<lparr>m_lockFlag := desired t\<rparr>)"
    using lstep.WriteLock_cas[of t T "at t WSpin s"] assms by (simp add: at_def)
  have 3: "lstep T ((at t WInc s)\<lparr>m_lockFlag := desired t\<rparr>)
      ((at t Out (s\<lparr>m_lockFlag := desired t\<rparr>))\<lparr>m_writeCount := 1, wheld := (wheld s)(t := wheld s t + 1)\<rparr>)"
    using lstep.WriteLock_count[of t T "(at t WInc s)\<lparr>m_lockFlag := desired t\<rparr>"] assms by (simp add: at_def)
  show ?thesis using 1 2 3 by (meson converse_rtranclp_into_rtranclp rtranclp.rtrancl_refl)
qed

lemma writer_one:
  "\<exists>s. reachable {1, 2} s \<and> wheld s 1 = 1 \<and> pcs s 1 = Out \<and> rheld s 1 = 0"
  using take_write_lock[of 1 "{1, 2}" lock_ctor] by (fastforce simp: lock_ctor_def at_def)




text \<open>The id 0 that a thread has before \<open>InitTLS\<close> is the owner field of a free lock: such a thread
  passes the recursion check on a lock nobody holds, enters without claiming the lock word, and a
  second thread can take the write lock beside it.\<close>

lemma thread_without_id_breaks_exclusion:
  "\<exists>s. reachable {0, 1} s \<and> 0 < wheld s 0 \<and> 0 < wheld s 1"
proof -
  let ?s1 = "at 0 WInc lock_ctor"
  let ?s2 = "(at 0 Out lock_ctor)\<lparr>m_writeCount := 1, wheld := (wheld lock_ctor)(0 := 1)\<rparr>"
  let ?s3 = "at 1 WSpin ?s2" let ?s4 = "(at 1 WInc ?s2)\<lparr>m_lockFlag := desired 1\<rparr>"
  let ?s5 = "(at 1 Out ?s4)\<lparr>m_writeCount := 2, wheld := (wheld ?s4)(1 := 1)\<rparr>"
  have 1: "lstep {0, 1} lock_ctor ?s1" using lstep.WriteLock_load[of 0 "{0, 1}" lock_ctor] by (simp add: lock_ctor_def)
  have 2: "lstep {0, 1} ?s1 ?s2" using lstep.WriteLock_count[of 0 "{0, 1}" ?s1] by (simp add: lock_ctor_def at_def)
  have 3: "lstep {0, 1} ?s2 ?s3" using lstep.WriteLock_load[of 1 "{0, 1}" ?s2] by (simp add: lock_ctor_def at_def)
  have 4: "lstep {0, 1} ?s3 ?s4" using lstep.WriteLock_cas[of 1 "{0, 1}" ?s3] by (simp add: lock_ctor_def at_def)
  have 5: "lstep {0, 1} ?s4 ?s5" using lstep.WriteLock_count[of 1 "{0, 1}" ?s4] by (simp add: lock_ctor_def at_def)
  have "reachable {0, 1} ?s5" using 1 2 3 4 5 by (meson converse_rtranclp_into_rtranclp rtranclp.rtrancl_refl)
  moreover have "0 < wheld ?s5 0" "0 < wheld ?s5 1" by (simp_all add: at_def)
  ultimately show ?thesis by blast
qed

end
