(* ===== verification/Startup.thy ===== *)
theory Startup
  imports Setting Admin Client Service RwLock
begin

text \<open>
  Bringing the server up: \<^verbatim>\<open>GameServer::AddSetting\<close>, \<^verbatim>\<open>AddSystem\<close> and \<^verbatim>\<open>StartServer\<close>, and \<^verbatim>\<open>main\<close>.  The parameters are
  the environment, the database library, the operating system, the number of processors, whether the
  administration service gets its port, and the conversion of a dotted address, which may fail.
\<close>

section \<open>NetAddress\<close>

text \<open>The result of the conversion is not looked at; after a failure the address is never written.\<close>

definition NetAddress_ctor :: "(string \<Rightarrow> uint32 option) \<Rightarrow> string \<Rightarrow> uint16 \<Rightarrow> SOCKADDR_IN outcome" where
  "NetAddress_ctor pton ip port = (case pton ip of Some a \<Rightarrow> Inr (a, port) | None \<Rightarrow> Inl (UB ''uninitialised address''))"

section \<open>GameServer\<close>

text \<open>\<^verbatim>\<open>ServerGlobal\<close> constructs the thread manager before \<^verbatim>\<open>main\<close> runs, and the main thread takes the first id there; what is left is the
  counter.\<close>

definition ThreadManager_ctor :: "uint32 \<times> uint32" where
  "ThreadManager_ctor = InitTLS 1"

record 'k GameServer =
  g_ip :: string
  g_port :: uint16
  g_maxSessionCount :: int
  g_setting :: "ServerSetting option"
  g_packets :: "server_handler handlers"
  g_systems :: "'k server option"
  g_service :: "'k server net option"
  g_host :: GrpcHost
  g_mainThread :: uint32
  g_threads :: "uint32 list"

definition GameServer0 :: "'k GameServer" where
  "GameServer0 = \<lparr>g_ip = [], g_port = 0, g_maxSessionCount = 0, g_setting = None, g_packets = [], g_systems = None,
     g_service = None, g_host = GrpcHost0, g_mainThread = fst ThreadManager_ctor,
     g_threads = []\<rparr>"

definition AddSetting :: "ServerSetting \<Rightarrow> 'k GameServer \<Rightarrow> 'k GameServer" where
  "AddSetting setting g = g\<lparr>g_setting := Some setting, g_ip := ss_ip setting, g_port := ss_port setting,
     g_maxSessionCount := ss_maxSessionCount setting\<rparr>"

text \<open>The systems start empty; only the database system does work.\<close>

definition AddSystem :: "mysql \<Rightarrow> 'k GameServer \<Rightarrow> 'k GameServer" where
  "AddSystem db g = g\<lparr>g_systems := Some \<lparr>sv_world = world0,
     sv_db = Some (case g_setting g of Some setting \<Rightarrow> snd (DbSystem_Init db (ss_dbPoolSize setting) DbSystem0) | None \<Rightarrow> DbSystem0),
     sv_crypt = (\<lambda>_. crypt0), sv_wire = []\<rparr>\<rparr>"

definition ServerService_ctor :: "SOCKADDR_IN \<Rightarrow> int \<Rightarrow> 'app \<Rightarrow> 'app net" where
  "ServerService_ctor netAddress maxSessionCount a = \<lparr>heap = [], m_sessions = [], m_sessionCount = 0,
     m_maxSessionCount = maxSessionCount, m_isServerService = True, m_serviceAddress = netAddress,
     m_listenSocket = INVALID_SOCKET, m_acceptSession = None, pool = SendPool_ctor, log = [], app = a\<rparr>"

text \<open>Every database worker and every launched thread draws its id when it starts; which of them draws which is up to the
  scheduler, the ids drawn are the list.\<close>

definition StartServer :: "mysql \<Rightarrow> (string \<Rightarrow> uint32 option) \<Rightarrow> os \<Rightarrow> 'k server factory \<Rightarrow> nat \<Rightarrow> byte list option \<Rightarrow> bool \<Rightarrow> nat \<Rightarrow>
    'k GameServer \<Rightarrow> 'k GameServer outcome" where
  "StartServer db pton os factory depth fresh listening hardware_concurrency g =
     (let g = g\<lparr>g_packets := RegisterPacket\<rparr>; g = AddSystem db g in
      bindR (NetAddress_ctor pton (g_ip g) (g_port g)) (\<lambda>netAddress.
      bindR (ServerService_Start os factory depth fresh
               (ServerService_ctor netAddress (g_maxSessionCount g) (the (g_systems g)))) (\<lambda>(ok, net).
      ASSERT_CRASH ok (
        let g = g\<lparr>g_service := Some net\<rparr> in
        if g_setting g = None then Inl (UB ''null setting'')
        else bindR (GrpcHost_Start listening (g_host g)) (\<lambda>(_, h).
          let dbThreads = nat (db_threads (the (sv_db (the (g_systems g))))) in
          Inr (g\<lparr>g_host := h, g_threads := launch_ids (dbThreads + hardware_concurrency) (snd ThreadManager_ctor)\<rparr>))))))"

definition main :: "env_call \<Rightarrow> mysql \<Rightarrow> (string \<Rightarrow> uint32 option) \<Rightarrow> os \<Rightarrow> 'k server factory \<Rightarrow> nat \<Rightarrow> byte list option \<Rightarrow> bool \<Rightarrow> nat \<Rightarrow>
    'k GameServer outcome" where
  "main api db pton os factory depth fresh listening hardware_concurrency =
     bindR (ServerSetting_ctor api) (\<lambda>setting.
       StartServer db pton os factory depth fresh listening hardware_concurrency (AddSetting setting GameServer0))"

section \<open>Thread ids\<close>

lemma launch_ids_eq: "launch_ids n c = map (\<lambda>i. c + of_nat i) [0..<n]"
proof (induction n arbitrary: c)
  case (Suc n)
  then show ?case by (simp add: InitTLS_def upt_conv_Cons map_Suc_upt[symmetric] comp_def add.assoc add.commute del: upt_Suc)
qed simp

text \<open>The ids of the main thread and of the threads started later are what the lock relies on.\<close>

lemma launch_ids_valid:
  assumes "n < 65535"
  shows "valid_ids (set (fst ThreadManager_ctor # launch_ids n (snd ThreadManager_ctor)))"
    "distinct (fst ThreadManager_ctor # launch_ids n (snd ThreadManager_ctor))"
proof -
  have e: "fst ThreadManager_ctor # launch_ids n (snd ThreadManager_ctor) = launch_ids (Suc n) 1"
    by (simp add: ThreadManager_ctor_def InitTLS_def)
  have u: "unat (1 + of_nat i :: uint32) = i + 1" if "i < Suc n" for i
    using that assms by (simp add: unat_word_ariths unat_of_nat take_bit_nat_eq_self)
  show "valid_ids (set (fst ThreadManager_ctor # launch_ids n (snd ThreadManager_ctor)))"
    using assms u unfolding e by (auto simp: launch_ids_eq valid_ids_def simp del: launch_ids.simps upt_Suc)
  have "inj_on (\<lambda>i. 1 + of_nat i :: uint32) {0..<Suc n}" by (rule inj_onI) (metis u add_right_cancel atLeastLessThan_iff)
  then show "distinct (fst ThreadManager_ctor # launch_ids n (snd ThreadManager_ctor))"
    unfolding e by (simp add: launch_ids_eq distinct_map del: launch_ids.simps upt_Suc)
qed

section \<open>A started server\<close>

lemma main_started:
  assumes "main api db pton os factory depth fresh listening n = Inr g"
  obtains setting a net where "ServerSetting_ctor api = Inr setting" "pton (ss_ip setting) = Some a"
    "g_systems g = Some \<lparr>sv_world = world0, sv_db = Some (snd (DbSystem_Init db (ss_dbPoolSize setting) DbSystem0)),
       sv_crypt = (\<lambda>_. crypt0), sv_wire = []\<rparr>"
    "g_service g = Some net" "g_packets g = RegisterPacket" "g_mainThread g = fst ThreadManager_ctor"
    "g_threads g = launch_ids (nat (db_threads (the (sv_db (the (g_systems g))))) + n) (snd ThreadManager_ctor)"
    "m_running (g_host g) = listening" "g_port g = ss_port setting"
    "ServerService_Start os factory depth fresh (ServerService_ctor (a, ss_port setting) (ss_maxSessionCount setting) (the (g_systems g)))
       = Inr (True, net)"
proof -
  obtain setting where s: "ServerSetting_ctor api = Inr setting"
    "StartServer db pton os factory depth fresh listening n (AddSetting setting GameServer0) = Inr g"
    using assms by (auto simp: main_def bindR_def split: sum.splits)
  then show thesis using that
    by (auto simp: StartServer_def AddSystem_def AddSetting_def NetAddress_ctor_def GameServer0_def GrpcHost_Start_def GrpcHost0_def
        ASSERT_CRASH_def bindR_def Let_def split: sum.splits option.splits if_splits)
qed

section \<open>The client\<close>

definition SERVER_PORT :: uint16 where "SERVER_PORT = 7900"

definition ServerSession0 :: "'k client" where
  "ServerSession0 = \<lparr>cl_playerId = 0, cl_playerName = [], cl_crypt = crypt0, g_inRoom = False, cl_out = [], cl_wire = [],
     cl_open = True, cl_calls = 0\<rparr>"

definition ClientService_ctor :: "SOCKADDR_IN \<Rightarrow> int \<Rightarrow> SendPool \<Rightarrow> 'app \<Rightarrow> 'app net" where
  "ClientService_ctor netAddress maxSessionCount p a = \<lparr>heap = [], m_sessions = [], m_sessionCount = 0,
     m_maxSessionCount = maxSessionCount, m_isServerService = False, m_serviceAddress = netAddress,
     m_listenSocket = INVALID_SOCKET, m_acceptSession = None, pool = p, log = [], app = a\<rparr>"

text \<open>Up to the loop whose turn is \<open>main_tick\<close>; the result is the service, the handlers and the ids of
  the ten dispatch threads.\<close>

definition client_main :: "(string \<Rightarrow> uint32 option) \<Rightarrow> os \<Rightarrow> 'k client factory \<Rightarrow> byte list option \<Rightarrow>
    ('k client net \<times> (byte list \<Rightarrow> 'k client \<Rightarrow> (bool \<times> 'k client) outcome) handlers \<times> uint32 list) outcome" where
  "client_main pton os factory fresh =
     bindR (Sender_Init 1024 fresh SendPool_ctor) (\<lambda>p.
     bindR (NetAddress_ctor pton ''127.0.0.1'' SERVER_PORT) (\<lambda>netAddress.
     bindR (ClientService_Start os factory (ClientService_ctor netAddress 1 p ServerSession0)) (\<lambda>(ok, clientService).
       ASSERT_CRASH ok (Inr (clientService, client_table, launch_ids 10 (snd ThreadManager_ctor))))))"

lemma client_main_threads:
  assumes "client_main pton os factory fresh = Inr (net, table, ts)"
  shows "length ts = 10" "valid_ids (set (fst ThreadManager_ctor # ts))" "distinct (fst ThreadManager_ctor # ts)"
proof -
  have ts: "ts = launch_ids 10 (snd ThreadManager_ctor)"
    using assms by (auto simp: client_main_def bindR_def ASSERT_CRASH_def split: sum.splits if_splits)
  show "length ts = 10" unfolding ts launch_ids_eq by simp
  show "valid_ids (set (fst ThreadManager_ctor # ts))" "distinct (fst ThreadManager_ctor # ts)"
    unfolding ts using launch_ids_valid[of 10] by simp_all
qed

end
