(* ===== verification/Teardown.thy ===== *)
theory Teardown
  imports Startup WorldTypes
begin

text \<open>
  The end of the process: the destructor of the static \<^verbatim>\<open>GameServer\<close> and of its systems, in the order the
  language prescribes, and the generator of ids, which nothing uses.  Members are destroyed in the reverse order of
  their declaration, so the player, room, lobby and database systems are gone when the session system goes.
\<close>

section \<open>Unique ids\<close>

definition UniqueIdGenerationSystem_ctor :: uint64 where
  "UniqueIdGenerationSystem_ctor = 0"

definition GenerateUniqueId :: "uint64 \<Rightarrow> uint64 \<times> uint64" where
  "GenerateUniqueId idGenerator = (idGenerator, idGenerator + 1)"

fun generate_ids :: "nat \<Rightarrow> uint64 \<Rightarrow> uint64 list" where
  "generate_ids 0 g = []"
| "generate_ids (Suc n) g = (let (i, g') = GenerateUniqueId g in i # generate_ids n g')"

lemma generate_ids_eq: "generate_ids n g = map (\<lambda>i. g + of_nat i) [0..<n]"
proof (induction n arbitrary: g)
  case (Suc n)
  then show ?case by (simp add: GenerateUniqueId_def upt_conv_Cons map_Suc_upt[symmetric] comp_def add.assoc add.commute del: upt_Suc)
qed simp

text \<open>No id repeats before all of them have been handed out.\<close>

lemma generate_ids_distinct:
  assumes "n \<le> 2 ^ 64"
  shows "distinct (generate_ids n UniqueIdGenerationSystem_ctor)"
proof -
  have "unat (of_nat i :: uint64) = i" if "i < n" for i using that assms by (simp add: unat_of_nat take_bit_nat_eq_self)
  then have "inj_on (\<lambda>i. of_nat i :: uint64) {0..<n}" by (metis atLeastLessThan_iff inj_onI)
  then show ?thesis by (simp add: generate_ids_eq distinct_map UniqueIdGenerationSystem_ctor_def)
qed

section \<open>Destructors\<close>

definition PlayerSystem_dtor :: "world \<Rightarrow> world" where
  "PlayerSystem_dtor w = w\<lparr>online := []\<rparr>"

text \<open>\<^verbatim>\<open>Disconnect\<close> on a connected session calls \<^verbatim>\<open>OnDisconnected\<close>: for a session with a player it goes through the player system,
  which no longer exists; for any session it erases the element the loop's iterator stands on.\<close>

fun disconnect_loop :: "nat list \<Rightarrow> world \<Rightarrow> world outcome" where
  "disconnect_loop [] w = Inr w"
| "disconnect_loop (s # ss) w =
     (if \<not> world.connected w s then disconnect_loop ss w
      else case player_of w s of
        Some p \<Rightarrow> Inl (UB ''PlayerSystem after its destruction'')
      | None \<Rightarrow> Inl (UB ''iterator to an erased element''))"

definition GameSessionSystem_dtor :: "world \<Rightarrow> world outcome" where
  "GameSessionSystem_dtor w = bindR (disconnect_loop (game_sessions w) w) (\<lambda>w. Inr (w\<lparr>game_sessions := []\<rparr>))"

definition DbSystem_dtor :: "('task \<Rightarrow> 'task DbSystem \<Rightarrow> 'r \<times> 'task DbSystem) \<Rightarrow> 'task DbSystem \<Rightarrow> 'r list \<times> 'task DbSystem" where
  "DbSystem_dtor task d = (if db_running d then DbSystem_Shutdown task d else ([], d))"

text \<open>The body shuts the database system down; then the members go, the database system first.  What the login tasks do to
  the world happens while the workers are joined.\<close>

definition GameServer_dtor :: "'k openssl \<Rightarrow> mysql \<Rightarrow> 'k GameServer \<Rightarrow> 'k GameServer outcome" where
  "GameServer_dtor ssl db g = (case g_systems g of
     None \<Rightarrow> Inr g
   | Some sv \<Rightarrow>
       let w = (case sv_db sv of
           None \<Rightarrow> sv_world sv
         | Some d \<Rightarrow>
             let (fs, d) = DbSystem_Shutdown (login_task ssl db) d;
                 (fs', d) = DbSystem_dtor (login_task ssl db) d
             in fold (\<lambda>f. f) (fs @ fs') (sv_world sv))
       in bindR (GameSessionSystem_dtor (PlayerSystem_dtor w)) (\<lambda>_. Inr (g\<lparr>g_systems := None, g_service := None\<rparr>)))"

section \<open>When the destructors are harmless\<close>

lemma disconnect_loop_ok: "(\<exists>w'. disconnect_loop ss w = Inr w') \<longleftrightarrow> (\<forall>s \<in> set ss. \<not> world.connected w s)"
  by (induction ss) (auto split: option.split)

lemma disconnect_loop_fault: "\<exists>s \<in> set ss. world.connected w s \<Longrightarrow> \<exists>why. disconnect_loop ss w = Inl (UB why)"
  by (induction ss) (auto split: option.split)

definition login_results :: "(world \<Rightarrow> world) list \<Rightarrow> bool" where
  "login_results fs \<longleftrightarrow> (\<forall>f \<in> set fs. \<exists>ok i n s. f = OnLoginResult ok i n s)"

lemma login_results_drain: "drain (login_task ssl db) ts d = (fs, d') \<Longrightarrow> login_results fs \<and> db_running d' = db_running d"
proof (induction ts arbitrary: d fs)
  case (Cons t ts)
  obtain f d1 where f: "login_task ssl db t d = (f, d1)" by fastforce
  obtain gs where gs: "drain (login_task ssl db) ts d1 = (gs, d')" "fs = f # gs" using Cons.prems f by (auto split: prod.splits)
  have "\<exists>ok i n s. f = OnLoginResult ok i n s" "db_running d1 = db_running d"
    using f by (auto simp: login_task_def Let_def split: prod.splits option.splits)
  then show ?case using Cons.IH[OF gs(1)] gs(2) by (auto simp: login_results_def)
qed (simp add: login_results_def)

lemma login_results_reachable: "login_results fs \<Longrightarrow> wstep\<^sup>*\<^sup>* world0 w \<Longrightarrow> wstep\<^sup>*\<^sup>* world0 (fold (\<lambda>f. f) fs w)"
proof (induction fs arbitrary: w)
  case (Cons f fs)
  then have "wstep w (f w)" by (auto simp: login_results_def intro: wstep.login)
  then have "wstep\<^sup>*\<^sup>* world0 (f w)" using Cons.prems(2) by simp
  then show ?case using Cons.IH Cons.prems(1) by (simp add: login_results_def)
qed simp

lemma DbSystem_Shutdown_login:
  assumes "DbSystem_Shutdown (login_task ssl db) d = (fs, d')"
  shows "login_results fs" "\<not> db_running d'"
  using assms login_results_drain[of ssl db "db_tasks d" "d\<lparr>db_running := False, db_tasks := []\<rparr>"]
  by (auto simp: DbSystem_Shutdown_def Let_def login_results_def split: prod.splits if_splits)



end
