(* ===== verification/ServerNet.thy ===== *)
theory ServerNet
  imports Client WorldTypes
begin

text \<open>
  The game server on top of the network layer: \<^verbatim>\<open>GameSession\<close>'s overrides as the hooks of a session, and what a
  stream of client requests does to the server.  The application state is the server and the number of
  packets received so far, which picks the random draw and the stack contents of each call.
\<close>

section \<open>The hooks\<close>

text \<open>A disconnect by the game code: \<open>World_Disconnect\<close> has done what \<^verbatim>\<open>OnDisconnected\<close> does, and the rest of
  \<^verbatim>\<open>Session::Disconnect\<close> follows.\<close>

definition server_settle :: "os \<Rightarrow> nat \<Rightarrow> ('k server \<times> nat) net \<Rightarrow> ('k server \<times> nat) net outcome" where
  "server_settle os sid net =
     (if m_connected (ses sid net) \<and> \<not> connected (sv_world (fst (app net))) sid
      then bindR (ReleaseSession sid (upd sid (\<lambda>s. s\<lparr>m_connected := False\<rparr>) net))
             (\<lambda>net. Inr (snd (RegisterDisconnect os sid net)))
      else Inr net)"

definition server_hooks :: "os \<Rightarrow> 'k openssl \<Rightarrow> (nat \<Rightarrow> 'k draw) \<Rightarrow> (nat \<Rightarrow> byte list) \<Rightarrow> ('k server \<times> nat) hooks" where
  "server_hooks os ssl ds stacks = \<lparr>
     OnConnected = \<lambda>sid net. let (sv, n) = app net; w = sv_world sv in
       Inr (net\<lparr>app := (sv\<lparr>sv_world := GameSession_OnConnected sid
         (w\<lparr>alive := (alive w)(sid := True), connected := (connected w)(sid := True)\<rparr>)\<rparr>, n)\<rparr>),
     OnRecv = \<lambda>sid mem net. let (sv, n) = app net in
       bindR (server_OnRecv ssl (ds n) (stacks n) sid mem sv) (\<lambda>(ok, sv').
         bindR (server_settle os sid (net\<lparr>app := (sv', n + 1)\<rparr>)) (\<lambda>net. Inr (ok, net))),
     OnSend = \<lambda>sid n net. Inr net,
     OnDisconnected = \<lambda>sid net. let (sv, n) = app net in
       Inr (net\<lparr>app := (sv\<lparr>sv_world := World_Disconnect sid (sv_world sv)\<rparr>, n)\<rparr>)\<rparr>"

section \<open>What a request does to the world\<close>

fun creq_class :: "creq \<Rightarrow> packet_class" where
  "creq_class CReqRoomEnter = cls_ReqRoomEnter"
| "creq_class (CReqRoomChat t) = cls_ReqRoomChat"
| "creq_class CReqRoomExit = cls_ReqRoomExit"
| "creq_class (CReqLobbyChat t) = cls_ReqLobbyChat"
| "creq_class (CTest t) = cls_TestPacket"
| "creq_class CPing = cls_TestPacket"

fun request_ok :: "creq \<Rightarrow> bool" where
  "request_ok (CTest t) = (length t \<le> 255)"
| "request_ok r = True"

text \<open>The specification, without bytes: a chat text is cut to 255 characters.\<close>

definition enter_some_room :: "nat \<Rightarrow> world \<Rightarrow> world" where
  "enter_some_room p w = (let w1 = LeaveLobby p w in
     case GetNotFullRoom w1 of
       Some (r, w2) \<Rightarrow> post_room r (RoomEnter p) w2
     | None \<Rightarrow> post_room (length (rooms w1)) (RoomEnter p)
         (w1\<lparr>rooms := rooms w1 @ [Room_ctor\<lparr>m_roomIndex := int (length (rooms w1)), room_slots := MAX_ROOM_PLAYER - 1\<rparr>]\<rparr>))"

fun server_effect :: "nat \<Rightarrow> nat \<Rightarrow> creq \<Rightarrow> world \<Rightarrow> world" where
  "server_effect sid p CReqRoomEnter w = enter_some_room p w"
| "server_effect sid p (CReqRoomChat t) w = RoomChat p (take 255 (c_str t)) w"
| "server_effect sid p CReqRoomExit w = LeaveRoomAndReenterLobby p w"
| "server_effect sid p (CReqLobbyChat t) w = Player_LobbyChat p (take 255 (c_str t)) w"
| "server_effect sid p (CTest t) w = send_to sid (Msg_Test test_text) w"
| "server_effect sid p CPing w = send_to sid (Msg_Test test_text) w"

definition server_step :: "nat \<Rightarrow> nat \<Rightarrow> creq \<Rightarrow> 'k server \<times> nat \<Rightarrow> 'k server \<times> nat" where
  "server_step sid p r = (\<lambda>(sv, n). (sv\<lparr>sv_world := server_effect sid p r (sv_world sv)\<rparr>, n + 1))"

text \<open>A session that has agreed on \<open>key\<close> and logged in as player \<open>p\<close>.\<close>

definition logged_in :: "byte list \<Rightarrow> nat \<Rightarrow> nat \<Rightarrow> 'k server \<times> nat \<Rightarrow> bool" where
  "logged_in key sid p = (\<lambda>(sv, n). m_cipher (sv_crypt sv sid) = Some key \<and> m_handshakeDone (sv_crypt sv sid)
     \<and> connected (sv_world sv) sid \<and> player_of (sv_world sv) sid = Some p)"

section \<open>Requests as bytes\<close>

lemma request_sizes:
  "unat (size16 (creq_class r)) = size_of (creq_class r)" "4 \<le> size_of (creq_class r)"
  "size_of (creq_class r) \<le> MAX_PLAIN_PACKET_SIZE"
  by (cases r; simp add: layout_defs MAX_PLAIN_PACKET_SIZE_def)+

lemma request_bytes:
  assumes "size_of (creq_class r) \<le> length mem" "request_ok r"
  shows "length (creq_bytes r mem) = length mem" "m_dataSize (creq_bytes r mem) = size16 (creq_class r)"
    "unat (m_dataSize (creq_bytes r mem)) = size_of (creq_class r)"
proof -
  show "length (creq_bytes r mem) = length mem" "m_dataSize (creq_bytes r mem) = size16 (creq_class r)"
    using assms by (cases r; simp add: layout_defs m_dataSize_def PacketHeader_Init_def ReqRoomEnter_Init_def ReqRoomChat_Init_def
      ReqLobbyChat_Init_def)+
  then show "unat (m_dataSize (creq_bytes r mem)) = size_of (creq_class r)" by (simp add: request_sizes)
qed

lemma request_num:
  assumes "size_of (creq_class r) \<le> length mem" "request_ok r"
  shows "m_packetNum (creq_bytes r mem) = packetNum (case r of CReqRoomEnter \<Rightarrow> Req_RoomEnter | CReqRoomChat _ \<Rightarrow> Req_RoomChat
    | CReqRoomExit \<Rightarrow> Req_RoomExit | CReqLobbyChat _ \<Rightarrow> Req_LobbyChat | CTest _ \<Rightarrow> Test | CPing \<Rightarrow> Test)"
  using assms by (cases r; simp add: layout_defs m_packetNum_def PacketHeader_Init_def ReqRoomEnter_Init_def ReqRoomChat_Init_def
      ReqLobbyChat_Init_def)

lemma request_text:
  assumes "260 \<le> length mem" "260 \<le> length stack" "q = put_string 4 256 t (PacketHeader_Init num sz mem)"
  shows "cstring 4 (overwrite 0 (take 260 q) stack) = Inr (take 255 (c_str t))"
proof -
  let ?m = "PacketHeader_Init num sz mem"
  have l: "length ?m = length mem" using assms(1) by (simp add: PacketHeader_Init_def)
  then have "260 \<le> length q" using assms(1) unfolding assms(3) by simp
  moreover have "0 \<in> set (bytes_at 4 256 q)" "c_str (bytes_at 4 256 q) = take 255 (c_str t)"
    using assms(1) l string_terminated[of 256 4 ?m t] c_str_bytes_at_put_string[of 256 4 ?m t] unfolding assms(3) by simp_all
  ultimately show ?thesis using cstring_in_buffer[of 4 256 260 q stack] assms(2) by simp
qed

section \<open>Handling a request\<close>

lemma server_Process_buffer:
  assumes "2 \<le> k" "k \<le> length p" "k \<le> length stack" "map_of RegisterPacket (uint (m_packetNum p)) = Some h"
  shows "server_Process (overwrite 0 (take k p) stack) s sv = call_handler (overwrite 0 (take k p) stack) s sv h"
  using assms bytes_in_buffer[of 0 2 k p stack] by (simp add: server_Process_def Process_def m_packetNum_def)

lemma HandleReqRoomEnter_effect:
  "player_of w s = Some p \<Longrightarrow> HandleReqRoomEnterPacket mem s w = Inr (True, enter_some_room p w)"
  by (simp add: HandleReqRoomEnterPacket_def enter_some_room_def MakeRoom_ok Let_def split: option.split)

lemma server_Process_request:
  assumes mem: "size_of (creq_class r) \<le> length mem" "request_ok r" and st: "length stack = MAX_PLAIN_PACKET_SIZE"
    and p: "player_of (sv_world sv) s = Some p"
  shows "server_Process (overwrite 0 (take (size_of (creq_class r)) (creq_bytes r mem)) stack) s sv
    = Inr (True, sv\<lparr>sv_world := server_effect s p r (sv_world sv)\<rparr>)"
proof -
  let ?k = "size_of (creq_class r)" and ?p = "creq_bytes r mem"
  let ?b = "overwrite 0 (take ?k ?p) stack"
  have len: "?k \<le> length ?p" "?k \<le> length stack" "2 \<le> ?k"
    using request_bytes(1)[OF mem] mem(1) request_sizes(2,3)[of r] st by simp_all
  note call = server_Process_buffer[OF len(3,1,2), unfolded map_of_RegisterPacket request_num[OF mem], of _ s sv]
  have st260: "260 \<le> length stack" using st by (simp add: MAX_PLAIN_PACKET_SIZE_def)
  show ?thesis
  proof (cases r)
    case (CReqRoomChat t)
    then show ?thesis using call[of H_ReqRoomChat] p mem(1) request_text[OF _ st260 refl, of mem t]
      by (simp add: on_world_def HandleReqRoomChatPacket_def ReqRoomChat_Init_def layout_defs)
  next
    case (CReqLobbyChat t)
    then show ?thesis using call[of H_ReqLobbyChat] p mem(1) request_text[OF _ st260 refl, of mem t]
      by (simp add: on_world_def HandleReqLobbyChatPacket_def ReqLobbyChat_Init_def layout_defs)
  next
    case CReqRoomEnter
    then show ?thesis using call[of H_ReqRoomEnter] HandleReqRoomEnter_effect[OF p] by (simp add: on_world_def)
  next
    case CReqRoomExit
    then show ?thesis using call[of H_ReqRoomExit] p by (simp add: on_world_def HandleReqRoomExitPacket_def)
  next
    case (CTest t)
    then show ?thesis using call[of H_Test] by (simp add: on_world_def HandleTestPacket_def)
  next
    case CPing
    then show ?thesis using call[of H_Test] by (simp add: on_world_def HandleTestPacket_def)
  qed
qed

lemma server_effect_sessions:
  assumes "player_of w s = Some p"
  shows "connected (server_effect s p r w) = connected w" "player_of (server_effect s p r w) = player_of w"
proof -
  have "session_part (server_effect s p r w) = session_part w"
  proof (cases r)
    case CReqRoomEnter
    then show ?thesis using session_part_handlers(1)[OF HandleReqRoomEnter_effect[OF assms, of "[]"]] by simp
  next
    case CReqRoomExit
    then show ?thesis using session_part_handlers(3)[of "[]" s w True] assms by (simp add: HandleReqRoomExitPacket_def)
  qed simp_all
  then show "connected (server_effect s p r w) = connected w" "player_of (server_effect s p r w) = player_of w"
    by (simp_all add: session_part_def)
qed

section \<open>A stream of requests\<close>

text \<open>The frame the client makes of a request.\<close>

definition request_frame :: "'k openssl \<Rightarrow> 'k crypt \<Rightarrow> creq \<Rightarrow> byte list \<Rightarrow> bool" where
  "request_frame ssl k r f \<longleftrightarrow> request_ok r \<and> (\<exists>d mem. sending_draw d \<and> size_of (creq_class r) \<le> length mem
     \<and> ServerSession_Send ssl d (creq_bytes r mem) k = Inr (SendBytes f))"

lemma request_sealed:
  assumes "m_cipher k = Some key" "m_handshakeDone k" "request_frame ssl k r f"
  obtains d mem where "sending_draw d" "size_of (creq_class r) \<le> length mem" "request_ok r"
    "unat (m_dataSize (creq_bytes r mem)) \<le> length (creq_bytes r mem)"
    "SendEncrypted ssl d key (creq_bytes r mem) = SendBytes f" "ServerSession_Send ssl d (creq_bytes r mem) k = Inr (SendBytes f)"
proof -
  obtain d mem where d: "sending_draw d" "size_of (creq_class r) \<le> length mem" "request_ok r"
    "ServerSession_Send ssl d (creq_bytes r mem) k = Inr (SendBytes f)" using assms(3) by (auto simp: request_frame_def)
  then have "SendEncrypted ssl d key (creq_bytes r mem) = SendBytes f" using assms(1,2) by (simp add: ServerSession_Send_def)
  moreover have "unat (m_dataSize (creq_bytes r mem)) \<le> length (creq_bytes r mem)" using request_bytes[OF d(2,3)] d(2) by simp
  ultimately show thesis using that d by blast
qed

lemma request_received:
  assumes "gcm_ok ssl" "m_cipher k = Some key" "m_handshakeDone k" "d_ctx d'" "length stack = MAX_PLAIN_PACKET_SIZE"
    and "request_frame ssl k r f" "logged_in key sid p (sv, n)"
  shows "server_OnRecv ssl d' stack sid f sv = Inr (True, sv\<lparr>sv_world := server_effect sid p r (sv_world sv)\<rparr>)"
proof -
  obtain d mem where d: "sending_draw d" "size_of (creq_class r) \<le> length mem" "request_ok r"
    "unat (m_dataSize (creq_bytes r mem)) \<le> length (creq_bytes r mem)" "ServerSession_Send ssl d (creq_bytes r mem) k = Inr (SendBytes f)"
    by (rule request_sealed[OF assms(2,3,6)]) blast
  have l: "m_cipher (sv_crypt sv sid) = Some key" "m_handshakeDone (sv_crypt sv sid)" "player_of (sv_world sv) sid = Some p"
    using assms(7) by (simp_all add: logged_in_def)
  have "GameSession_OnRecv ssl d' stack f (sv_crypt sv sid)
      = Inr (Dispatch (overwrite 0 (take (size_of (creq_class r)) (creq_bytes r mem)) stack), sv_crypt sv sid)"
    using channel_delivers[OF assms(1) d(1) assms(4) assms(2) l(1) assms(3) l(2) d(4), where f = f and stack = stack and rest = "[]"] d(5) request_bytes(3)[OF d(2,3)]
    by (simp add: sent_bytes_def)
  then show ?thesis using server_Process_request[where sv = sv and s = sid and p = p, OF d(2,3) assms(5) l(3)]
    by (simp add: server_OnRecv_def Let_def)
qed

text \<open>What one received packet makes of the application state.\<close>

definition server_recv :: "'k openssl \<Rightarrow> (nat \<Rightarrow> 'k draw) \<Rightarrow> (nat \<Rightarrow> byte list) \<Rightarrow> nat \<Rightarrow> byte list \<Rightarrow> 'k server \<times> nat \<Rightarrow> 'k server \<times> nat" where
  "server_recv ssl ds stacks sid f a = (case a of (sv, n) \<Rightarrow>
     (case server_OnRecv ssl (ds n) (stacks n) sid f sv of Inr (_, sv') \<Rightarrow> (sv', n + 1) | Inl _ \<Rightarrow> a))"

lemma logged_in_step: "logged_in key sid p a \<Longrightarrow> logged_in key sid p (server_step sid p r a)"
  using server_effect_sessions[of "sv_world (fst a)" sid p r] by (cases a) (simp add: logged_in_def server_step_def)

lemma request_reads_only:
  assumes "gcm_ok ssl" "m_cipher k = Some key" "m_handshakeDone k" "request_frame ssl k r f"
  shows "reads_only (server_hooks os ssl ds stacks) sid f"
proof -
  obtain d inner where d: "sending_draw d" "unat (m_dataSize inner) \<le> length inner" "SendEncrypted ssl d key inner = SendBytes f"
    by (rule request_sealed[OF assms(2-4)])
  have "m_packetNum (f @ junk) = m_packetNum f" for junk
    using sealed_shape(1)[OF assms(1) d] by (metis append_Nil2)
  then show ?thesis using sealed_prefix(1)[OF assms(1) d] by (simp add: reads_only_def server_hooks_def server_OnRecv_def)
qed

lemma request_accepted:
  assumes "gcm_ok ssl" "m_cipher k = Some key" "m_handshakeDone k" "\<And>n. d_ctx (ds n)" "\<And>n. length (stacks n) = MAX_PLAIN_PACKET_SIZE"
    and r: "request_frame ssl k r f"
  shows "logged_in key sid p a \<Longrightarrow> server_recv ssl ds stacks sid f a = server_step sid p r a"
    "accepts (server_hooks os ssl ds stacks) sid (logged_in key sid p) (server_recv ssl ds stacks sid) f"
proof -
  let ?hk = "server_hooks os ssl ds stacks"
  note rr = request_received[OF assms(1-3) assms(4,5) r]
  show step: "logged_in key sid p a \<Longrightarrow> server_recv ssl ds stacks sid f a = server_step sid p r a" for a
    using rr by (cases a) (simp add: server_recv_def server_step_def)
  have "\<exists>net'. OnRecv ?hk sid f net = Inr (True, net') \<and> app net' = server_recv ssl ds stacks sid f (app net)
      \<and> logged_in key sid p (app net') \<and> sid < length (heap net') \<and> m_connected (ses sid net')"
    if n: "sid < length (heap net)" "m_connected (ses sid net)" "logged_in key sid p (app net)" for net :: "('a server \<times> nat) net"
  proof -
    obtain sv m where a: "app net = (sv, m)" by fastforce
    let ?a = "server_step sid p r (sv, m)"
    have l: "logged_in key sid p ?a" using logged_in_step n(3) a by simp
    then have "server_settle os sid (net\<lparr>app := ?a\<rparr>) = Inr (net\<lparr>app := ?a\<rparr>)"
      by (simp add: server_settle_def logged_in_def server_step_def)
    moreover have "server_OnRecv ssl (ds m) (stacks m) sid f sv = Inr (True, sv\<lparr>sv_world := server_effect sid p r (sv_world sv)\<rparr>)"
      using rr n(3) a by simp
    ultimately have "OnRecv ?hk sid f net = Inr (True, net\<lparr>app := ?a\<rparr>)" by (simp add: server_hooks_def server_step_def a)
    then show ?thesis using n step[OF n(3)] l a by simp
  qed
  then show "accepts ?hk sid (logged_in key sid p) (server_recv ssl ds stacks sid) f"
    using request_reads_only[OF assms(1-3) r] by (simp add: accepts_def)
qed

lemma requests_followed:
  assumes "gcm_ok ssl" "m_cipher k = Some key" "m_handshakeDone k" "\<And>n. d_ctx (ds n)" "\<And>n. length (stacks n) = MAX_PLAIN_PACKET_SIZE"
    and "recv_accepted os" "rx_ready sid net" "pending (m_recvBuffer (ses sid net)) = []" "logged_in key sid p (app net)"
    and fs: "list_all2 (request_frame ssl k) rs fs" and ns: "\<forall>n \<in> set ns. 0 < n" "length (concat fs) \<le> length ns"
  shows "\<exists>net'. receive os (server_hooks os ssl ds stacks) sid ns (concat fs) net = Inr net' \<and> rx_ready sid net'
    \<and> app net' = fold (server_step sid p) rs (app net) \<and> logged_in key sid p (app net')
    \<and> pending (m_recvBuffer (ses sid net')) = []"
proof -
  let ?hk = "server_hooks os ssl ds stacks" and ?step = "server_recv ssl ds stacks sid"
  note acc = request_accepted[where ds = ds and stacks = stacks, OF assms(1-3) assms(4,5)]
  have made: "\<exists>r. request_frame ssl k r f" if "f \<in> set fs" for f
    using fs that by (auto simp: list_all2_conv_all_nth in_set_conv_nth)
  have "32 < length f \<and> unat (m_dataSize f) = length f" if "f \<in> set fs" for f
    using made[OF that] by (auto elim!: request_sealed[OF assms(2,3)] dest: sealed_shape(3,4)[OF assms(1)])
  then have "split_frames (concat fs) = (fs, [], False)" by (intro split_frames_whole) force
  moreover have "\<forall>f \<in> set fs. accepts ?hk sid (logged_in key sid p) ?step f" using made acc(2) by blast
  ultimately obtain net' where n: "receive os ?hk sid ns (concat fs) net = Inr net'" "rx_ready sid net'"
    "app net' = fold ?step fs (app net)" "pending (m_recvBuffer (ses sid net')) = []"
    using receive_all[OF assms(6,7), of "concat fs" fs "[]" ?hk "logged_in key sid p" ?step ns] assms(8,9) ns by auto
  have "fold ?step fs a = fold (server_step sid p) rs a \<and> logged_in key sid p (fold (server_step sid p) rs a)"
    if "logged_in key sid p a" for a
    using fs that by (induction arbitrary: a rule: list_all2_induct) (simp_all add: acc(1) logged_in_step)
  then show ?thesis using n assms(9) by auto
qed


text \<open>One player, account 5, on session 0.\<close>

definition one_player :: world where
  "one_player = world0\<lparr>players := [Player_ctor 0 5 [98]], alive := (\<lambda>_. False)(0 := True),
     connected := (\<lambda>_. False)(0 := True), player_of := (\<lambda>_. None)(0 := Some 0)\<rparr>"

definition server_net :: "(byte server \<times> nat) net" where
  "server_net = \<lparr>heap = heap one_session, m_sessions = [0], m_sessionCount = 1, m_maxSessionCount = 1, m_isServerService = True,
     m_serviceAddress = (0, 7900), m_listenSocket = 5, m_acceptSession = None, pool = SendPool_ctor, log = [],
     app = (toy_server\<lparr>sv_world := one_player\<rparr>, 0)\<rparr>"

lemma toy_request: "request_ok r \<Longrightarrow> \<exists>f. request_frame toy_ssl toy_crypt r f"
proof -
  assume r: "request_ok r"
  let ?mem = "replicate (size_of (creq_class r)) 0" and ?key = "replicate 16 9"
  have len: "size_of (creq_class r) \<le> length ?mem" by simp
  have "\<exists>f. SendEncrypted toy_ssl (toy_draw 3) ?key (creq_bytes r ?mem) = SendBytes f"
    using request_bytes(3)[OF len r] request_sizes(2,3)[of r]
    by (simp add: SendEncrypted_def Encrypt_def toy_ssl_def toy_draw_def Let_def)
  then obtain f where "ServerSession_Send toy_ssl (toy_draw 3) (creq_bytes r ?mem) toy_crypt = Inr (SendBytes f)"
    by (auto simp: ServerSession_Send_def toy_crypt_def)
  then show ?thesis using r toy_draw_ok(1)[of 3] len unfolding request_frame_def by blast
qed


end
