(* ===== verification/RoomEntry.thy ===== *)
theory RoomEntry
  imports ServerNet
begin

text \<open>
  Entering a room, on the server: what the two jobs of the room's queue do that a room request leads to, the entry
  itself and the announcement to the members.
\<close>

section \<open>The two jobs of an entry\<close>

lemma receivers_member:
  "(i, p) \<in> set ps \<Longrightarrow> GetOwnerSession p w = Some s \<Longrightarrow> s \<in> set (receivers w ps)"
  by (force simp: receivers_def List.map_filter_def)

lemma room_entry_jobs:
  assumes r: "r < length (rooms w)" "room_jobs (rooms w ! r) = [RoomEnter p]" "int (length (room_players (rooms w ! r))) < MAX_ROOM_PLAYER"
    and p: "p < length (players w)" "\<not> map_has (GetPlayerId p w) (room_players (rooms w ! r))" "GetOwnerSession p w = Some s"
    and w2: "w2 = run_room_job r (run_room_job r w)"
  shows "room_players (rooms w2 ! r) = map_insert (GetPlayerId p w) p (room_players (rooms w ! r))"
    "outbox w2 = outbox w @ map (\<lambda>s'. (s', Msg_NotiRoomEnter (GetPlayerId p w) (GetPlayerName p w))) (receivers w2 (room_players (rooms w2 ! r)))"
    "s \<in> set (receivers w2 (room_players (rooms w2 ! r)))" "m_currentRoom (players w2 ! p) = Some r" "room_jobs (rooms w2 ! r) = []"
proof -
  let ?m = "Msg_NotiRoomEnter (GetPlayerId p w) (GetPlayerName p w)"
  let ?ps = "map_insert (GetPlayerId p w) p (room_players (rooms w ! r))"
  define w1 where "w1 = SetCurrentRoom p (Some r) (upd_room r (\<lambda>c. c\<lparr>room_jobs := [], room_players := ?ps\<rparr>) w)"
  have w1: "rooms w1 ! r = (rooms w ! r)\<lparr>room_jobs := [], room_players := ?ps\<rparr>" "length (rooms w1) = length (rooms w)"
    "m_currentRoom (players w1 ! p) = Some r" "GetPlayerId p w1 = GetPlayerId p w" "GetPlayerName p w1 = GetPlayerName p w"
    "GetOwnerSession p w1 = Some s" "outbox w1 = outbox w"
    using r(1) p(1,3) by (simp_all add: w1_def SetCurrentRoom_def upd_room_def upd_player_def GetOwnerSession_def)
  have "run_room_job r w = EnterRoom p w1"
    using r p w1(6) by (simp add: run_room_job_def Room_Enter_def try_emplace_def Let_def w1_def upd_room_def SetCurrentRoom_def upd_player_def
        GetOwnerSession_def split: if_splits)
  then have "run_room_job r w = post_room r (RoomBroadcast ?m) w1" using w1(3-5) by (simp add: EnterRoom_def)
  then have "w2 = broadcast_to ?m ?ps (upd_room r (\<lambda>c. c\<lparr>room_jobs := []\<rparr>) w1)"
    using r(1) w1(1,2) by (simp add: w2 run_room_job_def post_room_def Room_Broadcast_def upd_room_def)
  then have e: "w2 = upd_room r (\<lambda>c. c\<lparr>room_jobs := []\<rparr>) w1 \<lparr>outbox := outbox w @ map (\<lambda>s'. (s', ?m)) (receivers w1 ?ps)\<rparr>"
    using w1(7) by (simp add: broadcast_to_eq receivers_def GetOwnerSession_def upd_room_def)
  have rec: "receivers w2 ?ps = receivers w1 ?ps" by (simp add: e receivers_def GetOwnerSession_def upd_room_def)
  show ps: "room_players (rooms w2 ! r) = ?ps" using r(1) w1(1,2) by (simp add: e upd_room_def)
  show "outbox w2 = outbox w @ map (\<lambda>s'. (s', ?m)) (receivers w2 (room_players (rooms w2 ! r)))" by (simp add: ps rec) (simp add: e)
  have "(GetPlayerId p w, p) \<in> set ?ps" using p(2) by (simp add: set_map_insert)
  then show "s \<in> set (receivers w2 (room_players (rooms w2 ! r)))" unfolding ps rec by (rule receivers_member) (rule w1(6))
  show "m_currentRoom (players w2 ! p) = Some r" using w1(3) by (simp add: e upd_room_def)
  show "room_jobs (rooms w2 ! r) = []" using r(1) w1(2) by (simp add: e upd_room_def)
qed

section \<open>The request\<close>

lemma LeaveLobby_kept:
  "rooms (LeaveLobby p w) = rooms w" "outbox (LeaveLobby p w) = outbox w" "alive (LeaveLobby p w) = alive w"
  "length (players (LeaveLobby p w)) = length (players w)" "GetPlayerId q (LeaveLobby p w) = GetPlayerId q w"
  "GetPlayerName q (LeaveLobby p w) = GetPlayerName q w" "m_ownerSession (players (LeaveLobby p w) ! q) = m_ownerSession (players w ! q)"
  by (auto simp: LeaveLobby_def Let_def post_lobby_def upd_lobby_def nth_upd_player split: option.split)

text \<open>A player who is in no room, with every queue empty, gets exactly one entry job in some room.\<close>

lemma enter_some_room_job:
  assumes w: "wstep\<^sup>*\<^sup>* world0 w" "connected w s" "player_of w s = Some p"
    and idle: "\<forall>r < length (rooms w). room_jobs (rooms w ! r) = [] \<and> \<not> map_has (GetPlayerId p w) (room_players (rooms w ! r))"
    and w1: "w1 = enter_some_room p w"
  obtains r where "r < length (rooms w1)" "room_jobs (rooms w1 ! r) = [RoomEnter p]" "int (length (room_players (rooms w1 ! r))) < MAX_ROOM_PLAYER"
    "p < length (players w1)" "\<not> map_has (GetPlayerId p w1) (room_players (rooms w1 ! r))" "GetOwnerSession p w1 = Some s"
    "outbox w1 = outbox w" "GetPlayerId p w1 = GetPlayerId p w" "GetPlayerName p w1 = GetPlayerName p w"
proof -
  let ?w0 = "LeaveLobby p w"
  obtain r where r: "r < length (rooms w1)" "room_jobs (rooms w1 ! r) = [RoomEnter p]" "room_players (rooms w1 ! r) = room_players (room_origin w r)"
    and fr: "players w1 = players ?w0" "alive w1 = alive w" "outbox w1 = outbox w"
  proof (cases "GetNotFullRoom ?w0")
    case None
    then show thesis using that[of "length (rooms w)"] w1
      by (simp add: enter_some_room_def Let_def LeaveLobby_kept post_room_def upd_room_def Room_ctor_def room_origin_def)
  next
    case (Some x)
    obtain r w' where x: "x = (r, w')" by fastforce
    obtain c where c: "r < length (rooms w)" "Room_TryReserveSlot (rooms w ! r) = (True, c)" "w' = ?w0\<lparr>rooms := (rooms w)[r := c]\<rparr>"
      using Some GetNotFullRoom_Some[of ?w0 r w'] by (auto simp: x LeaveLobby_kept)
    then have "room_jobs c = []" "room_players c = room_players (rooms w ! r)"
      using idle by (auto simp: slot_defs split: if_splits)
    then show thesis using that[of r] w1 Some c(1,3) x
      by (simp add: enter_some_room_def Let_def LeaveLobby_kept post_room_def upd_room_def room_origin_def)
  qed
  have t: "p < length (players w)" "m_ownerSession (players w ! p) = s" using typedD(6)[OF typed_reachable[OF w(1)] w(3)] by auto
  have "wstep w w1" unfolding w1 by (rule wstep.room_enter[OF w(2) HandleReqRoomEnter_effect[OF w(3), of "[]"]])
  then have "wstep\<^sup>*\<^sup>* world0 w1" using w(1) by simp
  then have "int (length (room_players (rooms w1 ! r))) < MAX_ROOM_PLAYER" using room_free[of w1 r] r by (simp add: MAX_ROOM_PLAYER_def)
  moreover have "\<not> map_has (GetPlayerId p w) (room_players (room_origin w r))" using idle by (simp add: room_origin_def Room_ctor_def map_has_def)
  moreover have "alive w s" using roster_reachable[OF w(1)] w(2) by (simp add: roster_def)
  ultimately show thesis using that[of r] r fr t by (simp add: LeaveLobby_kept GetOwnerSession_def)
qed

end
