(* ===== verification/Login.thy ===== *)
theory Login
  imports ServerNet Startup
begin

text \<open>
  From the connection to the login, with both programs and the network between them: \<^verbatim>\<open>Session::ProcessConnect\<close> on either
  side, the key exchange, the client's first encrypted packet, the database worker and the answer, as bytes that the
  network may cut in any way.  Shown: the client ends up with its account, or is turned away.
\<close>

section \<open>Connecting\<close>

text \<open>A session that has just been made, and the hooks of both programs, which change the application state only.\<close>

definition fresh_session :: "nat \<Rightarrow> 'app net \<Rightarrow> bool" where
  "fresh_session sid net \<longleftrightarrow> sid < length (heap net) \<and> \<not> m_connected (ses sid net)
     \<and> m_recvBuffer (ses sid net) = RecvBuffer_ctor BUFFER_SIZE"

lemma ProcessConnect_ready:
  assumes "recv_accepted os" "fresh_session sid net"
    and hook: "\<And>n. app n = app net \<Longrightarrow> OnConnected hk sid n = Inr (n\<lparr>app := a\<rparr>)"
  shows "\<exists>net'. ProcessConnect os hk sid net = Inr net' \<and> rx_ready sid net' \<and> pending (m_recvBuffer (ses sid net')) = [] \<and> app net' = a"
proof -
  let ?n0 = "AddSession sid (upd sid (\<lambda>s. s\<lparr>m_connectOwner := None, m_connected := True\<rparr>) net)"
  let ?n1 = "?n0\<lparr>app := a\<rparr>"
  have sid: "sid < length (heap net)" "m_recvBuffer (ses sid net) = RecvBuffer_ctor BUFFER_SIZE"
    using assms(2) by (simp_all add: fresh_session_def)
  have buf: "rb_inv (RecvBuffer_ctor BUFFER_SIZE)" "BUFFER_SIZE \<le> FreeSize (RecvBuffer_ctor BUFFER_SIZE)"
    "m_bufferSize (RecvBuffer_ctor BUFFER_SIZE) = BUFFER_SIZE" "0 < FreeSize (RecvBuffer_ctor BUFFER_SIZE)"
    using rb_inv_ctor[of BUFFER_SIZE] by (simp_all add: BUFFER_SIZE_def BUFFER_COUNT_def RecvBuffer_ctor_def FreeSize_def)
  have n1: "sid < length (heap ?n1)" "m_connected (ses sid ?n1)" "m_recvBuffer (ses sid ?n1) = RecvBuffer_ctor BUFFER_SIZE"
    using sid by (simp_all add: AddSession_def upd_def)
  have "OnConnected hk sid ?n0 = Inr ?n1" by (rule hook) (simp add: AddSession_def)
  then have "ProcessConnect os hk sid net = RegisterRecv os hk sid ?n1" by (simp add: ProcessConnect_def Let_def)
  moreover obtain w where "RegisterRecv os hk sid ?n1 = Inr ((upd sid (\<lambda>s. s\<lparr>m_recvOwner := Some sid\<rparr>) ?n1)
      \<lparr>log := log ?n1 @ [sys_WSARecv (m_socket (ses sid ?n1)) w (FreeSize (m_recvBuffer (ses sid ?n1)))]\<rparr>)"
    using RegisterRecv_ready[OF assms(1) n1(1,2), of hk] buf n1(3) by auto
  moreover have "split_frames [] = ([], [], False)" by (simp add: split_frames.simps sizeof_PacketHeader_def)
  ultimately show ?thesis using n1 buf by (simp add: rx_ready_def Let_def upd_def)
qed

section \<open>The key exchange\<close>

text \<open>The library generates \<open>a\<close> and \<open>b\<close> and does not fail on them; \<open>key\<close> is what comes out.\<close>

definition handshake_works :: "'k openssl \<Rightarrow> 'k \<Rightarrow> 'k \<Rightarrow> byte list \<Rightarrow> bool" where
  "handshake_works ssl a b key \<longleftrightarrow> ecdh_ok ssl \<and> (\<exists>pa pb sec. GetPublicKeyBytes ssl a = Some pa \<and> GetPublicKeyBytes ssl b = Some pb
     \<and> DeriveSharedSecret ssl b pa = Some sec \<and> DeriveSharedSecret ssl a pb \<noteq> None \<and> DeriveSessionKey ssl sec = Some key)"

definition agreed :: "byte list \<Rightarrow> 'k crypt" where
  "agreed key = \<lparr>m_cipher = Some key, m_handshakeDone = True, m_myPrivKey = None\<rparr>"

text \<open>A packet that carries a public key.\<close>

definition key_packet :: "PacketEnum \<Rightarrow> byte list \<Rightarrow> byte list \<Rightarrow> bool" where
  "key_packet num pub f \<longleftrightarrow> length pub = 65 \<and> (\<exists>mem. 69 \<le> length mem \<and> f = sent_bytes (PacketHeader_Init (packetNum num) 69 (overwrite 4 pub mem)))"

lemma key_packetD:
  assumes "key_packet num pub f"
  shows "m_packetNum (f @ rest) = packetNum num" "bytes_at 4 65 (f @ rest) = pub" "69 \<le> length (f @ rest)" "length f = 69"
    "split_frames f = ([f], [], False)"
proof -
  obtain mem where m: "length pub = 65" "69 \<le> length mem" "f = sent_bytes (PacketHeader_Init (packetNum num) 69 (overwrite 4 pub mem))"
    using assms by (auto simp: key_packet_def)
  note k = key_frame[OF m]
  show "m_packetNum (f @ rest) = packetNum num" "bytes_at 4 65 (f @ rest) = pub" "69 \<le> length (f @ rest)" "length f = 69"
    by (rule k)+
  show "split_frames f = ([f], [], False)" using split_frames_whole[of "[f]"] k(4,5) by simp
qed

text \<open>Both ends look at nothing behind such a packet, in whatever state they are.\<close>

lemma key_packet_prefix:
  assumes "key_packet num pub f" "num \<noteq> Encrypted"
  shows "GameSession_OnRecv ssl d stack (f @ rest) c = GameSession_OnRecv ssl d stack f c"
    "ServerSession_OnRecv ssl d lm stack (f @ rest) c = ServerSession_OnRecv ssl d lm stack f c"
    "reads_only (server_hooks os ssl ds stacks) sid f" "reads_only (client_hooks ssl ds lm stacks) sid f"
proof -
  have num: "packetNum num \<noteq> packetNum Encrypted" using assms(2) by (cases num) simp_all
  have f: "m_packetNum (f @ rest) = packetNum num" "bytes_at 4 65 (f @ rest) = pub" "69 \<le> length (f @ rest)"
    "m_packetNum f = packetNum num" "bytes_at 4 65 f = pub" "69 \<le> length f" for rest
    using key_packetD(1-3)[OF assms(1), of rest] key_packetD(1-3)[OF assms(1), of "[]"] by simp_all
  show g: "GameSession_OnRecv ssl d stack (f @ rest) c = GameSession_OnRecv ssl d stack f c" for d stack rest c
    using f(1-3)[of rest] f(4-6) num by (simp add: GameSession_OnRecv_def HandleKeyExchange_def layout_defs Let_def del: packetNum.simps cong: option.case_cong)
  show s: "ServerSession_OnRecv ssl d lm stack (f @ rest) c = ServerSession_OnRecv ssl d lm stack f c" for d stack rest c
    using f(1-3)[of rest] f(4-6) num by (simp add: ServerSession_OnRecv_def HandleResKeyExchange_def layout_defs Let_def del: packetNum.simps cong: option.case_cong)
  show "reads_only (server_hooks os ssl ds stacks) sid f"
    using f(1,4) g by (simp add: reads_only_def server_hooks_def server_OnRecv_def)
  show "reads_only (client_hooks ssl ds lm stacks) sid f" using s by (simp add: reads_only_def client_hooks_def client_OnRecv_def)
qed

lemma client_connects:
  assumes "handshake_works ssl a b key" "d_key (dc (cl_calls c)) = Some a" "69 \<le> length (d_mem (dc (cl_calls c)))" "cl_crypt c = crypt0"
  shows "\<exists>f pa. GetPublicKeyBytes ssl a = Some pa \<and> key_packet Req_KeyExchange pa f
    \<and> (\<forall>sid net. app net = c \<longrightarrow> OnConnected (client_hooks ssl dc lm stacks) sid net
        = Inr (net\<lparr>app := c\<lparr>cl_crypt := crypt0\<lparr>m_myPrivKey := Some a\<rparr>, cl_calls := cl_calls c + 1, cl_wire := cl_wire c @ [f]\<rparr>\<rparr>))"
proof -
  obtain pa where pa: "GetPublicKeyBytes ssl a = Some pa" using assms(1) by (auto simp: handshake_works_def)
  then have "length pa = 65" by (auto simp: GetPublicKeyBytes_def split: option.splits if_splits)
  then show ?thesis using pa assms(2-4)
    by (intro exI[of _ "sent_bytes (PacketHeader_Init (packetNum Req_KeyExchange) 69 (overwrite 4 pa (d_mem (dc (cl_calls c)))))"] exI[of _ pa])
      (auto simp: key_packet_def client_hooks_def client_OnConnected_def client_act_def ServerSession_OnConnected_def ReqKeyExchange_Init_def
        layout_defs Let_def)
qed

lemma server_answers:
  assumes "handshake_works ssl a b key" "d_key (ds n) = Some b" "69 \<le> length (d_mem (ds n))"
    and "GetPublicKeyBytes ssl a = Some pa" "key_packet Req_KeyExchange pa f" "sv_crypt sv sid = crypt0" "world.connected (sv_world sv) sid"
  shows "\<exists>g pb. GetPublicKeyBytes ssl b = Some pb \<and> key_packet Res_KeyExchange pb g
    \<and> takes (server_hooks os ssl ds stacks) sid (sv, n) f
        (sv\<lparr>sv_crypt := (sv_crypt sv)(sid := agreed key), sv_wire := sv_wire sv @ [(sid, g)]\<rparr>, n + 1)"
proof -
  obtain pb sec where b: "GetPublicKeyBytes ssl b = Some pb" "DeriveSharedSecret ssl b pa = Some sec" "DeriveSessionKey ssl sec = Some key"
    using assms(1,4) by (auto simp: handshake_works_def)
  let ?g = "sent_bytes (PacketHeader_Init (packetNum Res_KeyExchange) 69 (overwrite 4 pb (d_mem (ds n))))"
  have pb: "key_packet Res_KeyExchange pb ?g"
    using b(1) assms(3) by (auto simp: key_packet_def GetPublicKeyBytes_def split: option.splits if_splits)
  note f = key_packetD(1-3)[OF assms(5)]
  have "GameSession_OnRecv ssl (ds n) stack (f @ rest) crypt0 = Inr (SendBytes ?g, agreed key)" for stack rest
    using f[of rest] b assms(2)
    by (simp add: GameSession_OnRecv_def HandleKeyExchange_def crypt0_def agreed_def ResKeyExchange_Init_def layout_defs Let_def)
  then have "server_OnRecv ssl (ds n) (stacks n) sid (f @ rest) sv
      = Inr (True, sv\<lparr>sv_crypt := (sv_crypt sv)(sid := agreed key), sv_wire := sv_wire sv @ [(sid, ?g)]\<rparr>)" for rest
    using f(1) assms(6) by (simp add: server_OnRecv_def Let_def)
  note recv = this this[of "[]", simplified]
  have "takes (server_hooks os ssl ds stacks) sid (sv, n) f
      (sv\<lparr>sv_crypt := (sv_crypt sv)(sid := agreed key), sv_wire := sv_wire sv @ [(sid, ?g)]\<rparr>, n + 1)"
    using recv(2) assms(7) key_packet_prefix(3)[OF assms(5)] by (auto simp: takes_def server_hooks_def server_settle_def)
  then show ?thesis using b(1) pb by blast
qed

text \<open>The client answers the server's key with its login, the first sealed packet.\<close>

definition login_packet_of :: "'k openssl \<Rightarrow> byte list \<Rightarrow> byte list \<Rightarrow> bool" where
  "login_packet_of ssl key f \<longleftrightarrow> (\<exists>d lm. sending_draw d \<and> size_of cls_ReqLogin \<le> length lm
     \<and> SendEncrypted ssl d key (ReqLogin_Init testuser testpass lm) = SendBytes f)"

lemma client_logs_in:
  assumes "handshake_works ssl a b key" "gcm_seals ssl key" "sending_draw (dc (cl_calls c))" "d_ctx (dc (cl_calls c))"
    and "size_of cls_ReqLogin \<le> length lm" "GetPublicKeyBytes ssl b = Some pb" "key_packet Res_KeyExchange pb g"
    and "cl_crypt c = crypt0\<lparr>m_myPrivKey := Some a\<rparr>"
  shows "\<exists>f. login_packet_of ssl key f
    \<and> takes (client_hooks ssl dc lm stacks) cid c g (c\<lparr>cl_crypt := agreed key, cl_calls := cl_calls c + 1, cl_wire := cl_wire c @ [f]\<rparr>)"
proof -
  let ?d = "dc (cl_calls c)" and ?l = "ReqLogin_Init testuser testpass lm"
  obtain pa sec sec' where h: "ecdh_ok ssl" "GetPublicKeyBytes ssl a = Some pa" "DeriveSharedSecret ssl b pa = Some sec"
    "DeriveSharedSecret ssl a pb = Some sec'" "DeriveSessionKey ssl sec = Some key"
    using assms(1,6) by (auto simp: handshake_works_def)
  have "pkey_pub ssl a = Some pa" "pkey_pub ssl b = Some pb"
    using h(2) assms(6) by (auto simp: GetPublicKeyBytes_def split: option.splits if_splits)
  then have sec: "sec' = sec" using shared_secret_agrees[OF h(1) _ _ h(3,4)] by simp
  obtain f where f: "SendEncrypted ssl ?d key ?l = SendBytes f"
    using SendEncrypted_works[OF assms(2-4), of ?l] login_frame(1)[OF assms(5)] by (auto simp: MAX_PLAIN_PACKET_SIZE_def)
  have "m_packetNum g = packetNum Res_KeyExchange" "bytes_at 4 65 g = pb" "69 \<le> length g" using key_packetD(1-3)[OF assms(7), of "[]"] by simp_all
  then have "ServerSession_OnRecv ssl ?d lm stack g (cl_crypt c) = Inr (SendBytes f, agreed key)" for stack
    using h(4,5) sec f assms(8)
    by (simp add: ServerSession_OnRecv_def HandleResKeyExchange_def ServerSession_Send_def crypt0_def agreed_def layout_defs Let_def)
  then have "client_OnRecv ssl dc lm stacks g c = Inr (True, c\<lparr>cl_crypt := agreed key, cl_calls := cl_calls c + 1, cl_wire := cl_wire c @ [f]\<rparr>)"
    by (simp add: client_OnRecv_def client_act_def Let_def)
  moreover have "reads_only (client_hooks ssl dc lm stacks) cid g" by (rule key_packet_prefix(4)[OF assms(7)]) simp
  ultimately show ?thesis using f assms(3,5) by (auto simp: login_packet_of_def takes_def client_hooks_def)
qed

lemma login_packet_shape:
  assumes "gcm_ok ssl" "login_packet_of ssl key f"
  shows "split_frames f = ([f], [], False)" "reads_only (server_hooks os ssl ds stacks) sid f"
proof -
  obtain d lm where d: "sending_draw d" "size_of cls_ReqLogin \<le> length lm" "SendEncrypted ssl d key (ReqLogin_Init testuser testpass lm) = SendBytes f"
    using assms(2) by (auto simp: login_packet_of_def)
  have fit: "unat (m_dataSize (ReqLogin_Init testuser testpass lm)) \<le> length (ReqLogin_Init testuser testpass lm)"
    using login_frame(1,2)[OF d(2)] d(2) by (simp add: layout_defs)
  note sh = sealed_shape[OF assms(1) d(1) fit d(3)]
  show "split_frames f = ([f], [], False)" using split_frames_whole[of "[f]"] sh(3,4) by simp
  have "m_packetNum (f @ junk) = m_packetNum f" for junk using sh(1) by (metis append_Nil2)
  then show "reads_only (server_hooks os ssl ds stacks) sid f"
    using sealed_prefix(1)[OF assms(1) d(1) fit d(3)] by (simp add: reads_only_def server_hooks_def server_OnRecv_def)
qed

lemma connected_HandleReqLogin [simp]: "world.connected (sv_world (snd (HandleReqLoginPacket mem s sv))) = world.connected (sv_world sv)"
  "sv_crypt (snd (HandleReqLoginPacket mem s sv)) = sv_crypt sv"
  by (simp_all add: HandleReqLoginPacket_def send_to_def Let_def split: option.split)

lemma server_takes_login:
  assumes "gcm_ok ssl" "login_packet_of ssl key f" "d_ctx (ds n)" "length (stacks n) = MAX_PLAIN_PACKET_SIZE"
    and "sv_crypt sv sid = agreed key" "world.connected (sv_world sv) sid"
  shows "\<exists>mem. c_str (bytes_at 4 16 mem) = testuser \<and> c_str (bytes_at 20 64 mem) = testpass
    \<and> takes (server_hooks os ssl ds stacks) sid (sv, n) f (snd (HandleReqLoginPacket mem sid sv), n + 1)"
proof -
  obtain d lm where d: "sending_draw d" "size_of cls_ReqLogin \<le> length lm" "SendEncrypted ssl d key (ReqLogin_Init testuser testpass lm) = SendBytes f"
    using assms(2) by (auto simp: login_packet_of_def)
  let ?l = "ReqLogin_Init testuser testpass lm"
  note lf = login_frame[OF d(2), of testuser testpass]
  let ?buf = "overwrite 0 (take 84 ?l) (stacks n)"
  have len: "84 \<le> length ?l" "84 \<le> length (stacks n)" using lf(2) d(2) assms(4) by (simp_all add: layout_defs MAX_PLAIN_PACKET_SIZE_def)
  have fields: "c_str (bytes_at 4 16 ?buf) = testuser" "c_str (bytes_at 20 64 ?buf) = testpass" "m_packetNum ?buf = packetNum Req_Login"
    using bytes_in_buffer[OF _ len, of 4 16] bytes_in_buffer[OF _ len, of 20 64] bytes_in_buffer[OF _ len, of 0 2] lf(3-5)
    by (simp_all add: m_packetNum_def testuser_def testpass_def c_str_def)
  have "GameSession_OnRecv ssl (ds n) (stacks n) f (sv_crypt sv sid) = Inr (Dispatch ?buf, sv_crypt sv sid)"
    using channel_delivers[OF assms(1) d(1) assms(3), of "agreed key" key "agreed key" ?l f lm "stacks n" "[]"] d(3) lf(1) len(1) assms(5)
    by (simp add: agreed_def ServerSession_Send_def sent_bytes_def)
  then have "server_OnRecv ssl (ds n) (stacks n) sid f sv = Inr (True, snd (HandleReqLoginPacket ?buf sid sv))"
    using fields(3) by (simp add: server_OnRecv_def server_Process_def Process_def map_of_RegisterPacket Let_def)
      (simp add: HandleReqLoginPacket_def Let_def split: option.split)
  then have "takes (server_hooks os ssl ds stacks) sid (sv, n) f (snd (HandleReqLoginPacket ?buf sid sv), n + 1)"
    using login_packet_shape(2)[OF assms(1,2)] assms(6) by (auto simp: takes_def server_hooks_def server_settle_def)
  then show ?thesis using fields by blast
qed

section \<open>From the connection to the answer\<close>

lemma receive_one:
  assumes "recv_accepted os" "rx_ready sid net" "pending (m_recvBuffer (ses sid net)) = []" "split_frames f = ([f], [], False)"
    and "takes hk sid (app net) f a" "\<forall>n \<in> set ns. 0 < n" "length f \<le> length ns"
  shows "\<exists>net'. receive os hk sid ns f net = Inr net' \<and> rx_ready sid net' \<and> app net' = a \<and> pending (m_recvBuffer (ses sid net')) = []"
  using receive_takes[OF assms(1,2), of f "[f]" "[]" hk a ns] assms(3-7) by simp

lemma run_db_crypt: "run_db ssl db sv = Some sv' \<Longrightarrow> sv_crypt sv' = sv_crypt sv"
  by (auto simp: run_db_def split: option.splits)

lemma answer_received:
  assumes "gcm_ok ssl" "gcm_seals ssl key" "\<And>n. d_ctx (dc n)" "\<And>n. length (stacks n) = MAX_PLAIN_PACKET_SIZE" "recv_accepted os"
    and "rx_ready cid net" "pending (m_recvBuffer (ses cid net)) = []" "cl_crypt (app net) = agreed key"
    and "sending_draw d" "d_ctx d" "size_of (msg_class m) \<le> length mem" "expected m"
    and "\<forall>f. (\<forall>n \<in> set (pieces f). 0 < n) \<and> length f \<le> length (pieces f)"
  shows "\<exists>g net'. GameSession_Send ssl d (msg_bytes m mem) (agreed key) = Inr (SendBytes g)
    \<and> receive os (client_hooks ssl dc lm stacks) cid (pieces g) g net = Inr net' \<and> app net' = client_step m (app net)"
proof -
  have k: "m_cipher (agreed key :: 'a crypt) = Some key" "m_handshakeDone (agreed key :: 'a crypt)" by (simp_all add: agreed_def)
  have "sendable m" using assms(12) by (cases m) (simp_all add: sendable_def)
  then obtain g where g: "GameSession_Send ssl d (msg_bytes m mem) (agreed key) = Inr (SendBytes g)"
    using message_frame(1)[OF assms(2,9,10) k assms(11)] by blast
  then have "frame_of ssl (agreed key) m g" using assms(9,11,12) unfolding frame_of_def by blast
  then obtain net' where "receive os (client_hooks ssl dc lm stacks) cid (pieces g) g net = Inr net'" "app net' = client_step m (app net)"
    using messages_followed[where ds = dc and stacks = stacks and ms = "[m]" and fs = "[g]" and ns = "pieces g" and lm = lm,
        OF assms(1) k assms(3-7)] assms(8,13) k by (auto simp: established_def)
  then show ?thesis using g by blast
qed

text \<open>A server whose database has a connection and no waiting task.\<close>

definition db_idle :: "'k server \<Rightarrow> bool" where
  "db_idle sv \<longleftrightarrow> (case sv_db sv of None \<Rightarrow> False
     | Some dbs \<Rightarrow> db_running dbs \<and> 0 < db_threads dbs \<and> db_tasks dbs = [] \<and> connections (db_pool dbs) \<noteq> [])"

lemma login_answered:
  assumes "pbkdf2_ok ssl" "length salt = SALT_BYTES" "HashPassword ssl (Some salt) password = Some (h, st)"
    and "\<And>c. account_query db c testuser = Row i h st" "c_str (bytes_at 4 16 mem) = testuser" "c_str (bytes_at 20 64 mem) = testpass"
    and "db_idle sv" "world.connected (sv_world sv) s" "\<not> login_done (sv_world sv) s"
  shows "\<exists>sv2. run_db ssl db (snd (HandleReqLoginPacket mem s sv)) = Some sv2 \<and> sv_crypt sv2 = sv_crypt sv
    \<and> (let p = length (players (sv_world sv)) in
       if pbkdf2 ssl testpass salt PBKDF2_ITERATIONS HASH_BYTES = pbkdf2 ssl password salt PBKDF2_ITERATIONS HASH_BYTES
       then player_of (sv_world sv2) s = Some p \<and> GetPlayerId p (sv_world sv2) = i \<and> GetPlayerName p (sv_world sv2) = testuser
          \<and> outbox (sv_world sv2) = outbox (sv_world sv) @ [(s, Msg_ResLogin i testuser)]
       else \<not> world.connected (sv_world sv2) s \<and> outbox (sv_world sv2) = outbox (sv_world sv) @ [(s, Msg_ResLoginFailed)])"
proof -
  obtain dbs where d: "sv_db sv = Some dbs" "db_running dbs" "0 < db_threads dbs" "db_tasks dbs = []" "connections (db_pool dbs) \<noteq> []"
    using assms(7) by (auto simp: db_idle_def split: option.splits)
  have "4 \<le> length testuser" "8 \<le> length testpass" "length testuser \<le> 16" "length testpass \<le> 64" by (simp_all add: testuser_def testpass_def)
  from login_round_trip[OF assms(1-6) this d assms(8,9)] obtain sv2
    where r: "run_db ssl db (snd (HandleReqLoginPacket mem s sv)) = Some sv2"
      "let p = length (players (sv_world sv)) in
       if pbkdf2 ssl testpass salt PBKDF2_ITERATIONS HASH_BYTES = pbkdf2 ssl password salt PBKDF2_ITERATIONS HASH_BYTES
       then player_of (sv_world sv2) s = Some p \<and> GetPlayerId p (sv_world sv2) = i \<and> GetPlayerName p (sv_world sv2) = testuser
          \<and> outbox (sv_world sv2) = outbox (sv_world sv) @ [(s, Msg_ResLogin i testuser)]
       else \<not> world.connected (sv_world sv2) s \<and> outbox (sv_world sv2) = outbox (sv_world sv) @ [(s, Msg_ResLoginFailed)]"
    by (simp only: Let_def case_prod_beta) blast
  show ?thesis using r run_db_crypt[OF r(1)] by (intro exI[of _ sv2]) (simp only: connected_HandleReqLogin simp_thms)
qed

lemma server_connects:
  assumes "w' = GameSession_OnConnected sid (w\<lparr>alive := (alive w)(sid := True), connected := (world.connected w)(sid := True)\<rparr>)"
  shows "app net = (sv, n) \<Longrightarrow> sv_world sv = w \<Longrightarrow>
      OnConnected (server_hooks os ssl ds stacks) sid net = Inr (net\<lparr>app := (sv\<lparr>sv_world := w'\<rparr>, n)\<rparr>)"
    "world.connected w' sid" "login_done w' = login_done w" "players w' = players w" "outbox w' = outbox w"
  by (simp_all add: assms server_hooks_def GameSession_OnConnected_def GameSessionSystem_Add_def)

text \<open>The state of either end after the exchange of keys; the client's next packet is on its way.\<close>

definition client_agreed :: "byte list \<Rightarrow> byte list \<Rightarrow> byte list \<Rightarrow> 'k client" where
  "client_agreed key f1 f3 = ServerSession0\<lparr>cl_crypt := agreed key, cl_calls := 2, cl_wire := [f1, f3]\<rparr>"

definition server_agreed :: "byte list \<Rightarrow> nat \<Rightarrow> byte list \<Rightarrow> 'k server \<Rightarrow> 'k server" where
  "server_agreed key sid f2 sv = (let w = sv_world sv in sv\<lparr>sv_world := GameSession_OnConnected sid
       (w\<lparr>alive := (alive w)(sid := True), connected := (world.connected w)(sid := True)\<rparr>),
     sv_crypt := (sv_crypt sv)(sid := agreed key), sv_wire := sv_wire sv @ [(sid, f2)]\<rparr>)"

lemma server_agreed_simps [simp]:
  "world.connected (sv_world (server_agreed key sid f2 sv)) sid" "login_done (sv_world (server_agreed key sid f2 sv)) = login_done (sv_world sv)"
  "players (sv_world (server_agreed key sid f2 sv)) = players (sv_world sv)" "outbox (sv_world (server_agreed key sid f2 sv)) = outbox (sv_world sv)"
  "sv_crypt (server_agreed key sid f2 sv) sid = agreed key" "sv_wire (server_agreed key sid f2 sv) = sv_wire sv @ [(sid, f2)]"
  "db_idle (server_agreed key sid f2 sv) = db_idle sv"
  by (simp_all add: server_agreed_def db_idle_def GameSession_OnConnected_def GameSessionSystem_Add_def Let_def)

lemma keys_exchanged:
  fixes cnet :: "'k client net" and snet :: "('k server \<times> nat) net"
  assumes ssl: "handshake_works ssl a b key" "gcm_seals ssl key"
    and client: "fresh_session cid cnet" "app cnet = ServerSession0" "recv_accepted osc" "d_key (dc 0) = Some a"
      "\<And>n. sending_draw (dc n) \<and> d_ctx (dc n)" "size_of cls_ReqLogin \<le> length lm"
    and server: "fresh_session sid snet" "app snet = (sv, 0)" "recv_accepted oss" "d_key (ds 0) = Some b" "sending_draw (ds 0)" "sv_crypt sv sid = crypt0"
    and network: "\<And>k. \<forall>f. (\<forall>n \<in> set (pieces k f). 0 < n) \<and> length f \<le> length (pieces (k :: nat) f)"
  obtains cnet1 f1 snet1 snet2 f2 cnet2 f3 where "ProcessConnect osc (client_hooks ssl dc lm stc) cid cnet = Inr cnet1" "cl_wire (app cnet1) = [f1]"
    "ProcessConnect oss (server_hooks oss ssl ds sts) sid snet = Inr snet1"
    "receive oss (server_hooks oss ssl ds sts) sid (pieces 0 f1) f1 snet1 = Inr snet2" "app snet2 = (server_agreed key sid f2 sv, 1)"
    "receive osc (client_hooks ssl dc lm stc) cid (pieces 1 f2) f2 cnet1 = Inr cnet2" "app cnet2 = client_agreed key f1 f3"
    "login_packet_of ssl key f3" "rx_ready sid snet2" "pending (m_recvBuffer (ses sid snet2)) = []"
    "rx_ready cid cnet2" "pending (m_recvBuffer (ses cid cnet2)) = []"
proof -
  let ?ch = "client_hooks ssl dc lm stc" and ?sh = "server_hooks oss ssl ds sts"
  have mems: "69 \<le> length (d_mem (dc 0))" "69 \<le> length (d_mem (ds 0))"
    using client(5)[of 0] server(5) by (simp_all add: sending_draw_def layout_defs)
  let ?c1 = "\<lambda>f. ServerSession0\<lparr>cl_crypt := crypt0\<lparr>m_myPrivKey := Some a\<rparr>, cl_calls := 1, cl_wire := [f]\<rparr> :: 'k client"
  obtain f1 pa where f1: "GetPublicKeyBytes ssl a = Some pa" "key_packet Req_KeyExchange pa f1"
    "\<And>net. app net = ServerSession0 \<Longrightarrow> OnConnected ?ch cid net = Inr (net\<lparr>app := ?c1 f1\<rparr>)"
    using client_connects[OF ssl(1), of dc ServerSession0 lm stc] client(4) mems by (auto simp: ServerSession0_def)
  obtain cnet1 where c1: "ProcessConnect osc ?ch cid cnet = Inr cnet1" "rx_ready cid cnet1" "pending (m_recvBuffer (ses cid cnet1)) = []"
    "app cnet1 = ?c1 f1" using ProcessConnect_ready[OF client(3,1), of ?ch "?c1 f1"] f1(3) client(2) by auto
  define w where "w = GameSession_OnConnected sid ((sv_world sv)\<lparr>alive := (alive (sv_world sv))(sid := True),
    connected := (world.connected (sv_world sv))(sid := True)\<rparr>)"
  note w = server_connects[OF w_def]
  obtain snet1 where s1: "ProcessConnect oss ?sh sid snet = Inr snet1" "rx_ready sid snet1" "pending (m_recvBuffer (ses sid snet1)) = []"
    "app snet1 = (sv\<lparr>sv_world := w\<rparr>, 0)"
    using ProcessConnect_ready[OF server(3,1), of ?sh "(sv\<lparr>sv_world := w\<rparr>, 0)"] w(1)[OF _ refl, where n = 0] server(2) by metis
  obtain f2 pb where f2: "GetPublicKeyBytes ssl b = Some pb" "key_packet Res_KeyExchange pb f2"
    "takes ?sh sid (app snet1) f1 (server_agreed key sid f2 sv, 1)"
    using server_answers[OF ssl(1), of ds 0 pa f1 "sv\<lparr>sv_world := w\<rparr>" sid oss sts] server(4,6) mems f1 w(2) s1(4)
    by (auto simp: server_agreed_def w_def[symmetric] Let_def)
  obtain snet2 where s2: "receive oss ?sh sid (pieces 0 f1) f1 snet1 = Inr snet2" "rx_ready sid snet2"
    "app snet2 = (server_agreed key sid f2 sv, 1)" "pending (m_recvBuffer (ses sid snet2)) = []"
    using receive_one[OF server(3) s1(2,3) key_packetD(5)[OF f1(2)] f2(3)] network by blast
  obtain f3 where f3: "login_packet_of ssl key f3" "takes ?ch cid (app cnet1) f2 (client_agreed key f1 f3)"
    using client_logs_in[OF ssl, of dc "?c1 f1" lm pb f2 stc cid] client(5,6) f2 c1(4)
    by (auto simp: client_agreed_def numeral_2_eq_2)
  obtain cnet2 where c2: "receive osc ?ch cid (pieces 1 f2) f2 cnet1 = Inr cnet2" "rx_ready cid cnet2"
    "app cnet2 = client_agreed key f1 f3" "pending (m_recvBuffer (ses cid cnet2)) = []"
    using receive_one[OF client(3) c1(2,3) key_packetD(5)[OF f2(2)] f3(2)] network by blast
  show thesis using that[OF c1(1) _ s1(1) s2(1,3) c2(1,3) f3(1) s2(2,4) c2(2,4)] c1(4) by simp
qed

text \<open>(C5) A login, from the connection to the client that knows its account.  A client and a server that have just been connected
  exchange keys, the client sends its login under the agreed key, a database worker looks the account up, and the
  server's answer goes back under the same key; the network may cut each packet in any way.  With a library that
  does not fail, nothing in this exchange faults or is refused, and it ends in one of two ways.  If the client's
  password derives what the account row was made from, the session owns a player of the account and the client knows
  its id and name; otherwise the server has disconnected the session and the client closes its end.\<close>

theorem login_end_to_end:
  fixes cnet :: "'k client net" and snet :: "('k server \<times> nat) net"
  assumes ssl: "handshake_works ssl a b key" "gcm_ok ssl" "gcm_seals ssl key" "pbkdf2_ok ssl"
    and account: "length salt = SALT_BYTES" "HashPassword ssl (Some salt) password = Some (h, st)" "\<And>c. account_query db c testuser = Row i h st"
    and client: "fresh_session cid cnet" "app cnet = ServerSession0" "recv_accepted osc" "d_key (dc 0) = Some a"
      "\<And>n. sending_draw (dc n) \<and> d_ctx (dc n) \<and> length (stc n) = MAX_PLAIN_PACKET_SIZE" "size_of cls_ReqLogin \<le> length lm"
    and server: "fresh_session sid snet" "app snet = (sv, 0)" "recv_accepted oss" "d_key (ds 0) = Some b"
      "\<And>n. sending_draw (ds n) \<and> d_ctx (ds n) \<and> length (sts n) = MAX_PLAIN_PACKET_SIZE"
      "sv_crypt sv sid = crypt0" "db_idle sv" "\<not> login_done (sv_world sv) sid" "size_of cls_ResLogin \<le> length mem"
    and network: "\<And>k. \<forall>f. (\<forall>n \<in> set (pieces k f). 0 < n) \<and> length f \<le> length (pieces (k :: nat) f)"
    and right: "right \<longleftrightarrow> pbkdf2 ssl testpass salt PBKDF2_ITERATIONS HASH_BYTES = pbkdf2 ssl password salt PBKDF2_ITERATIONS HASH_BYTES"
    and m: "m = (if right then Msg_ResLogin i testuser else Msg_ResLoginFailed)"
  shows "\<exists>cnet1 f1 snet1 snet2 f2 cnet2 f3 snet3 sv4 g cnet3.
      ProcessConnect osc (client_hooks ssl dc lm stc) cid cnet = Inr cnet1 \<and> cl_wire (app cnet1) = [f1]
    \<and> ProcessConnect oss (server_hooks oss ssl ds sts) sid snet = Inr snet1
    \<and> receive oss (server_hooks oss ssl ds sts) sid (pieces 0 f1) f1 snet1 = Inr snet2 \<and> sv_wire (fst (app snet2)) = sv_wire sv @ [(sid, f2)]
    \<and> receive osc (client_hooks ssl dc lm stc) cid (pieces 1 f2) f2 cnet1 = Inr cnet2 \<and> cl_wire (app cnet2) = [f1, f3]
    \<and> receive oss (server_hooks oss ssl ds sts) sid (pieces 2 f3) f3 snet2 = Inr snet3 \<and> run_db ssl db (fst (app snet3)) = Some sv4
    \<and> outbox (sv_world sv4) = outbox (sv_world sv) @ [(sid, m)] \<and> GameSession_Send ssl (ds 2) (msg_bytes m mem) (sv_crypt sv4 sid) = Inr (SendBytes g)
    \<and> receive osc (client_hooks ssl dc lm stc) cid (pieces 3 g) g cnet2 = Inr cnet3
    \<and> (let p = length (players (sv_world sv)) in
       if right then player_of (sv_world sv4) sid = Some p \<and> GetPlayerId p (sv_world sv4) = i \<and> GetPlayerName p (sv_world sv4) = testuser
         \<and> cl_playerId (app cnet3) = i \<and> cl_playerName (app cnet3) = testuser \<and> cl_open (app cnet3)
       else \<not> world.connected (sv_world sv4) sid \<and> \<not> cl_open (app cnet3))"
proof -
  let ?ch = "client_hooks ssl dc lm stc" and ?sh = "server_hooks oss ssl ds sts"
  have draws: "sending_draw (dc n) \<and> d_ctx (dc n)" for n using client(5) by blast
  obtain cnet1 f1 snet1 snet2 f2 cnet2 f3 where k: "ProcessConnect osc ?ch cid cnet = Inr cnet1" "cl_wire (app cnet1) = [f1]"
    "ProcessConnect oss ?sh sid snet = Inr snet1" "receive oss ?sh sid (pieces 0 f1) f1 snet1 = Inr snet2"
    "app snet2 = (server_agreed key sid f2 sv, 1)" "receive osc ?ch cid (pieces 1 f2) f2 cnet1 = Inr cnet2" "app cnet2 = client_agreed key f1 f3"
    and f3: "login_packet_of ssl key f3" and s2: "rx_ready sid snet2" "pending (m_recvBuffer (ses sid snet2)) = []"
    and c2: "rx_ready cid cnet2" "pending (m_recvBuffer (ses cid cnet2)) = []"
    using keys_exchanged[where dc = dc and stc = stc and ds = ds and sts = sts and pieces = pieces, OF ssl(1,3) client(1-4) draws client(6) server(1-4) _ server(6) network]
      server(5)[of 0] by metis
  let ?sv = "server_agreed key sid f2 sv"
  obtain buf where buf: "c_str (bytes_at 4 16 buf) = testuser" "c_str (bytes_at 20 64 buf) = testpass"
    "takes ?sh sid (app snet2) f3 (snd (HandleReqLoginPacket buf sid ?sv), 1 + 1)"
    using server_takes_login[OF ssl(2) f3, of ds 1 sts ?sv sid oss] server(5)[of 1] k(5) by auto
  obtain snet3 where s3: "receive oss ?sh sid (pieces 2 f3) f3 snet2 = Inr snet3" "fst (app snet3) = snd (HandleReqLoginPacket buf sid ?sv)"
    using receive_one[OF server(3) s2 login_packet_shape(1)[OF ssl(2) f3] buf(3)] network by (metis fst_conv)
  have idle: "db_idle ?sv" "world.connected (sv_world ?sv) sid" "\<not> login_done (sv_world ?sv) sid" using server(7,8) by simp_all
  obtain sv4 where s4: "run_db ssl db (fst (app snet3)) = Some sv4" "sv_crypt sv4 = sv_crypt ?sv"
    "let p = length (players (sv_world sv)) in if right
     then player_of (sv_world sv4) sid = Some p \<and> GetPlayerId p (sv_world sv4) = i \<and> GetPlayerName p (sv_world sv4) = testuser
       \<and> outbox (sv_world sv4) = outbox (sv_world sv) @ [(sid, Msg_ResLogin i testuser)]
     else \<not> world.connected (sv_world sv4) sid \<and> outbox (sv_world sv4) = outbox (sv_world sv) @ [(sid, Msg_ResLoginFailed)]"
    using login_answered[OF ssl(4) account buf(1,2) idle] unfolding s3(2) server_agreed_simps(3,4) right by blast
  have fit: "size_of (msg_class m) \<le> length mem" "expected m" using server(9) by (simp_all add: m layout_defs)
  have crypt: "cl_crypt (app cnet2) = agreed key" by (simp add: k(7) client_agreed_def)
  obtain g cnet3 where g: "GameSession_Send ssl (ds 2) (msg_bytes m mem) (agreed key) = Inr (SendBytes g)"
    "receive osc ?ch cid (pieces 3 g) g cnet2 = Inr cnet3" "app cnet3 = client_step m (app cnet2)"
    using answer_received[where dc = dc and stacks = stc and pieces = "pieces 3", OF ssl(2,3) _ _ client(3) c2 crypt _ _ fit network, of "ds 2" lm]
      client(5) server(5)[of 2] by blast
  have "take 15 (c_str testuser) = testuser" by (simp add: testuser_def c_str_def)
  then have "if right then cl_playerId (app cnet3) = i \<and> cl_playerName (app cnet3) = testuser \<and> cl_open (app cnet3) else \<not> cl_open (app cnet3)"
    using g(3) k(7) by (simp add: m client_step_def client_agreed_def ServerSession0_def)
  then have ends: "let p = length (players (sv_world sv)) in
       if right then player_of (sv_world sv4) sid = Some p \<and> GetPlayerId p (sv_world sv4) = i \<and> GetPlayerName p (sv_world sv4) = testuser
         \<and> cl_playerId (app cnet3) = i \<and> cl_playerName (app cnet3) = testuser \<and> cl_open (app cnet3)
       else \<not> world.connected (sv_world sv4) sid \<and> \<not> cl_open (app cnet3)"
    using s4(3) unfolding Let_def by (cases right) simp_all
  have out: "outbox (sv_world sv4) = outbox (sv_world sv) @ [(sid, m)]" using s4(3) unfolding Let_def m by (cases right) simp_all
  have wires: "cl_wire (app cnet2) = [f1, f3]" "sv_wire (fst (app snet2)) = sv_wire sv @ [(sid, f2)]" "sv_crypt sv4 sid = agreed key"
    unfolding k(5,7) s4(2) client_agreed_def by simp_all
  show ?thesis
    by (intro exI conjI) (rule k(1-4,6) wires(1,2) s3(1) s4(1) out g(1)[folded wires(3)] g(2) ends)+
qed

text \<open>The keys 3 and 5, an account 5 with the client's password, and a network that delivers single bytes.\<close>

definition toy_key :: "byte list" where
  "toy_key = take 16 (replicate 32 (sum_list (label @ replicate 32 15)))"

definition fresh_heap :: "Session list" where
  "fresh_heap = map (\<lambda>s. s\<lparr>m_connected := False\<rparr>) (heap one_session)"

definition account_mysql :: "byte list \<Rightarrow> byte list \<Rightarrow> mysql" where
  "account_mysql h st = (toy_mysql h st)\<lparr>account_query := (\<lambda>c u. if u = testuser then Row 5 h st else NoRow)\<rparr>"

definition waiting_server :: "byte list \<Rightarrow> byte list \<Rightarrow> byte server" where
  "waiting_server h st = toy_server\<lparr>sv_crypt := (\<lambda>_. crypt0), sv_db := Some (snd (DbSystem_Init (account_mysql h st) 1 DbSystem0))\<rparr>"

lemma toy_handshake: "handshake_works toy_ssl 3 5 toy_key"
  using toy_ssl_ok(5) by (simp add: handshake_works_def toy_key_def GetPublicKeyBytes_def DeriveSharedSecret_def DeriveSessionKey_def toy_ssl_def)

lemma waiting_server_ok:
  "sv_crypt (waiting_server h st) sid = crypt0" "db_idle (waiting_server h st)" "\<not> login_done (sv_world (waiting_server h st)) sid"
  "outbox (sv_world (waiting_server h st)) = []"
  by (simp_all add: waiting_server_def toy_server_def world0_def db_idle_def account_mysql_def DbSystem_Init_def DbConnectionPool_Init_def
      pool_Init_loop_eq DbSystem0_def DbConnectionPool0_def IsReady_def toy_mysql_def try_connect_def Let_def)

theorem login_end_to_end_witness:
  "let os = (\<lambda>_. Err WSA_IO_PENDING); st = (\<lambda>_. replicate 1280 7); ch = client_hooks toy_ssl (\<lambda>_. toy_draw 3) (replicate 84 0) st;
       sh = server_hooks os toy_ssl (\<lambda>_. toy_draw 5) st; cut = (\<lambda>f. replicate (length f) 1) in
   \<exists>h s cnet1 f1 snet1 snet2 f2 cnet2 f3 snet3 sv4 g cnet3. HashPassword toy_ssl (Some (replicate 16 7)) testpass = Some (h, s)
     \<and> ProcessConnect os ch 0 (client_net\<lparr>heap := fresh_heap, app := ServerSession0\<rparr>) = Inr cnet1 \<and> cl_wire (app cnet1) = [f1]
     \<and> ProcessConnect os sh 0 (server_net\<lparr>heap := fresh_heap, app := (waiting_server h s, 0)\<rparr>) = Inr snet1
     \<and> receive os sh 0 (cut f1) f1 snet1 = Inr snet2 \<and> receive os ch 0 (cut f2) f2 cnet1 = Inr cnet2 \<and> cl_wire (app cnet2) = [f1, f3]
     \<and> receive os sh 0 (cut f3) f3 snet2 = Inr snet3 \<and> run_db toy_ssl (account_mysql h s) (fst (app snet3)) = Some sv4
     \<and> outbox (sv_world sv4) = [(0, Msg_ResLogin 5 testuser)] \<and> receive os ch 0 (cut g) g cnet2 = Inr cnet3
     \<and> cl_playerId (app cnet3) = 5 \<and> cl_playerName (app cnet3) = testuser"
proof -
  let ?os = "\<lambda>_. Err WSA_IO_PENDING" and ?st = "\<lambda>_. replicate 1280 7 :: byte list"
  let ?cnet = "client_net\<lparr>heap := fresh_heap, app := ServerSession0\<rparr>"
  obtain h st where hs: "HashPassword toy_ssl (Some (replicate 16 7)) testpass = Some (h, st)"
    by (simp add: HashPassword_def toy_ssl_def)
  let ?sv = "waiting_server h st" and ?snet = "server_net\<lparr>heap := fresh_heap, app := (waiting_server h st, 0)\<rparr>"
  have fresh: "fresh_session 0 ?cnet" "fresh_session 0 ?snet" by (simp_all add: fresh_session_def fresh_heap_def one_session_def)
  have apps: "app ?cnet = ServerSession0" "app ?snet = (?sv, 0)" by simp_all
  have rows: "account_query (account_mysql h st) c testuser = Row 5 h st" for c by (simp add: account_mysql_def)
  have os: "recv_accepted ?os" by (simp add: recv_accepted_def)
  have draws: "sending_draw (toy_draw k) \<and> d_ctx (toy_draw k) \<and> length (?st n) = MAX_PLAIN_PACKET_SIZE" for k n
    using toy_draw_ok(1,2)[of k] by (simp add: MAX_PLAIN_PACKET_SIZE_def)
  have mems: "size_of cls_ReqLogin \<le> length (replicate 84 0 :: byte list)" "size_of cls_ResLogin \<le> length (replicate 100 0 :: byte list)"
    "length (replicate 16 7 :: byte list) = SALT_BYTES" "d_key (toy_draw k) = Some k" for k
    by (simp_all add: layout_defs SALT_BYTES_def toy_draw_def)
  have cuts: "\<forall>f. (\<forall>n \<in> set (replicate (length f) (1 :: nat)). 0 < n) \<and> length (f :: byte list) \<le> length (replicate (length f) (1 :: nat))" by simp
  note login_end_to_end[where dc = "\<lambda>_. toy_draw 3" and ds = "\<lambda>_. toy_draw 5" and stc = ?st and sts = ?st and pieces = "\<lambda>_ f. replicate (length f) 1",
      OF toy_handshake toy_ssl_ok(1,6,3) mems(3) hs rows fresh(1) apps(1) os mems(4) draws mems(1) fresh(2) apps(2) os mems(4) draws
      waiting_server_ok(1-3) mems(2) cuts refl refl, unfolded if_P[OF refl] Let_def waiting_server_ok(4) append_Nil]
  then show ?thesis unfolding Let_def by (elim exE conjE) (intro exI conjI, rule hs, assumption+)
qed

end
