(* ===== verification/Web.thy ===== *)
theory Web
  imports Admin
begin

text \<open>
  \<^verbatim>\<open>DhNet_Web\<close>, the HTTP front of the administration service: \<^verbatim>\<open>GrpcAdminClient\<close>, the controllers and the exception
  filter.  The remote-procedure library and the web framework are parameters: \<open>channel\<close> turns what the service
  answered into what the caller of the library sees, a response or an \<^verbatim>\<open>RpcException\<close>; routing, model binding and
  serialisation belong to the framework.  A C# string is a list of UTF-16 code units; \<open>utf8\<close> is the encoding of
  the library.
\<close>

section \<open>Data\<close>

text \<open>The status codes of the library.\<close>

datatype StatusCode = OK | Cancelled | Unknown | InvalidArgument | DeadlineExceeded | NotFound | AlreadyExists
  | PermissionDenied | Unauthenticated | ResourceExhausted | FailedPrecondition | Aborted | OutOfRange | Unimplemented
  | Internal | Unavailable | DataLoss

fun code_name :: "StatusCode \<Rightarrow> string" where
  "code_name OK = ''OK''" | "code_name Cancelled = ''Cancelled''" | "code_name Unknown = ''Unknown''"
| "code_name InvalidArgument = ''InvalidArgument''" | "code_name DeadlineExceeded = ''DeadlineExceeded''"
| "code_name NotFound = ''NotFound''" | "code_name AlreadyExists = ''AlreadyExists''"
| "code_name PermissionDenied = ''PermissionDenied''" | "code_name Unauthenticated = ''Unauthenticated''"
| "code_name ResourceExhausted = ''ResourceExhausted''" | "code_name FailedPrecondition = ''FailedPrecondition''"
| "code_name Aborted = ''Aborted''" | "code_name OutOfRange = ''OutOfRange''" | "code_name Unimplemented = ''Unimplemented''"
| "code_name Internal = ''Internal''" | "code_name Unavailable = ''Unavailable''" | "code_name DataLoss = ''DataLoss''"

text \<open>An \<^verbatim>\<open>RpcException\<close> is its code and its detail.\<close>

type_synonym 'r rpc = "(StatusCode \<times> string) + 'r"

datatype Exception = ArgumentException string | KeyNotFoundException string | TimeoutException string
  | HttpRequestException string | ApplicationException string

fun Message :: "Exception \<Rightarrow> string" where
  "Message (ArgumentException m) = m" | "Message (KeyNotFoundException m) = m" | "Message (TimeoutException m) = m"
| "Message (HttpRequestException m) = m" | "Message (ApplicationException m) = m"

record HealthDto = h_Status :: string

record RoomDto =
  r_Id :: int
  r_Name :: string
  r_PlayerCount :: int
  r_Capacity :: int

record PlayerDto =
  p_Id :: uint64
  p_Name :: "byte list"
  p_LobbyIndex :: int
  p_RoomIndex :: int

record LobbyDto =
  l_Id :: int
  l_PlayerCount :: int
  l_Capacity :: int

section \<open>GrpcAdminClient\<close>

definition CreateHttpMappedException :: "StatusCode \<times> string \<Rightarrow> Exception" where
  "CreateHttpMappedException ex = (let (code, msg) = ex in case code of
       InvalidArgument \<Rightarrow> ArgumentException msg
     | NotFound \<Rightarrow> KeyNotFoundException msg
     | DeadlineExceeded \<Rightarrow> TimeoutException msg
     | Unavailable \<Rightarrow> HttpRequestException msg
     | _ \<Rightarrow> ApplicationException (''gRPC error ('' @ code_name code @ ''): '' @ msg))"

definition ExecuteAsync :: "'a rpc \<Rightarrow> Exception + 'a" where
  "ExecuteAsync rpcCall = map_sum CreateHttpMappedException id rpcCall"

definition HealthCheckAsync :: "string rpc \<Rightarrow> Exception + HealthDto" where
  "HealthCheckAsync call = ExecuteAsync (map_sum id (\<lambda>status. \<lparr>h_Status = status\<rparr>) call)"

definition ListRoomsAsync :: "RoomEntry list rpc \<Rightarrow> Exception + RoomDto list" where
  "ListRoomsAsync call = ExecuteAsync (map_sum id (map (\<lambda>r.
     \<lparr>r_Id = re_id r, r_Name = re_name r, r_PlayerCount = re_playerCount r, r_Capacity = re_capacity r\<rparr>)) call)"

definition ListPlayersAsync :: "PlayerEntry list rpc \<Rightarrow> Exception + PlayerDto list" where
  "ListPlayersAsync call = ExecuteAsync (map_sum id (map (\<lambda>p.
     \<lparr>p_Id = pe_id p, p_Name = pe_name p, p_LobbyIndex = pe_lobbyIndex p, p_RoomIndex = pe_roomIndex p\<rparr>)) call)"

definition ListLobbiesAsync :: "LobbyEntry list rpc \<Rightarrow> Exception + LobbyDto list" where
  "ListLobbiesAsync call = ExecuteAsync (map_sum id (map (\<lambda>l.
     \<lparr>l_Id = le_id l, l_PlayerCount = le_playerCount l, l_Capacity = le_capacity l\<rparr>)) call)"

text \<open>A response that reports failure is thrown as an exception of its own, inside the same \<^verbatim>\<open>try\<close>.\<close>

definition KickPlayerAsync :: "outcome_response rpc \<Rightarrow> Exception + bool" where
  "KickPlayerAsync call = ExecuteAsync (case call of
       Inl ex \<Rightarrow> Inl ex
     | Inr resp \<Rightarrow> if \<not> success resp then Inl (Unknown, detail resp) else Inr True)"

definition BroadcastAsync :: "outcome_response rpc \<Rightarrow> Exception + bool" where
  "BroadcastAsync call = ExecuteAsync (case call of
       Inl ex \<Rightarrow> Inl ex
     | Inr resp \<Rightarrow> if \<not> success resp then Inl (Unknown, detail resp) else Inr True)"

section \<open>Controllers and the exception filter\<close>

text \<open>An answer: the HTTP status and the body.\<close>

datatype body = Health HealthDto | Rooms "RoomDto list" | Players "PlayerDto list" | Lobbies "LobbyDto list"
  | Success | Error string

type_synonym http = "nat \<times> body"

definition HealthController_Get :: "string rpc \<Rightarrow> Exception + http" where
  "HealthController_Get call = map_sum id (\<lambda>result. (200, Health result)) (HealthCheckAsync call)"

definition RoomsController_Get :: "RoomEntry list rpc \<Rightarrow> Exception + http" where
  "RoomsController_Get call = map_sum id (\<lambda>rooms. (200, Rooms rooms)) (ListRoomsAsync call)"

definition PlayersController_Get :: "PlayerEntry list rpc \<Rightarrow> Exception + http" where
  "PlayersController_Get call = map_sum id (\<lambda>players. (200, Players players)) (ListPlayersAsync call)"

definition LobbiesController_Get :: "LobbyEntry list rpc \<Rightarrow> Exception + http" where
  "LobbiesController_Get call = map_sum id (\<lambda>lobbies. (200, Lobbies lobbies)) (ListLobbiesAsync call)"

definition PlayersController_Kick :: "outcome_response rpc \<Rightarrow> Exception + http" where
  "PlayersController_Kick call = map_sum id (\<lambda>_. (200, Success)) (KickPlayerAsync call)"

text \<open>\<^verbatim>\<open>Char.IsWhiteSpace\<close> and \<^verbatim>\<open>string.IsNullOrWhiteSpace\<close>.\<close>

definition IsWhiteSpace :: "uint16 \<Rightarrow> bool" where
  "IsWhiteSpace c \<longleftrightarrow> (9 \<le> c \<and> c \<le> 13) \<or> c = 0x20 \<or> c = 0x85 \<or> c = 0xA0 \<or> c = 0x1680 \<or> (0x2000 \<le> c \<and> c \<le> 0x200A)
     \<or> c = 0x2028 \<or> c = 0x2029 \<or> c = 0x202F \<or> c = 0x205F \<or> c = 0x3000"

definition IsNullOrWhiteSpace :: "uint16 list option \<Rightarrow> bool" where
  "IsNullOrWhiteSpace s = (case s of None \<Rightarrow> True | Some cs \<Rightarrow> list_all IsWhiteSpace cs)"

text \<open>The call is only made for a message; what it answers and does to the world is \<open>call\<close>.\<close>

definition RoomsController_Broadcast :: "uint16 list option \<Rightarrow> (uint16 list \<Rightarrow> world \<Rightarrow> outcome_response rpc \<times> world) \<Rightarrow> world \<Rightarrow>
    (Exception + http) \<times> world" where
  "RoomsController_Broadcast message call w =
     (if IsNullOrWhiteSpace message then (Inr (400, Error ''Message is required''), w)
      else map_prod (\<lambda>r. map_sum id (\<lambda>_. (200, Success)) (BroadcastAsync r)) id (call (the message) w))"

definition OnException :: "Exception \<Rightarrow> http" where
  "OnException ex = (case ex of
       TimeoutException _ \<Rightarrow> 504 | KeyNotFoundException _ \<Rightarrow> 404 | ArgumentException _ \<Rightarrow> 400 | HttpRequestException _ \<Rightarrow> 503
     | ApplicationException _ \<Rightarrow> 500, Error (Message ex))"

text \<open>An action behind the filter.\<close>

definition answer_http :: "Exception + http \<Rightarrow> http" where
  "answer_http r = (case r of Inl ex \<Rightarrow> OnException ex | Inr a \<Rightarrow> a)"

section \<open>Requests from end to end\<close>

text \<open>What the library promises: a response arrives with status \<open>OK\<close> only, another status is an exception with the
  code and the text the service gave.\<close>

definition channel_ok :: "(Status \<times> 'r \<Rightarrow> 'r rpc) \<Rightarrow> bool" where
  "channel_ok channel \<longleftrightarrow> (\<forall>r. channel (Status_OK, r) = Inr r) \<and> (\<forall>m r. channel (NOT_FOUND m, r) = Inl (NotFound, m))
     \<and> (\<forall>m r. channel (DEADLINE_EXCEEDED m, r) = Inl (DeadlineExceeded, m))"

text \<open>\<^verbatim>\<open>POST /players/{id}/kick\<close> and \<^verbatim>\<open>POST /rooms/{id}/broadcast\<close>, executed on a thread of the library.\<close>

definition post_kick :: "(Status \<times> outcome_response \<Rightarrow> outcome_response rpc) \<Rightarrow> uint64 \<Rightarrow> world \<Rightarrow> http \<times> world" where
  "post_kick channel i w = (case AdminServiceImpl_KickPlayer False True (Some i) w of
     (st, resp, w', _) \<Rightarrow> (answer_http (PlayersController_Kick (channel (st, resp))), w'))"

definition post_broadcast :: "(uint16 list \<Rightarrow> byte list) \<Rightarrow> (Status \<times> outcome_response \<Rightarrow> outcome_response rpc) \<Rightarrow> int \<Rightarrow>
    uint16 list option \<Rightarrow> world \<Rightarrow> http \<times> world" where
  "post_broadcast utf8 channel i message w = map_prod answer_http id (RoomsController_Broadcast message (\<lambda>m w.
     case AdminServiceImpl_Broadcast False True (Some (i, utf8 m)) w of (st, resp, w', _) \<Rightarrow> (channel (st, resp), w')) w)"

definition get_rooms :: "(Status \<times> RoomEntry list \<Rightarrow> RoomEntry list rpc) \<Rightarrow> world \<Rightarrow> http" where
  "get_rooms channel w = (case AdminServiceImpl_ListRooms False True w of
     (st, resp, _) \<Rightarrow> answer_http (RoomsController_Get (channel (st, resp))))"

lemmas web_defs = ExecuteAsync_def answer_http_def OnException_def CreateHttpMappedException_def

text \<open>(C20) Kicking over HTTP.  In every reachable world, \<^verbatim>\<open>POST /players/{id}/kick\<close> answers 200 exactly when the player is
  online, and then the player's session is disconnected, the id is gone from the player table and every other
  entry stays; for anybody else it answers 404 with the text of the game server and changes nothing.\<close>

theorem kick_over_http:
  assumes "wstep\<^sup>*\<^sup>* world0 w" "channel_ok channel"
  shows "case PlayerSystem_Find i w of
      None \<Rightarrow> post_kick channel i w = ((404, Error ''Player not found''), w)
    | Some p \<Rightarrow> \<exists>w'. post_kick channel i w = ((200, Success), w') \<and> \<not> connected w' (m_ownerSession (players w ! p))
        \<and> online w' = map_erase i (online w) \<and> PlayerSystem_Find i w' = None
        \<and> (\<forall>j. j \<noteq> i \<longrightarrow> PlayerSystem_Find j w' = PlayerSystem_Find j w)"
proof -
  obtain st resp w' where k: "AdminServiceImpl_KickPlayer False True (Some i) w = (st, resp, w', [])"
    "case PlayerSystem_Find i w of
         None \<Rightarrow> st = NOT_FOUND ''Player not found'' \<and> \<not> success resp \<and> w' = w
       | Some p \<Rightarrow> let s = m_ownerSession (players w ! p) in
           st = Status_OK \<and> success resp \<and> connected w s \<and> \<not> connected w' s \<and> player_of w' s = None
           \<and> online w' = map_erase i (online w) \<and> PlayerSystem_Find i w' = None
           \<and> (\<forall>j. j \<noteq> i \<longrightarrow> PlayerSystem_Find j w' = PlayerSystem_Find j w)"
    using KickPlayer_service[OF assms(1), of True i] by blast
  then show ?thesis using assms(2)
    by (auto simp: post_kick_def PlayersController_Kick_def KickPlayerAsync_def web_defs channel_ok_def Let_def split: option.splits)
qed

definition toy_channel :: "Status \<times> 'r \<Rightarrow> 'r rpc" where
  "toy_channel a = (case a of (Status_OK, r) \<Rightarrow> Inr r | (NOT_FOUND m, r) \<Rightarrow> Inl (NotFound, m) | (DEADLINE_EXCEEDED m, r) \<Rightarrow> Inl (DeadlineExceeded, m))"

lemma toy_channel_ok: "channel_ok toy_channel"
  by (simp add: channel_ok_def toy_channel_def)

theorem kick_over_http_witness:
  "\<exists>w w'. play demo_login world0 = Some w \<and> post_kick toy_channel 5 w = ((200, Success), w') \<and> \<not> connected w' 7
     \<and> post_kick toy_channel 6 w = ((404, Error ''Player not found''), w)"
proof -
  have "(case play demo_login world0 of Some w \<Rightarrow> PlayerSystem_Find 5 w = Some 0 \<and> PlayerSystem_Find 6 w = None
      \<and> m_ownerSession (players w ! 0) = 7 | None \<Rightarrow> False)"
    by code_simp
  then obtain w where w: "play demo_login world0 = Some w" "PlayerSystem_Find 5 w = Some 0" "PlayerSystem_Find 6 w = None"
    "m_ownerSession (players w ! 0) = 7" by (auto split: option.splits)
  note reach = play_reachable[OF w(1)]
  show ?thesis using kick_over_http[OF reach toy_channel_ok, of 5] kick_over_http[OF reach toy_channel_ok, of 6] w by auto
qed

text \<open>(C38) Broadcasting over HTTP.  A blank message is refused with 400 before the game server is asked; a message for a
  room that exists is queued there once and answered with 200; a room that does not exist is answered with 500,
  an internal error, although the game server only said that the room is not available.\<close>

theorem broadcast_over_http:
  assumes "channel_ok channel" "\<And>m. m \<noteq> [] \<Longrightarrow> utf8 m \<noteq> []"
  shows "post_broadcast utf8 channel i message w =
    (if IsNullOrWhiteSpace message then ((400, Error ''Message is required''), w)
     else case GetRoom (to_int32 i) w of
       None \<Rightarrow> ((500, Error ''gRPC error (Unknown): Room not available''), w)
     | Some r \<Rightarrow> ((200, Success), post_room r (RoomBroadcast (Msg_NotiRoomChat 0 ADMIN (c_str (utf8 (the message))))) w))"
proof (cases "IsNullOrWhiteSpace message")
  case True
  then show ?thesis by (simp add: post_broadcast_def RoomsController_Broadcast_def answer_http_def)
next
  case False
  then obtain m where m: "message = Some m" "m \<noteq> []" by (cases message) (fastforce simp: IsNullOrWhiteSpace_def)+
  then show ?thesis using False assms
    by (simp add: post_broadcast_def RoomsController_Broadcast_def AdminServiceImpl_Broadcast_def AdminBroadcast_def Dispatch_idle
        BroadcastAsync_def web_defs channel_ok_def split: option.split)
qed

theorem broadcast_over_http_witness:
  "post_broadcast (map ucast) toy_channel 3 (Some [104, 105]) world0 = ((500, Error ''gRPC error (Unknown): Room not available''), world0)
   \<and> post_broadcast (map ucast) toy_channel 3 (Some [32, 9]) world0 = ((400, Error ''Message is required''), world0)"
proof -
  have GetRoom_world0: "GetRoom j world0 = None" for j by (simp add: GetRoom_def world0_def)
  have e: "post_broadcast (map ucast) toy_channel 3 msg world0 =
      (if IsNullOrWhiteSpace msg then ((400, Error ''Message is required''), world0)
       else ((500, Error ''gRPC error (Unknown): Room not available''), world0))" for msg
    using broadcast_over_http[OF toy_channel_ok, of "map ucast" 3 msg world0] GetRoom_world0 by simp
  have "\<not> IsNullOrWhiteSpace (Some [104, 105])" "IsNullOrWhiteSpace (Some [32, 9])"
    by (simp_all add: IsNullOrWhiteSpace_def IsWhiteSpace_def)
  then show ?thesis by (simp add: e)
qed

end
