(* ===== verification/Workers.thy ===== *)
theory Workers
  imports JobQueue "HOL-Library.Multiset"
begin

text \<open>
  A worker thread of the server: \<^verbatim>\<open>GameServer::Job\<close>, \<^verbatim>\<open>ThreadManager::DoGlobalQueueWork\<close> and \<^verbatim>\<open>JobQueue::Execute\<close> over
  all job queues, with jobs that post further jobs and a clock that may run out at any reading.  Where the
  theory of one job queue interleaves threads, this one follows one worker through everything it runs.
\<close>

section \<open>State\<close>

text \<open>A job is its name and what it posts while it runs: a queue and a job, in order.\<close>

datatype job = Job string "(nat \<times> job) list"

record queue =
  q_jobs :: "job option list"
  q_count :: int

text \<open>\<open>reads\<close> counts the readings of the clock.\<close>

record worker =
  queues :: "queue list"
  GGlobalQueue :: "nat option list"
  LCurrentJobQueue :: "nat option"
  reads :: nat
  done_jobs :: "string list"

type_synonym clock = "nat \<Rightarrow> nat"

definition GetTickCount64 :: "clock \<Rightarrow> worker \<Rightarrow> nat \<times> worker" where
  "GetTickCount64 clk s = (clk (reads s), s\<lparr>reads := reads s + 1\<rparr>)"

definition upd_queue :: "nat \<Rightarrow> (queue \<Rightarrow> queue) \<Rightarrow> worker \<Rightarrow> worker" where
  "upd_queue q f s = s\<lparr>queues := (queues s)[q := f (queues s ! q)]\<rparr>"

section \<open>Operations\<close>

text \<open>\<open>Push\<close> from inside a job: the thread is executing a queue, so a queue that was empty goes to the global queue.\<close>

definition post_job :: "nat \<times> job \<Rightarrow> worker \<Rightarrow> worker" where
  "post_job p s = (let (q, j) = p; prevCount = q_count (queues s ! q);
       s1 = upd_queue q (\<lambda>x. x\<lparr>q_count := q_count x + 1, q_jobs := LockQueue_Push (Some j) (q_jobs x)\<rparr>) s
     in if prevCount = 0 then s1\<lparr>GGlobalQueue := GlobalQueue_Push q (GGlobalQueue s1)\<rparr> else s1)"

fun Job_Execute :: "job \<Rightarrow> worker \<Rightarrow> worker" where
  "Job_Execute (Job name posts) s = fold post_job posts (s\<lparr>done_jobs := done_jobs s @ [name]\<rparr>)"

partial_function (option) Execute_loop :: "clock \<Rightarrow> nat \<Rightarrow> nat \<Rightarrow> worker \<Rightarrow> worker option" where
  "Execute_loop clk LEndTickCount q s =
     (let (jobs, rest) = LockQueue_PopAll (q_jobs (queues s ! q));
          s = fold Job_Execute jobs (upd_queue q (\<lambda>x. x\<lparr>q_jobs := rest\<rparr>) s);
          jobCount = int (length jobs); prevCount = q_count (queues s ! q);
          s = upd_queue q (\<lambda>x. x\<lparr>q_count := q_count x - jobCount\<rparr>) s
      in if prevCount = jobCount then Some (s\<lparr>LCurrentJobQueue := None\<rparr>)
         else let (now, s) = GetTickCount64 clk s in
         if LEndTickCount \<le> now
         then Some (s\<lparr>LCurrentJobQueue := None, GGlobalQueue := GlobalQueue_Push q (GGlobalQueue s)\<rparr>)
         else Execute_loop clk LEndTickCount q s)"

definition Execute :: "clock \<Rightarrow> nat \<Rightarrow> nat \<Rightarrow> worker \<Rightarrow> worker option" where
  "Execute clk LEndTickCount q s = Execute_loop clk LEndTickCount q (s\<lparr>LCurrentJobQueue := Some q\<rparr>)"

partial_function (option) DoGlobalQueueWork :: "clock \<Rightarrow> nat \<Rightarrow> worker \<Rightarrow> worker option" where
  "DoGlobalQueueWork clk LEndTickCount s =
     (let (now, s) = GetTickCount64 clk s in
      if LEndTickCount < now then Some s
      else case GlobalQueue_Pop (GGlobalQueue s) of
        (None, g) \<Rightarrow> Some (s\<lparr>GGlobalQueue := g\<rparr>)
      | (Some q, g) \<Rightarrow> Option.bind (Execute clk LEndTickCount q (s\<lparr>GGlobalQueue := g\<rparr>)) (DoGlobalQueueWork clk LEndTickCount))"

text \<open>One turn of the loop of \<^verbatim>\<open>GameServer::Job\<close>; \<open>dispatch\<close> is what the completions of this turn do.\<close>

definition GameServer_Job :: "clock \<Rightarrow> (nat \<Rightarrow> worker \<Rightarrow> worker option) \<Rightarrow> worker \<Rightarrow> worker option" where
  "GameServer_Job clk dispatch s =
     (let (now, s) = GetTickCount64 clk s; LEndTickCount = now + 64
      in Option.bind (dispatch LEndTickCount s) (DoGlobalQueueWork clk LEndTickCount))"

text \<open>\<open>Push\<close> from anywhere.  From a completion, outside every job, whoever finds the queue empty executes it.\<close>

definition worker_Push :: "clock \<Rightarrow> nat \<Rightarrow> nat \<times> job \<Rightarrow> worker \<Rightarrow> worker option" where
  "worker_Push clk LEndTickCount p s = (let (q, j) = p; prevCount = q_count (queues s ! q);
       s1 = upd_queue q (\<lambda>x. x\<lparr>q_count := q_count x + 1, q_jobs := LockQueue_Push (Some j) (q_jobs x)\<rparr>) s
     in if prevCount = 0
        then if LCurrentJobQueue s1 \<noteq> None then Some (s1\<lparr>GGlobalQueue := GlobalQueue_Push q (GGlobalQueue s1)\<rparr>)
             else Execute clk LEndTickCount q s1
        else Some s1)"

text \<open>The pushes of the completions of one turn.\<close>

fun push_all :: "clock \<Rightarrow> (nat \<times> job) list \<Rightarrow> nat \<Rightarrow> worker \<Rightarrow> worker option" where
  "push_all clk [] LEndTickCount s = Some s"
| "push_all clk (p # ps) LEndTickCount s = Option.bind (worker_Push clk LEndTickCount p s) (push_all clk ps LEndTickCount)"

section \<open>What is left to run\<close>

fun names :: "job \<Rightarrow> string multiset" where
  "names (Job name posts) = add_mset name (sum_list (map (\<lambda>p. names (snd p)) posts))"

definition names_of :: "job list \<Rightarrow> string multiset" where
  "names_of js = sum_list (map names js)"

definition jobs_of :: "queue \<Rightarrow> job list" where
  "jobs_of x = map the (q_jobs x)"

text \<open>Every job that is queued anywhere or will be posted by such a job.\<close>

definition outstanding :: "worker \<Rightarrow> string multiset" where
  "outstanding s = sum_list (map (\<lambda>x. names_of (jobs_of x)) (queues s))"

text \<open>All queues a job posts to exist.\<close>

fun posts_ok :: "nat \<Rightarrow> job \<Rightarrow> bool" where
  "posts_ok n (Job name posts) \<longleftrightarrow> list_all (\<lambda>p. fst p < n \<and> posts_ok n (snd p)) posts"

text \<open>Between two jobs of a batch of queue \<open>q\<close>, of which \<open>n\<close> are not yet subtracted; without a queue being executed \<open>n\<close> is 0.
  A queue is in the global queue exactly when it has jobs and is not the one being executed.\<close>

definition consistent :: "nat option \<Rightarrow> nat \<Rightarrow> worker \<Rightarrow> bool" where
  "consistent cur n s \<longleftrightarrow> LCurrentJobQueue s = cur
   \<and> (\<forall>x \<in> set (queues s). None \<notin> set (q_jobs x) \<and> (\<forall>j \<in> set (jobs_of x). posts_ok (length (queues s)) j))
   \<and> (\<forall>q < length (queues s). q_count (queues s ! q) = int (length (q_jobs (queues s ! q)) + (if cur = Some q then n else 0)))
   \<and> (cur \<noteq> None \<longrightarrow> the cur < length (queues s) \<and> 0 < q_count (queues s ! the cur))
   \<and> distinct (GGlobalQueue s)
   \<and> set (GGlobalQueue s) = Some ` {q. q < length (queues s) \<and> q_jobs (queues s ! q) \<noteq> [] \<and> cur \<noteq> Some q}"

lemma sum_list_upd:
  "i < length xs \<Longrightarrow> sum_list (map f (xs[i := y])) + f (xs ! i) = sum_list (map f xs) + (f y :: 'a::comm_monoid_add)"
proof (induction xs arbitrary: i)
  case (Cons x xs)
  then show ?case by (cases i) (simp_all add: ac_simps)
qed simp

lemma all_updated: "\<forall>x \<in> set xs. P x \<Longrightarrow> P y \<Longrightarrow> \<forall>x \<in> set (xs[q := y]). P x"
  using set_update_subset_insert[of xs q y] by auto

lemma upd_queue_simps [simp]:
  "length (queues (upd_queue q f s)) = length (queues s)" "LCurrentJobQueue (upd_queue q f s) = LCurrentJobQueue s"
  "GGlobalQueue (upd_queue q f s) = GGlobalQueue s" "done_jobs (upd_queue q f s) = done_jobs s" "reads (upd_queue q f s) = reads s"
  "r < length (queues s) \<Longrightarrow> queues (upd_queue q f s) ! r = (if r = q then f (queues s ! q) else queues s ! r)"
  by (simp_all add: upd_queue_def nth_list_update)

lemma outstanding_upd:
  "q < length (queues s) \<Longrightarrow>
   outstanding (upd_queue q f s) + names_of (jobs_of (queues s ! q)) = outstanding s + names_of (jobs_of (f (queues s ! q)))"
  using sum_list_upd[of q "queues s" "\<lambda>x. names_of (jobs_of x)" "f (queues s ! q)"] by (simp add: outstanding_def upd_queue_def)

lemma outstanding_frames [simp]:
  "outstanding (s\<lparr>GGlobalQueue := g\<rparr>) = outstanding s" "outstanding (s\<lparr>LCurrentJobQueue := c\<rparr>) = outstanding s"
  "outstanding (s\<lparr>reads := r\<rparr>) = outstanding s" "outstanding (s\<lparr>done_jobs := d\<rparr>) = outstanding s"
  by (simp_all add: outstanding_def)

lemma names_of_simps [simp]:
  "names_of [] = {#}" "names_of (j # js) = names j + names_of js" "names_of (js @ ks) = names_of js + names_of ks"
  by (simp_all add: names_of_def)

section \<open>Running a batch\<close>

lemma post_job_ok:
  assumes c: "consistent (Some c) n s" and q: "q < length (queues s)" and j: "posts_ok (length (queues s)) j"
  shows "consistent (Some c) n (post_job (q, j) s)" "outstanding (post_job (q, j) s) = outstanding s + names j"
    "length (queues (post_job (q, j) s)) = length (queues s)" "done_jobs (post_job (q, j) s) = done_jobs s"
proof -
  let ?f = "\<lambda>x. x\<lparr>q_count := q_count x + 1, q_jobs := q_jobs x @ [Some j]\<rparr>"
  let ?s1 = "upd_queue q ?f s"
  have e: "post_job (q, j) s = (if q_count (queues s ! q) = 0 then ?s1\<lparr>GGlobalQueue := GGlobalQueue s @ [Some q]\<rparr> else ?s1)"
    by (simp add: post_job_def LockQueue_Push_def GlobalQueue_Push_def Let_def)
  have "jobs_of (?f (queues s ! q)) = jobs_of (queues s ! q) @ [j]" by (simp add: jobs_of_def)
  then have "outstanding ?s1 = outstanding s + names j" using outstanding_upd[OF q, of ?f] by simp
  then show "outstanding (post_job (q, j) s) = outstanding s + names j" by (simp add: e)
  show "length (queues (post_job (q, j) s)) = length (queues s)" "done_jobs (post_job (q, j) s) = done_jobs s" by (simp_all add: e)
  note c' = c[unfolded consistent_def]
  have qs: "queues (post_job (q, j) s) = (queues s)[q := ?f (queues s ! q)]" by (simp add: e upd_queue_def)
  have zero: "q_count (queues s ! q) = 0 \<longleftrightarrow> q_jobs (queues s ! q) = [] \<and> q \<noteq> c" using c' q by auto
  have "\<forall>x \<in> set (queues (post_job (q, j) s)). None \<notin> set (q_jobs x) \<and> (\<forall>k \<in> set (jobs_of x). posts_ok (length (queues s)) k)"
    unfolding qs
  proof (rule all_updated)
    have "queues s ! q \<in> set (queues s)" using q by simp
    then show "None \<notin> set (q_jobs (?f (queues s ! q))) \<and> (\<forall>k \<in> set (jobs_of (?f (queues s ! q))). posts_ok (length (queues s)) k)"
      using c' j by (auto simp: jobs_of_def)
  qed (use c' in blast)
  moreover have "distinct (GGlobalQueue (post_job (q, j) s))" using c' zero by (auto simp: e)
  moreover have "set (GGlobalQueue (post_job (q, j) s))
      = Some ` {r. r < length (queues s) \<and> q_jobs (queues (post_job (q, j) s) ! r) \<noteq> [] \<and> Some c \<noteq> Some r}"
    using c' zero q unfolding qs by (auto simp: e nth_list_update)
  ultimately show "consistent (Some c) n (post_job (q, j) s)"
    using c' q unfolding consistent_def by (auto simp: qs nth_list_update) (simp_all add: e)
qed

lemma posts_ok_fold:
  "consistent (Some c) n s \<Longrightarrow> list_all (\<lambda>p. fst p < length (queues s) \<and> posts_ok (length (queues s)) (snd p)) ps \<Longrightarrow>
   consistent (Some c) n (fold post_job ps s) \<and> outstanding (fold post_job ps s) = outstanding s + sum_list (map (\<lambda>p. names (snd p)) ps)
   \<and> length (queues (fold post_job ps s)) = length (queues s) \<and> done_jobs (fold post_job ps s) = done_jobs s"
proof (induction ps arbitrary: s)
  case (Cons p ps)
  obtain q j where p: "p = (q, j)" by fastforce
  note ok = post_job_ok[OF Cons.prems(1), of q j]
  show ?case using Cons.IH[of "post_job p s"] ok Cons.prems(2) by (simp add: p ac_simps)
qed simp

lemma Job_Execute_ok:
  assumes "consistent (Some c) n s" "posts_ok (length (queues s)) j"
  shows "consistent (Some c) n (Job_Execute j s)
    \<and> outstanding (Job_Execute j s) + mset (done_jobs (Job_Execute j s)) = outstanding s + mset (done_jobs s) + names j
    \<and> length (queues (Job_Execute j s)) = length (queues s) \<and> length (done_jobs (Job_Execute j s)) = length (done_jobs s) + 1"
proof (cases j)
  case (Job name posts)
  have "consistent (Some c) n (s\<lparr>done_jobs := done_jobs s @ [name]\<rparr>)" using assms(1) unfolding consistent_def by auto
  from posts_ok_fold[OF this, of posts] show ?thesis using assms(2) by (simp add: Job)
qed

lemma batch_ok:
  "consistent (Some c) n s \<Longrightarrow> \<forall>j \<in> set js. posts_ok (length (queues s)) j \<Longrightarrow>
   consistent (Some c) n (fold Job_Execute js s)
   \<and> outstanding (fold Job_Execute js s) + mset (done_jobs (fold Job_Execute js s)) = outstanding s + mset (done_jobs s) + names_of js
   \<and> length (queues (fold Job_Execute js s)) = length (queues s)
   \<and> length (done_jobs (fold Job_Execute js s)) = length (done_jobs s) + length js"
proof (induction js arbitrary: s)
  case (Cons j js)
  note ok = Job_Execute_ok[OF Cons.prems(1), of j]
  show ?case using Cons.IH[of "Job_Execute j s"] ok Cons.prems(2) by (simp add: ac_simps)
qed simp

section \<open>Executing a queue\<close>

lemma PopAll_jobs: "None \<notin> set xs \<Longrightarrow> LockQueue_PopAll xs = (map the xs, [])"
  by (induction xs rule: LockQueue_PopAll.induct) auto

lemma names_nonempty: "names j \<noteq> {#}"
  by (cases j) simp

text \<open>One round of the loop: take the batch, run it, subtract it.\<close>

definition round :: "nat \<Rightarrow> worker \<Rightarrow> worker" where
  "round q s = (let js = jobs_of (queues s ! q) in
     upd_queue q (\<lambda>x. x\<lparr>q_count := q_count x - int (length js)\<rparr>) (fold Job_Execute js (upd_queue q (\<lambda>x. x\<lparr>q_jobs := []\<rparr>) s)))"

lemma consistent_take:
  assumes "consistent (Some q) 0 s"
  shows "consistent (Some q) (length (jobs_of (queues s ! q))) (upd_queue q (\<lambda>x. x\<lparr>q_jobs := []\<rparr>) s)"
    "outstanding (upd_queue q (\<lambda>x. x\<lparr>q_jobs := []\<rparr>) s) + names_of (jobs_of (queues s ! q)) = outstanding s"
    "jobs_of (queues s ! q) \<noteq> []" "\<forall>j \<in> set (jobs_of (queues s ! q)). posts_ok (length (queues s)) j"
proof -
  let ?s = "upd_queue q (\<lambda>x. x\<lparr>q_jobs := []\<rparr>) s"
  note c = assms[unfolded consistent_def]
  have q: "q < length (queues s)" "queues s ! q \<in> set (queues s)" using c by auto
  show "outstanding ?s + names_of (jobs_of (queues s ! q)) = outstanding s"
    using outstanding_upd[OF q(1), of "\<lambda>x. x\<lparr>q_jobs := []\<rparr>"] by (simp add: jobs_of_def)
  show "jobs_of (queues s ! q) \<noteq> []" using c q(1) by (auto simp: jobs_of_def)
  show "\<forall>j \<in> set (jobs_of (queues s ! q)). posts_ok (length (queues s)) j" using c q(2) by auto
  have "\<forall>x \<in> set (queues ?s). None \<notin> set (q_jobs x) \<and> (\<forall>k \<in> set (jobs_of x). posts_ok (length (queues s)) k)"
    unfolding upd_queue_def by (simp, rule all_updated) (use c in \<open>auto simp: jobs_of_def\<close>)
  then show "consistent (Some q) (length (jobs_of (queues s ! q))) ?s"
    using c q unfolding consistent_def by (auto simp: jobs_of_def)
qed

lemma consistent_subtract:
  assumes c: "consistent (Some q) n s" "n \<noteq> 0"
    and s': "s' = upd_queue q (\<lambda>x. x\<lparr>q_count := q_count x - int n\<rparr>) s"
  shows "q_jobs (queues s ! q) = [] \<Longrightarrow> consistent None 0 (s'\<lparr>LCurrentJobQueue := None\<rparr>)"
    "q_jobs (queues s ! q) \<noteq> [] \<Longrightarrow> consistent (Some q) 0 s'"
    "q_jobs (queues s ! q) \<noteq> [] \<Longrightarrow> consistent None 0 (s'\<lparr>LCurrentJobQueue := None, GGlobalQueue := GGlobalQueue s' @ [Some q]\<rparr>)"
    "outstanding s' = outstanding s" "q_count (queues s ! q) = int n \<longleftrightarrow> q_jobs (queues s ! q) = []"
proof -
  note c = c(1)[unfolded consistent_def]
  have q: "q < length (queues s)" "queues s ! q \<in> set (queues s)" using c by auto
  show "outstanding s' = outstanding s"
    using outstanding_upd[OF q(1), of "\<lambda>x. x\<lparr>q_count := q_count x - int n\<rparr>"] by (simp add: s' jobs_of_def)
  show "q_count (queues s ! q) = int n \<longleftrightarrow> q_jobs (queues s ! q) = []" using c q(1) by auto
  have len: "length (queues s') = length (queues s)" by (simp add: s')
  have all: "\<forall>x \<in> set (queues s'). None \<notin> set (q_jobs x) \<and> (\<forall>k \<in> set (jobs_of x). posts_ok (length (queues s)) k)"
    unfolding s' upd_queue_def by (simp, rule all_updated) (use c q(2) in \<open>auto simp: jobs_of_def\<close>)
  have jobs: "q_jobs (queues s' ! r) = q_jobs (queues s ! r)" if "r < length (queues s)" for r using that by (simp add: s')
  have cnt: "q_count (queues s' ! r) = int (length (q_jobs (queues s ! r)))" if "r < length (queues s)" for r
    using that c by (simp add: s')
  have g: "GGlobalQueue s' = GGlobalQueue s" "LCurrentJobQueue s' = LCurrentJobQueue s" by (simp_all add: s')
  show "q_jobs (queues s ! q) = [] \<Longrightarrow> consistent None 0 (s'\<lparr>LCurrentJobQueue := None\<rparr>)"
    using c all by (auto simp: consistent_def len jobs cnt g)
  show "q_jobs (queues s ! q) \<noteq> [] \<Longrightarrow> consistent (Some q) 0 s'"
    using c all q(1) by (auto simp: consistent_def len jobs cnt g)
  show "q_jobs (queues s ! q) \<noteq> [] \<Longrightarrow> consistent None 0 (s'\<lparr>LCurrentJobQueue := None, GGlobalQueue := GGlobalQueue s' @ [Some q]\<rparr>)"
    using c all q(1) by (auto simp: consistent_def len jobs cnt g)
qed

lemma round_ok:
  assumes "consistent (Some q) 0 s"
  shows "if q_jobs (queues (round q s) ! q) = [] then consistent None 0 ((round q s)\<lparr>LCurrentJobQueue := None\<rparr>)
      else consistent (Some q) 0 (round q s)
        \<and> consistent None 0 ((round q s)\<lparr>LCurrentJobQueue := None, GGlobalQueue := GGlobalQueue (round q s) @ [Some q]\<rparr>)"
    and "outstanding (round q s) + mset (done_jobs (round q s)) = outstanding s + mset (done_jobs s) \<and> length (queues (round q s)) = length (queues s)"
    and "size (outstanding (round q s)) < size (outstanding s)"
    and "Execute_loop clk e q s = (if q_jobs (queues (round q s) ! q) = [] then Some ((round q s)\<lparr>LCurrentJobQueue := None\<rparr>)
      else let (now, s1) = GetTickCount64 clk (round q s) in
        if e \<le> now then Some (s1\<lparr>LCurrentJobQueue := None, GGlobalQueue := GGlobalQueue s1 @ [Some q]\<rparr>) else Execute_loop clk e q s1)"
proof -
  let ?js = "jobs_of (queues s ! q)"
  note t = consistent_take[OF assms]
  define s2 where "s2 = fold Job_Execute ?js (upd_queue q (\<lambda>x. x\<lparr>q_jobs := []\<rparr>) s)"
  have b: "consistent (Some q) (length ?js) s2" "outstanding s2 + mset (done_jobs s2) = outstanding s + mset (done_jobs s)"
    "length (done_jobs s2) = length (done_jobs s) + length ?js" "length (queues s2) = length (queues s)"
    using batch_ok[OF t(1), of ?js] t(2,4) by (simp_all add: s2_def ac_simps)
  have n: "length ?js \<noteq> 0" using t(3) by simp
  have r: "round q s = upd_queue q (\<lambda>x. x\<lparr>q_count := q_count x - int (length ?js)\<rparr>) s2" by (simp add: round_def s2_def Let_def)
  note sub = consistent_subtract[OF b(1) n r]
  have q: "q < length (queues s2)" "q < length (queues s)" using b(1) assms by (auto simp: consistent_def)
  have jobs: "q_jobs (queues (round q s) ! q) = q_jobs (queues s2 ! q)" using q(1) by (simp add: r)
  show "if q_jobs (queues (round q s) ! q) = [] then consistent None 0 ((round q s)\<lparr>LCurrentJobQueue := None\<rparr>)
      else consistent (Some q) 0 (round q s)
        \<and> consistent None 0 ((round q s)\<lparr>LCurrentJobQueue := None, GGlobalQueue := GGlobalQueue (round q s) @ [Some q]\<rparr>)"
    using sub(1-3) by (simp add: jobs)
  have d: "done_jobs (round q s) = done_jobs s2" by (simp add: r)
  show "outstanding (round q s) + mset (done_jobs (round q s)) = outstanding s + mset (done_jobs s) \<and> length (queues (round q s)) = length (queues s)"
    using b(2,4) sub(4) d by (simp add: r)
  then have "size (outstanding (round q s)) + length (done_jobs (round q s)) = size (outstanding s) + length (done_jobs s)"
    by (metis size_mset size_union)
  then show "size (outstanding (round q s)) < size (outstanding s)" using b(3) n unfolding d by linarith
  have "None \<notin> set (q_jobs (queues s ! q))" using assms q(2) by (simp add: consistent_def)
  then have pop: "LockQueue_PopAll (q_jobs (queues s ! q)) = (?js, [])" by (simp add: PopAll_jobs jobs_of_def)
  show "Execute_loop clk e q s = (if q_jobs (queues (round q s) ! q) = [] then Some ((round q s)\<lparr>LCurrentJobQueue := None\<rparr>)
      else let (now, s1) = GetTickCount64 clk (round q s) in
        if e \<le> now then Some (s1\<lparr>LCurrentJobQueue := None, GGlobalQueue := GGlobalQueue s1 @ [Some q]\<rparr>) else Execute_loop clk e q s1)"
    by (subst Execute_loop.simps) (simp add: pop s2_def[symmetric] r[symmetric] sub(5) jobs GetTickCount64_def GlobalQueue_Push_def LockQueue_Push_def Let_def)
qed

lemma consistent_tick [simp]: "consistent cur n (s\<lparr>reads := r\<rparr>) = consistent cur n s"
  "consistent cur n (s\<lparr>reads := r, LCurrentJobQueue := c, GGlobalQueue := g\<rparr>) = consistent cur n (s\<lparr>LCurrentJobQueue := c, GGlobalQueue := g\<rparr>)"
  by (simp_all add: consistent_def)

text \<open>\<open>Execute\<close> returns, whatever the clock says; it runs at least one job, and loses none.\<close>

lemma Execute_loop_ok:
  "consistent (Some q) 0 s \<Longrightarrow> \<exists>s'. Execute_loop clk e q s = Some s' \<and> consistent None 0 s' \<and> length (queues s') = length (queues s)
     \<and> outstanding s' + mset (done_jobs s') = outstanding s + mset (done_jobs s) \<and> size (outstanding s') < size (outstanding s)"
proof (induction "size (outstanding s)" arbitrary: s rule: less_induct)
  case less
  let ?r = "round q s"
  note r = round_ok[OF less.prems]
  let ?t = "?r\<lparr>reads := reads ?r + 1\<rparr>"
  have IH: "\<exists>s'. Execute_loop clk e q ?t = Some s' \<and> consistent None 0 s' \<and> length (queues s') = length (queues ?t)
     \<and> outstanding s' + mset (done_jobs s') = outstanding ?t + mset (done_jobs ?t) \<and> size (outstanding s') < size (outstanding ?t)"
    if "consistent (Some q) 0 ?r" using less.hyps[of ?t] r(3) that by simp
  consider "q_jobs (queues ?r ! q) = []" | "q_jobs (queues ?r ! q) \<noteq> []" "e \<le> clk (reads ?r)"
    | "q_jobs (queues ?r ! q) \<noteq> []" "\<not> e \<le> clk (reads ?r)" by blast
  then show ?case
  proof cases
    case 3
    then have c: "consistent (Some q) 0 ?r" and l: "Execute_loop clk e q s = Execute_loop clk e q ?t"
      using r(1) by (simp_all add: r(4) GetTickCount64_def)
    from IH[OF c] obtain s' where "Execute_loop clk e q ?t = Some s'" "consistent None 0 s'" "length (queues s') = length (queues ?r)"
      "outstanding s' + mset (done_jobs s') = outstanding ?r + mset (done_jobs ?r)" "size (outstanding s') < size (outstanding ?r)" by auto
    then show ?thesis using l r(2,3) by auto
  qed (use r(1-3) in \<open>auto simp: r(4) GetTickCount64_def\<close>)
qed

lemma Execute_ok:
  assumes "consistent None 0 s" "GGlobalQueue s = Some q # g"
  shows "\<exists>s'. Execute clk e q (s\<lparr>GGlobalQueue := g\<rparr>) = Some s' \<and> consistent None 0 s' \<and> length (queues s') = length (queues s)
     \<and> outstanding s' + mset (done_jobs s') = outstanding s + mset (done_jobs s) \<and> size (outstanding s') < size (outstanding s)"
proof -
  let ?s = "s\<lparr>GGlobalQueue := g, LCurrentJobQueue := Some q\<rparr>"
  note c = assms(1)[unfolded consistent_def assms(2)]
  have q: "q < length (queues s)" "q_jobs (queues s ! q) \<noteq> []" using c by auto
  have "insert (Some q) (set g) = Some ` {r. r < length (queues s) \<and> q_jobs (queues s ! r) \<noteq> []}" "Some q \<notin> set g" using c by auto
  then have "set g = Some ` {r. r < length (queues s) \<and> q_jobs (queues s ! r) \<noteq> []} - {Some q}" by (metis Diff_insert_absorb)
  then have "set g = Some ` {r. r < length (queues s) \<and> q_jobs (queues s ! r) \<noteq> [] \<and> Some q \<noteq> Some r}" by auto
  then have "consistent (Some q) 0 ?s" using c q by (auto simp: consistent_def)
  from Execute_loop_ok[OF this] show ?thesis by (simp add: Execute_def)
qed

section \<open>A turn of the worker\<close>

lemma outstanding_empty: "outstanding s = {#} \<longleftrightarrow> (\<forall>x \<in> set (queues s). q_jobs x = [])"
proof -
  have "names_of js = {#} \<longleftrightarrow> js = []" for js using names_nonempty by (cases js) auto
  moreover have "sum_list (map f xs) = {#} \<longleftrightarrow> (\<forall>x \<in> set xs. f x = {#})" for f :: "queue \<Rightarrow> string multiset" and xs
    by (induction xs) auto
  ultimately show ?thesis by (simp add: outstanding_def jobs_of_def)
qed

lemma global_empty: "consistent None 0 s \<Longrightarrow> GGlobalQueue s = [] \<Longrightarrow> outstanding s = {#}"
  by (auto simp: consistent_def outstanding_empty in_set_conv_nth)

lemma DoGlobalQueueWork_ok:
  "consistent None 0 s \<Longrightarrow> \<exists>s'. DoGlobalQueueWork clk e s = Some s' \<and> consistent None 0 s' \<and> length (queues s') = length (queues s)
     \<and> outstanding s' + mset (done_jobs s') = outstanding s + mset (done_jobs s)
     \<and> size (outstanding s') \<le> size (outstanding s)
     \<and> (clk (reads s) \<le> e \<and> outstanding s \<noteq> {#} \<longrightarrow> size (outstanding s') < size (outstanding s))
     \<and> ((\<forall>n. clk n \<le> e) \<longrightarrow> outstanding s' = {#})"
proof (induction "size (outstanding s)" arbitrary: s rule: less_induct)
  case less
  let ?t = "s\<lparr>reads := reads s + 1\<rparr>"
  consider "e < clk (reads s)" | "\<not> e < clk (reads s)" "GGlobalQueue s = []"
    | q g where "\<not> e < clk (reads s)" "GGlobalQueue s = Some q # g"
  proof (cases "GGlobalQueue s")
    case (Cons a g)
    moreover have "a \<noteq> None" using less.prems Cons by (auto simp: consistent_def)
    ultimately show ?thesis using that by (cases a) auto
  qed (use that in auto)
  then show ?case
  proof cases
    case 1
    then have "\<not> (\<forall>n. clk n \<le> e)" by (meson not_le)
    then show ?thesis using 1 less.prems by (subst DoGlobalQueueWork.simps) (auto simp: GetTickCount64_def)
  next
    case 2
    have "consistent None 0 (s\<lparr>reads := Suc (reads s), GGlobalQueue := []\<rparr>)" using less.prems 2(2) by (simp add: consistent_def)
    then show ?thesis using 2 global_empty[OF less.prems]
      by (subst DoGlobalQueueWork.simps) (auto simp: GetTickCount64_def GlobalQueue_Pop_def)
  next
    case (3 q g)
    obtain s1 where s1: "Execute clk e q (?t\<lparr>GGlobalQueue := g\<rparr>) = Some s1" "consistent None 0 s1"
      "outstanding s1 + mset (done_jobs s1) = outstanding s + mset (done_jobs s)" "size (outstanding s1) < size (outstanding s)"
      "length (queues s1) = length (queues s)"
      using Execute_ok[of ?t q g clk e] less.prems 3(2) by auto
    have "DoGlobalQueueWork clk e s = DoGlobalQueueWork clk e s1"
      using 3 s1(1) by (subst DoGlobalQueueWork.simps) (simp add: GetTickCount64_def GlobalQueue_Pop_def)
    moreover obtain s' where "DoGlobalQueueWork clk e s1 = Some s'" "consistent None 0 s'" "length (queues s') = length (queues s1)"
      "outstanding s' + mset (done_jobs s') = outstanding s1 + mset (done_jobs s1)" "(\<forall>n. clk n \<le> e) \<longrightarrow> outstanding s' = {#}"
      "size (outstanding s') \<le> size (outstanding s1)"
      using less.hyps[OF s1(4,2)] by auto
    ultimately show ?thesis using s1 by auto
  qed
qed

section \<open>Completions\<close>

lemma worker_Push_in_job: "LCurrentJobQueue s \<noteq> None \<Longrightarrow> worker_Push clk e p s = Some (post_job p s)"
  by (cases p) (simp add: worker_Push_def post_job_def Let_def)

lemma worker_Push_ok:
  assumes c: "consistent None 0 s" and q: "q < length (queues s)" and j: "posts_ok (length (queues s)) j"
  shows "\<exists>s'. worker_Push clk e (q, j) s = Some s' \<and> consistent None 0 s' \<and> length (queues s') = length (queues s)
    \<and> outstanding s' + mset (done_jobs s') = outstanding s + mset (done_jobs s) + names j
    \<and> size (outstanding s') \<le> size (outstanding s + names j)"
proof -
  let ?f = "\<lambda>x. x\<lparr>q_count := q_count x + 1, q_jobs := q_jobs x @ [Some j]\<rparr>"
  let ?s1 = "upd_queue q ?f s"
  note c' = c[unfolded consistent_def]
  have "jobs_of (?f (queues s ! q)) = jobs_of (queues s ! q) @ [j]" by (simp add: jobs_of_def)
  then have o1: "outstanding ?s1 = outstanding s + names j" using outstanding_upd[OF q, of ?f] by simp
  have qs: "queues ?s1 = (queues s)[q := ?f (queues s ! q)]" by (simp add: upd_queue_def)
  have all: "\<forall>x \<in> set (queues ?s1). None \<notin> set (q_jobs x) \<and> (\<forall>k \<in> set (jobs_of x). posts_ok (length (queues s)) k)"
    unfolding qs
  proof (rule all_updated)
    have "queues s ! q \<in> set (queues s)" using q by simp
    then show "None \<notin> set (q_jobs (?f (queues s ! q))) \<and> (\<forall>k \<in> set (jobs_of (?f (queues s ! q))). posts_ok (length (queues s)) k)"
      using c' j by (auto simp: jobs_of_def)
  qed (use c' in blast)
  have l: "LCurrentJobQueue s = None" "q_count (queues s ! q) = int (length (q_jobs (queues s ! q)))" using c' q by auto
  have cnt: "\<forall>r < length (queues ?s1). q_count (queues ?s1 ! r) = int (length (q_jobs (queues ?s1 ! r)))" using c' q by auto
  show ?thesis
  proof (cases "q_jobs (queues s ! q) = []")
    case True
    have "{r. r < length (queues s) \<and> q_jobs (queues ?s1 ! r) \<noteq> [] \<and> Some q \<noteq> Some r} = {r. r < length (queues s) \<and> q_jobs (queues s ! r) \<noteq> []}"
      using True by (auto split: if_splits)
    then have "set (GGlobalQueue ?s1) = Some ` {r. r < length (queues ?s1) \<and> q_jobs (queues ?s1 ! r) \<noteq> [] \<and> Some q \<noteq> Some r}"
      "distinct (GGlobalQueue ?s1)" "0 < q_count (queues ?s1 ! q)" using c' q l(2) by simp_all
    then have "consistent (Some q) 0 (?s1\<lparr>LCurrentJobQueue := Some q\<rparr>)"
      using q all cnt unfolding consistent_def by simp
    from Execute_loop_ok[OF this, of clk e] obtain s' where "Execute clk e q ?s1 = Some s'" "consistent None 0 s'"
      "length (queues s') = length (queues s)" "outstanding s' + mset (done_jobs s') = outstanding ?s1 + mset (done_jobs s)"
      "size (outstanding s') < size (outstanding ?s1)"
      by (auto simp: Execute_def)
    then show ?thesis using l True o1 by (simp add: worker_Push_def LockQueue_Push_def Let_def ac_simps)
  next
    case False
    have "{r. r < length (queues s) \<and> q_jobs (queues ?s1 ! r) \<noteq> []} = {r. r < length (queues s) \<and> q_jobs (queues s ! r) \<noteq> []}"
      using False by (auto split: if_splits)
    then have "consistent None 0 ?s1" using c' all cnt unfolding consistent_def by simp
    moreover have "worker_Push clk e (q, j) s = Some ?s1" using l False by (simp add: worker_Push_def LockQueue_Push_def Let_def)
    ultimately show ?thesis by (intro exI[of _ ?s1]) (simp only: o1 upd_queue_simps union_ac simp_thms order_refl)
  qed
qed

abbreviation posts_exist :: "nat \<Rightarrow> (nat \<times> job) list \<Rightarrow> bool" where
  "posts_exist n ps \<equiv> list_all (\<lambda>p. fst p < n \<and> posts_ok n (snd p)) ps"

lemma push_all_ok:
  "consistent None 0 s \<Longrightarrow> posts_exist (length (queues s)) ps \<Longrightarrow>
   \<exists>s'. push_all clk ps e s = Some s' \<and> consistent None 0 s' \<and> length (queues s') = length (queues s)
    \<and> outstanding s' + mset (done_jobs s') = outstanding s + mset (done_jobs s) + names_of (map snd ps)
    \<and> size (outstanding s') \<le> size (outstanding s + names_of (map snd ps))"
proof (induction ps arbitrary: s)
  case (Cons p ps)
  obtain q j where p: "p = (q, j)" by fastforce
  obtain s1 where s1: "worker_Push clk e p s = Some s1" "consistent None 0 s1" "length (queues s1) = length (queues s)"
    "outstanding s1 + mset (done_jobs s1) = outstanding s + mset (done_jobs s) + names j" "size (outstanding s1) \<le> size (outstanding s + names j)"
    using worker_Push_ok[OF Cons.prems(1), of q j clk e] Cons.prems(2) by (auto simp: p)
  then obtain s' where "push_all clk ps e s1 = Some s'" "consistent None 0 s'" "length (queues s') = length (queues s)"
    "outstanding s' + mset (done_jobs s') = outstanding s1 + mset (done_jobs s1) + names_of (map snd ps)"
    "size (outstanding s') \<le> size (outstanding s1 + names_of (map snd ps))"
    using Cons.IH[of s1] Cons.prems(2) by auto
  then show ?case using s1 by (simp add: p ac_simps)
qed simp

text \<open>Turns of the worker; the list has what the completions of each turn push.\<close>

fun worker_turns :: "clock \<Rightarrow> (nat \<times> job) list list \<Rightarrow> worker \<Rightarrow> worker option" where
  "worker_turns clk [] s = Some s"
| "worker_turns clk (ps # turns) s = Option.bind (GameServer_Job clk (push_all clk ps) s) (worker_turns clk turns)"

definition arriving :: "(nat \<times> job) list list \<Rightarrow> string multiset" where
  "arriving turns = names_of (map snd (concat turns))"

lemma GameServer_Job_ok:
  assumes "consistent None 0 s" "\<And>n. clk (n + 1) \<le> clk n + 64" "posts_exist (length (queues s)) ps"
  shows "\<exists>s'. GameServer_Job clk (push_all clk ps) s = Some s' \<and> consistent None 0 s' \<and> length (queues s') = length (queues s)
     \<and> outstanding s' + mset (done_jobs s') = outstanding s + mset (done_jobs s) + names_of (map snd ps)
     \<and> size (outstanding s') \<le> size (outstanding s + names_of (map snd ps))
     \<and> (ps = [] \<longrightarrow> size (outstanding s') \<le> size (outstanding s) - 1)"
proof -
  let ?t = "s\<lparr>reads := reads s + 1\<rparr>" and ?e = "clk (reads s) + 64"
  obtain s1 where s1: "push_all clk ps ?e ?t = Some s1" "consistent None 0 s1" "length (queues s1) = length (queues s)"
    "outstanding s1 + mset (done_jobs s1) = outstanding s + mset (done_jobs s) + names_of (map snd ps)"
    "size (outstanding s1) \<le> size (outstanding s + names_of (map snd ps))"
    using push_all_ok[of ?t ps clk ?e] assms(1,3) by auto
  obtain s' where s': "DoGlobalQueueWork clk ?e s1 = Some s'" "consistent None 0 s'" "length (queues s') = length (queues s1)"
    "outstanding s' + mset (done_jobs s') = outstanding s1 + mset (done_jobs s1)" "size (outstanding s') \<le> size (outstanding s1)"
    "clk (reads s1) \<le> ?e \<and> outstanding s1 \<noteq> {#} \<longrightarrow> size (outstanding s') < size (outstanding s1)"
    using DoGlobalQueueWork_ok[OF s1(2), of clk ?e] by blast
  have "size (outstanding s') \<le> size (outstanding s) - 1" if "ps = []"
    using that s1(1) s'(5,6) assms(2)[of "reads s"] by (cases "outstanding s = {#}") auto
  then show ?thesis using s1 s' by (simp add: GameServer_Job_def GetTickCount64_def)
qed

lemma quiet_turns:
  assumes "consistent None 0 s" "\<And>n. clk (n + 1) \<le> clk n + 64" "size (outstanding s) \<le> k"
  shows "\<exists>s'. worker_turns clk (replicate k []) s = Some s' \<and> mset (done_jobs s') = mset (done_jobs s) + outstanding s
    \<and> (\<forall>x \<in> set (queues s'). q_jobs x = [] \<and> q_count x = 0) \<and> GGlobalQueue s' = [] \<and> LCurrentJobQueue s' = None"
  using assms(1,3)
proof (induction k arbitrary: s)
  case 0
  then have e: "\<forall>x \<in> set (queues s). q_jobs x = []" using outstanding_empty[of s] by simp
  have "\<forall>x \<in> set (queues s). q_count x = int (length (q_jobs x))" using 0(1) by (auto simp: consistent_def in_set_conv_nth)
  then have "\<forall>x \<in> set (queues s). q_jobs x = [] \<and> q_count x = 0" using e by simp
  moreover have "set (GGlobalQueue s) = {}" using 0(1) e by (simp add: consistent_def)
  moreover have "outstanding s = {#}" "LCurrentJobQueue s = None" using 0 by (simp_all add: consistent_def)
  ultimately show ?case by simp
next
  case (Suc k)
  obtain s1 where s1: "GameServer_Job clk (push_all clk []) s = Some s1" "consistent None 0 s1"
    "outstanding s1 + mset (done_jobs s1) = outstanding s + mset (done_jobs s)" "size (outstanding s1) \<le> size (outstanding s) - 1"
    using GameServer_Job_ok[where clk = clk and ps = "[]", OF Suc.prems(1) assms(2)] by auto
  then have "size (outstanding s1) \<le> k" using Suc.prems(2) by simp
  from Suc.IH[OF s1(2) this] show ?case using s1(1,3) by (simp add: union_commute)
qed

text \<open>(C18) Everything that was posted runs.  Whatever jobs wait in the queues of a server, whatever jobs the completions of any
  number of turns push from outside, and whatever jobs all these post to any queue while they run, a worker whose clock
  advances by at most 64 milliseconds between two readings returns from every turn; and after as many further turns
  without completions as there were jobs it has run each of them exactly once and left every queue and the global
  queue empty.  The time limit may interrupt it after any batch; nothing is lost by that.\<close>

theorem worker_runs_everything:
  assumes "consistent None 0 s" "\<And>n. clk (n + 1) \<le> clk n + 64" "\<forall>ps \<in> set turns. posts_exist (length (queues s)) ps"
    and "size (outstanding s + arriving turns) \<le> k"
  shows "\<exists>s'. worker_turns clk (turns @ replicate k []) s = Some s'
    \<and> mset (done_jobs s') = mset (done_jobs s) + outstanding s + arriving turns
    \<and> (\<forall>x \<in> set (queues s'). q_jobs x = [] \<and> q_count x = 0) \<and> GGlobalQueue s' = [] \<and> LCurrentJobQueue s' = None"
  using assms(1,3,4)
proof (induction turns arbitrary: s)
  case Nil
  then show ?case using quiet_turns[where clk = clk and k = k, OF Nil(1) assms(2)] by (simp add: arriving_def)
next
  case (Cons ps turns)
  obtain s1 where s1: "GameServer_Job clk (push_all clk ps) s = Some s1" "consistent None 0 s1" "length (queues s1) = length (queues s)"
    "outstanding s1 + mset (done_jobs s1) = outstanding s + mset (done_jobs s) + names_of (map snd ps)"
    "size (outstanding s1) \<le> size (outstanding s + names_of (map snd ps))"
    using GameServer_Job_ok[where clk = clk and ps = ps, OF Cons.prems(1) assms(2)] Cons.prems(2) by auto
  have a: "arriving (ps # turns) = names_of (map snd ps) + arriving turns" by (simp add: arriving_def)
  obtain s' where "worker_turns clk (turns @ replicate k []) s1 = Some s'"
    "mset (done_jobs s') = mset (done_jobs s1) + outstanding s1 + arriving turns"
    "\<forall>x \<in> set (queues s'). q_jobs x = [] \<and> q_count x = 0" "GGlobalQueue s' = []" "LCurrentJobQueue s' = None"
    using Cons.IH[OF s1(2)] Cons.prems(2,3) s1(3,5) by (auto simp: a)
  then show ?case using s1(1,4) by (simp add: a ac_simps)
qed

text \<open>A lobby job that makes two rooms broadcast, and one of these answers to the lobby; meanwhile a completion enters a room.\<close>

definition three_queues :: worker where
  "three_queues = \<lparr>queues = [\<lparr>q_jobs = [Some (Job ''chat'' [(1, Job ''room1'' [(0, Job ''reply'' [])]), (2, Job ''room2'' [])])], q_count = 1\<rparr>,
     \<lparr>q_jobs = [], q_count = 0\<rparr>, \<lparr>q_jobs = [], q_count = 0\<rparr>], GGlobalQueue = [Some 0], LCurrentJobQueue = None, reads = 0, done_jobs = []\<rparr>"

theorem worker_runs_everything_witness:
  "\<exists>s'. worker_turns (\<lambda>n. 40 * n) ([(2, Job ''enter'' [(0, Job ''leave'' [])])] # replicate 6 []) three_queues = Some s'
     \<and> mset (done_jobs s') = {#''chat'', ''room1'', ''reply'', ''room2'', ''enter'', ''leave''#} \<and> GGlobalQueue s' = []"
proof -
  have "consistent None 0 three_queues"
    by (auto simp: consistent_def three_queues_def jobs_of_def numeral_3_eq_3 less_Suc_eq)
  moreover have "outstanding three_queues = {#''chat'', ''room1'', ''reply'', ''room2''#}"
    "arriving [[(2, Job ''enter'' [(0, Job ''leave'' [])])]] = {#''enter'', ''leave''#}"
    by (simp_all add: outstanding_def three_queues_def jobs_of_def arriving_def)
  ultimately show ?thesis
    using worker_runs_everything[of three_queues "\<lambda>n. 40 * n" "[[(2, Job ''enter'' [(0, Job ''leave'' [])])]]" 6] by (auto simp: three_queues_def)
qed

end
