(* ===== verification/Metrics.thy ===== *)
theory Metrics
  imports Prelude Complex_Main "HOL-Library.Multiset"
begin

text \<open>
  The measurements of the stress test: \<^verbatim>\<open>MetricsAggregator\<close> and \<^verbatim>\<open>ReportManager\<close>.  A \<^verbatim>\<open>double\<close> is a rational
  number here; rounding is left out.  Every method holds the lock of its object or is one atomic operation, so it is one step; of the report
  file the model keeps the rows and the totals, not their text.
\<close>

section \<open>MetricsAggregator\<close>

record MetricsSnapshot =
  successCount :: uint64
  timeoutCount :: uint64
  stuckCount :: uint64
  sampleCount :: nat
  minMs :: rat
  maxMs :: rat
  avgMs :: rat
  p50Ms :: rat
  p95Ms :: rat
  p99Ms :: rat

definition MetricsSnapshot0 :: MetricsSnapshot where
  "MetricsSnapshot0 = \<lparr>successCount = 0, timeoutCount = 0, stuckCount = 0, sampleCount = 0, minMs = 0, maxMs = 0, avgMs = 0,
     p50Ms = 0, p95Ms = 0, p99Ms = 0\<rparr>"

record MetricsAggregator =
  m_rttSamplesMs :: "rat list"
  m_successCount :: uint64
  m_timeoutCount :: uint64
  m_stuckCount :: uint64
  m_totalConnections :: uint64

definition MetricsAggregator0 :: MetricsAggregator where
  "MetricsAggregator0 = \<lparr>m_rttSamplesMs = [], m_successCount = 0, m_timeoutCount = 0, m_stuckCount = 0, m_totalConnections = 0\<rparr>"

definition RecordRtt :: "rat \<Rightarrow> MetricsAggregator \<Rightarrow> MetricsAggregator" where
  "RecordRtt ms a = a\<lparr>m_rttSamplesMs := m_rttSamplesMs a @ [ms], m_successCount := m_successCount a + 1\<rparr>"

definition RecordTimeout :: "MetricsAggregator \<Rightarrow> MetricsAggregator" where
  "RecordTimeout a = a\<lparr>m_timeoutCount := m_timeoutCount a + 1\<rparr>"

definition RecordStuck :: "MetricsAggregator \<Rightarrow> MetricsAggregator" where
  "RecordStuck a = a\<lparr>m_stuckCount := m_stuckCount a + 1\<rparr>"

definition RecordConnection :: "MetricsAggregator \<Rightarrow> MetricsAggregator" where
  "RecordConnection a = a\<lparr>m_totalConnections := m_totalConnections a + 1\<rparr>"

definition GetTotalConnections :: "MetricsAggregator \<Rightarrow> uint64" where
  "GetTotalConnections a = m_totalConnections a"

definition Percentile :: "rat list \<Rightarrow> rat \<Rightarrow> rat" where
  "Percentile xs p = (if xs = [] then 0
     else let idx = nat \<lfloor>p * rat_of_nat (length xs - 1)\<rfloor> in xs ! idx)"

definition GetSnapshotAndReset :: "MetricsAggregator \<Rightarrow> MetricsSnapshot \<times> MetricsAggregator" where
  "GetSnapshotAndReset a =
     (let samples = m_rttSamplesMs a;
          snapshot = MetricsSnapshot0\<lparr>successCount := m_successCount a, timeoutCount := m_timeoutCount a,
                       stuckCount := m_stuckCount a, sampleCount := length samples\<rparr>;
          a' = a\<lparr>m_rttSamplesMs := [], m_successCount := 0, m_timeoutCount := 0, m_stuckCount := 0\<rparr>;
          samples = sort samples
      in (if samples = [] then snapshot
          else snapshot\<lparr>minMs := hd samples, maxMs := last samples,
                 avgMs := sum_list samples / rat_of_nat (length samples),
                 p50Ms := Percentile samples (1 / 2), p95Ms := Percentile samples (95 / 100),
                 p99Ms := Percentile samples (99 / 100)\<rparr>, a'))"

section \<open>ReportManager\<close>

record IntervalReport =
  timestamp :: int
  totalConnections :: uint64
  snapshot :: MetricsSnapshot

type_synonym ReportManager = "IntervalReport list"

definition ReportInterval :: "int \<Rightarrow> ReportManager \<Rightarrow> MetricsAggregator \<Rightarrow> ReportManager \<times> MetricsAggregator" where
  "ReportInterval now m_history a =
     (let (snap, a') = GetSnapshotAndReset a;
          report = \<lparr>timestamp = now, totalConnections = GetTotalConnections a', snapshot = snap\<rparr>
      in (m_history @ [report], a'))"

record report_totals =
  totalSuccess :: uint64
  totalTimeout :: uint64
  totalStuck :: uint64
  weightedRttSum :: rat
  totalSamples :: uint64

fun sum_history :: "IntervalReport list \<Rightarrow> report_totals \<Rightarrow> report_totals" where
  "sum_history [] t = t"
| "sum_history (r # rs) t = (let s = snapshot r in sum_history rs
     (t\<lparr>totalSuccess := totalSuccess t + successCount s, totalTimeout := totalTimeout t + timeoutCount s,
        totalStuck := totalStuck t + stuckCount s, weightedRttSum := weightedRttSum t + avgMs s * rat_of_nat (sampleCount s),
        totalSamples := totalSamples t + of_nat (sampleCount s)\<rparr>))"

definition report_totals0 :: report_totals where
  "report_totals0 = \<lparr>totalSuccess = 0, totalTimeout = 0, totalStuck = 0, weightedRttSum = 0, totalSamples = 0\<rparr>"

text \<open>The rows, the last line (connections, totals, overall average) or nothing when the file cannot be opened.\<close>

type_synonym final_report = "IntervalReport list \<times> uint64 \<times> report_totals \<times> rat"

definition WriteFinalReport :: "int \<Rightarrow> bool \<Rightarrow> ReportManager \<Rightarrow> MetricsAggregator \<Rightarrow>
    final_report option \<times> ReportManager \<times> MetricsAggregator" where
  "WriteFinalReport now opens m_history a =
     (let (history, a') = ReportInterval now m_history a;
          t = sum_history history report_totals0;
          overallAvgRtt = (if totalSamples t > 0 then weightedRttSum t / rat_of_nat (unat (totalSamples t)) else 0)
      in (if \<not> opens then None
          else Some (history, if history = [] then 0 else totalConnections (last history), t, overallAvgRtt), history, a'))"

section \<open>One interval\<close>

lemma Percentile_mono:
  assumes "sorted xs" "xs \<noteq> []" "0 \<le> p" "p \<le> q" "q \<le> 1"
  shows "hd xs \<le> Percentile xs p" "Percentile xs p \<le> Percentile xs q" "Percentile xs q \<le> last xs"
proof -
  let ?n = "rat_of_nat (length xs - 1)"
  have pq: "p * ?n \<le> q * ?n" "q * ?n \<le> ?n" "0 \<le> p * ?n" "0 \<le> q * ?n"
    using assms by (auto intro: mult_right_mono mult_left_le_one_le)
  define i where "i = nat \<lfloor>p * ?n\<rfloor>"
  define j where "j = nat \<lfloor>q * ?n\<rfloor>"
  have P: "Percentile xs p = xs ! i" "Percentile xs q = xs ! j" using assms(2) by (simp_all add: Percentile_def i_def j_def Let_def)
  have ij: "i \<le> j" unfolding i_def j_def using pq(1) by (intro nat_mono floor_mono)
  have "\<lfloor>q * ?n\<rfloor> \<le> \<lfloor>?n\<rfloor>" using pq(2) by (rule floor_mono)
  then have j: "j \<le> length xs - 1" by (simp add: j_def)
  have len: "length xs - 1 < length xs" using assms(2) by simp
  show "hd xs \<le> Percentile xs p"
    using sorted_nth_mono[OF assms(1), of 0 i] ij j len assms(2) by (simp add: P hd_conv_nth)
  show "Percentile xs p \<le> Percentile xs q" using sorted_nth_mono[OF assms(1) ij] j len by (simp add: P)
  show "Percentile xs q \<le> last xs" using sorted_nth_mono[OF assms(1) j len] assms(2) by (simp add: P last_conv_nth)
qed

lemma sum_list_bounds:
  fixes xs :: "rat list"
  shows "\<forall>x \<in> set xs. l \<le> x \<and> x \<le> u \<Longrightarrow> rat_of_nat (length xs) * l \<le> sum_list xs \<and> sum_list xs \<le> rat_of_nat (length xs) * u"
  by (induction xs) (auto simp: algebra_simps intro: add_mono)

lemma sort_bounds: "xs \<noteq> [] \<Longrightarrow> x \<in> set xs \<Longrightarrow> hd (sort xs) \<le> x \<and> x \<le> last (sort xs)"
  for xs :: "rat list"
proof -
  assume ne: "xs \<noteq> []" and x: "x \<in> set xs"
  then obtain i where i: "i < length (sort xs)" "sort xs ! i = x" by (metis in_set_conv_nth set_sort)
  have n: "sort xs \<noteq> []" using ne by (metis length_0_conv length_sort)
  show ?thesis
    using sorted_nth_mono[OF sorted_sort[of xs], of 0 i] sorted_nth_mono[OF sorted_sort[of xs], of i "length (sort xs) - 1"] i n
    by (simp add: hd_conv_nth last_conv_nth)
qed

text \<open>The statistics of an interval are ordered, and its average lies between the extremes.\<close>

lemma snapshot_ordered:
  assumes "m_rttSamplesMs a \<noteq> []"
  shows "let s = fst (GetSnapshotAndReset a) in
    minMs s \<le> p50Ms s \<and> p50Ms s \<le> p95Ms s \<and> p95Ms s \<le> p99Ms s \<and> p99Ms s \<le> maxMs s \<and> minMs s \<le> avgMs s \<and> avgMs s \<le> maxMs s"
proof -
  let ?xs = "sort (m_rttSamplesMs a)"
  have ne: "?xs \<noteq> []" using assms by (metis length_0_conv length_sort)
  note pm = Percentile_mono[OF sorted_sort ne, of "1 / 2" "95 / 100"] Percentile_mono[OF sorted_sort ne, of "95 / 100" "99 / 100"]
  have pos: "0 < rat_of_nat (length (m_rttSamplesMs a))" using assms by simp
  have "rat_of_nat (length ?xs) * hd ?xs \<le> sum_list ?xs \<and> sum_list ?xs \<le> rat_of_nat (length ?xs) * last ?xs"
    using sort_bounds[OF assms] by (intro sum_list_bounds) auto
  then have "hd ?xs \<le> sum_list ?xs / rat_of_nat (length (m_rttSamplesMs a))" "sum_list ?xs / rat_of_nat (length (m_rttSamplesMs a)) \<le> last ?xs"
    using pos by (simp_all add: field_simps)
  then show ?thesis using pm ne by (simp add: GetSnapshotAndReset_def Let_def)
qed

section \<open>A whole run\<close>

datatype mevent = M_Rtt rat | M_Timeout | M_Stuck | M_Connection | M_Report int

fun metrics_event :: "mevent \<Rightarrow> ReportManager \<times> MetricsAggregator \<Rightarrow> ReportManager \<times> MetricsAggregator" where
  "metrics_event (M_Rtt ms) (h, a) = (h, RecordRtt ms a)"
| "metrics_event M_Timeout (h, a) = (h, RecordTimeout a)"
| "metrics_event M_Stuck (h, a) = (h, RecordStuck a)"
| "metrics_event M_Connection (h, a) = (h, RecordConnection a)"
| "metrics_event (M_Report now) (h, a) = ReportInterval now h a"

fun rtt_of :: "mevent \<Rightarrow> rat list" where
  "rtt_of (M_Rtt ms) = [ms]" | "rtt_of _ = []"

abbreviation rtts :: "mevent list \<Rightarrow> rat list" where
  "rtts es \<equiv> concat (map rtt_of es)"

text \<open>Nothing is lost between the history and the running counters.\<close>

definition accounted :: "mevent list \<Rightarrow> ReportManager \<Rightarrow> MetricsAggregator \<Rightarrow> bool" where
  "accounted es h a \<longleftrightarrow> (let t = sum_history h report_totals0 in
     totalSuccess t + m_successCount a = of_nat (length (rtts es))
   \<and> totalSamples t + of_nat (length (m_rttSamplesMs a)) = of_nat (length (rtts es))
   \<and> weightedRttSum t + sum_list (m_rttSamplesMs a) = sum_list (rtts es)
   \<and> totalTimeout t + m_timeoutCount a = of_nat (length (filter (\<lambda>e. e = M_Timeout) es))
   \<and> totalStuck t + m_stuckCount a = of_nat (length (filter (\<lambda>e. e = M_Stuck) es))
   \<and> m_totalConnections a = of_nat (length (filter (\<lambda>e. e = M_Connection) es)))"

lemma sum_history_append: "sum_history (h @ [r]) t = sum_history [r] (sum_history h t)"
  by (induction h arbitrary: t) (simp_all add: Let_def)

lemma snapshot_counts:
  "let (s, a') = GetSnapshotAndReset a in successCount s = m_successCount a \<and> timeoutCount s = m_timeoutCount a
     \<and> stuckCount s = m_stuckCount a \<and> sampleCount s = length (m_rttSamplesMs a)
     \<and> avgMs s * rat_of_nat (sampleCount s) = sum_list (m_rttSamplesMs a)
     \<and> a' = a\<lparr>m_rttSamplesMs := [], m_successCount := 0, m_timeoutCount := 0, m_stuckCount := 0\<rparr>"
proof -
  have "sum_list (sort (m_rttSamplesMs a)) = sum_list (m_rttSamplesMs a)"
    by (simp flip: sum_mset_sum_list)
  moreover have "sort (m_rttSamplesMs a) = [] \<longleftrightarrow> m_rttSamplesMs a = []" by (metis length_0_conv length_sort)
  ultimately show ?thesis by (simp add: GetSnapshotAndReset_def MetricsSnapshot0_def Let_def)
qed

lemma accounted_report:
  assumes "accounted es h a" "ReportInterval now h a = (h', a')"
  shows "accounted es h' a'" "m_successCount a' = 0" "m_timeoutCount a' = 0" "m_stuckCount a' = 0" "m_rttSamplesMs a' = []"
    "\<exists>r. h' = h @ [r] \<and> totalConnections r = m_totalConnections a"
proof -
  obtain s where s: "GetSnapshotAndReset a = (s, a')" "h' = h @ [\<lparr>timestamp = now, totalConnections = m_totalConnections a', snapshot = s\<rparr>]"
    using assms(2) by (auto simp: ReportInterval_def GetTotalConnections_def Let_def split: prod.splits)
  note c = snapshot_counts[of a, unfolded s(1) Let_def prod.case]
  have a': "m_successCount a' = 0" "m_timeoutCount a' = 0" "m_stuckCount a' = 0" "m_rttSamplesMs a' = []"
    "m_totalConnections a' = m_totalConnections a" using c by simp_all
  then show "m_successCount a' = 0" "m_timeoutCount a' = 0" "m_stuckCount a' = 0" "m_rttSamplesMs a' = []"
    "\<exists>r. h' = h @ [r] \<and> totalConnections r = m_totalConnections a" using s(2) by simp_all
  have avg: "avgMs s * rat_of_nat (sampleCount s) = sum_list (m_rttSamplesMs a)" using c by (elim conjE)
  have "sum_history h' report_totals0 = (let t = sum_history h report_totals0 in
      t\<lparr>totalSuccess := totalSuccess t + successCount s, totalTimeout := totalTimeout t + timeoutCount s,
        totalStuck := totalStuck t + stuckCount s, weightedRttSum := weightedRttSum t + sum_list (m_rttSamplesMs a),
        totalSamples := totalSamples t + of_nat (sampleCount s)\<rparr>)"
    unfolding s(2) sum_history_append by (simp add: Let_def avg)
  then show "accounted es h' a'" using assms(1) c a' by (simp add: accounted_def Let_def)
qed

lemma accounted_run:
  assumes "fold metrics_event es ([], MetricsAggregator0) = (h, a)"
  shows "accounted es h a"
  using assms
proof (induction es arbitrary: h a rule: rev_induct)
  case Nil
  then show ?case by (auto simp: accounted_def MetricsAggregator0_def report_totals0_def Let_def)
next
  case (snoc e es)
  obtain h1 a1 where p: "fold metrics_event es ([], MetricsAggregator0) = (h1, a1)" by fastforce
  note IH = snoc.IH[OF p]
  have step: "metrics_event e (h1, a1) = (h, a)" using snoc.prems p by simp
  show ?case
  proof (cases e)
    case (M_Report now)
    then show ?thesis using accounted_report(1)[OF IH, of now h a] step by (simp add: accounted_def)
  qed (use IH step in \<open>auto simp: accounted_def RecordRtt_def RecordTimeout_def RecordStuck_def RecordConnection_def Let_def add.assoc[symmetric]\<close>)
qed



end
