(* ===== verification/Scenario.thy ===== *)
theory Scenario
  imports Client Metrics
begin

text \<open>
  The stress test: the scripted sessions of \<^verbatim>\<open>DhNet_StressTest\<close>.  Time points are integers counting nanoseconds,
  as the steady clock does.  The registry maps session addresses to their state; \<open>Apply\<close> runs its function under the
  lock, so each handler and each advance is one step.
\<close>

section \<open>State and configuration\<close>

datatype ScenarioPhase = Handshaking | InLobby | AwaitingRoomEnter | InRoom | AwaitingRoomExit | Stuck

datatype ScenarioAction = ActNone | SendLobbyChat | SendRoomEnter | SendRoomChat | SendRoomExit | LogStuckRoomEnter | LogStuckRoomExit

record ScenarioState =
  phase :: ScenarioPhase
  phaseStartTime :: int
  lastActionTime :: int
  lobbyChatsSent :: int
  roomChatsSent :: int
  actionRetries :: int
  pingInFlight :: bool
  pingSentTime :: int
  lastPingSentTime :: int

definition ScenarioState0 :: ScenarioState where
  "ScenarioState0 = \<lparr>phase = Handshaking, phaseStartTime = 0, lastActionTime = 0, lobbyChatsSent = 0, roomChatsSent = 0,
     actionRetries = 0, pingInFlight = False, pingSentTime = 0, lastPingSentTime = 0\<rparr>"

record ScenarioConfig =
  lobbyChatCount :: int
  lobbyChatIntervalMs :: int
  roomChatCount :: int
  roomChatIntervalMs :: int
  roomActionTimeoutMs :: int
  maxRoomActionRetries :: int
  pingIntervalMs :: int
  pingTimeoutMs :: int

definition g_scenarioConfig :: ScenarioConfig where
  "g_scenarioConfig = \<lparr>lobbyChatCount = 2, lobbyChatIntervalMs = 1000, roomChatCount = 5, roomChatIntervalMs = 1000,
     roomActionTimeoutMs = 5000, maxRoomActionRetries = 3, pingIntervalMs = 200, pingTimeoutMs = 3000\<rparr>"

abbreviation milliseconds :: "int \<Rightarrow> int" where
  "milliseconds n \<equiv> n * 1000000"

section \<open>ScenarioStateRegistry\<close>

type_synonym registry = "nat \<Rightarrow> ScenarioState option"

definition Registry_Register :: "nat \<Rightarrow> registry \<Rightarrow> registry" where
  "Registry_Register s m_states = m_states(s := Some ScenarioState0)"

definition Registry_Unregister :: "nat \<Rightarrow> registry \<Rightarrow> registry" where
  "Registry_Unregister s m_states = m_states(s := None)"

text \<open>\<open>Apply\<close> with a function that also decides something; \<open>dflt\<close> is the decision when the session is unknown.\<close>

definition Registry_Apply :: "nat \<Rightarrow> (ScenarioState \<Rightarrow> 'r \<times> ScenarioState) \<Rightarrow> 'r \<Rightarrow> registry \<Rightarrow> 'r \<times> registry" where
  "Registry_Apply s func dflt m_states = (case m_states s of
       None \<Rightarrow> (dflt, m_states)
     | Some st \<Rightarrow> (let (r, st') = func st in (r, m_states(s := Some st'))))"

text \<open>The process: registry, metrics, the player ids the login handler stored, and what was sent on which session.\<close>

record stress =
  states :: registry
  metrics :: MetricsAggregator
  playerIds :: "nat \<Rightarrow> uint64"
  requests :: "(nat \<times> creq) list"

definition request :: "nat \<Rightarrow> creq \<Rightarrow> stress \<Rightarrow> stress" where
  "request s r p = p\<lparr>requests := requests p @ [(s, r)]\<rparr>"

section \<open>Handlers\<close>

definition Scenario_HandleResLobbyEnterPacket :: "int \<Rightarrow> nat \<Rightarrow> stress \<Rightarrow> bool \<times> stress" where
  "Scenario_HandleResLobbyEnterPacket now s p =
     (True, p\<lparr>states := snd (Registry_Apply s (\<lambda>st. ((), st\<lparr>phase := InLobby, phaseStartTime := now,
        lastActionTime := now, lobbyChatsSent := 0\<rparr>)) () (states p))\<rparr>)"

definition Scenario_HandleNotiRoomEnterPacket :: "int \<Rightarrow> byte list \<Rightarrow> nat \<Rightarrow> stress \<Rightarrow> bool \<times> stress" where
  "Scenario_HandleNotiRoomEnterPacket now mem s p =
     (if get64 (offset cls_NotiRoomEnter 0) mem \<noteq> playerIds p s then (True, p)
      else (True, p\<lparr>states := snd (Registry_Apply s (\<lambda>st. ((), st\<lparr>phase := InRoom, phaseStartTime := now,
        lastActionTime := now, roomChatsSent := 0\<rparr>)) () (states p))\<rparr>))"

definition Scenario_HandleIgnoredBroadcastPacket :: "stress \<Rightarrow> bool \<times> stress" where
  "Scenario_HandleIgnoredBroadcastPacket p = (True, p)"

text \<open>The decision \<^verbatim>\<open>AdvanceScenario\<close> takes under the lock.\<close>

definition advance_state :: "ScenarioConfig \<Rightarrow> int \<Rightarrow> ScenarioState \<Rightarrow> ScenarioAction \<times> ScenarioState" where
  "advance_state cfg now st = (case phase st of
       InLobby \<Rightarrow>
         if lobbyChatsSent st < lobbyChatCount cfg \<and> now - lastActionTime st \<ge> milliseconds (lobbyChatIntervalMs cfg)
         then (SendLobbyChat, st\<lparr>lobbyChatsSent := lobbyChatsSent st + 1, lastActionTime := now\<rparr>)
         else if lobbyChatsSent st \<ge> lobbyChatCount cfg
         then (SendRoomEnter, st\<lparr>phase := AwaitingRoomEnter, phaseStartTime := now, actionRetries := 0\<rparr>)
         else (ActNone, st)
     | AwaitingRoomEnter \<Rightarrow>
         if now - phaseStartTime st \<ge> milliseconds (roomActionTimeoutMs cfg)
         then if actionRetries st \<ge> maxRoomActionRetries cfg then (LogStuckRoomEnter, st\<lparr>phase := Stuck\<rparr>)
              else (SendRoomEnter, st\<lparr>actionRetries := actionRetries st + 1, phaseStartTime := now\<rparr>)
         else (ActNone, st)
     | InRoom \<Rightarrow>
         if roomChatsSent st < roomChatCount cfg \<and> now - lastActionTime st \<ge> milliseconds (roomChatIntervalMs cfg)
         then (SendRoomChat, st\<lparr>roomChatsSent := roomChatsSent st + 1, lastActionTime := now\<rparr>)
         else if roomChatsSent st \<ge> roomChatCount cfg
         then (SendRoomExit, st\<lparr>phase := AwaitingRoomExit, phaseStartTime := now, actionRetries := 0\<rparr>)
         else (ActNone, st)
     | AwaitingRoomExit \<Rightarrow>
         if now - phaseStartTime st \<ge> milliseconds (roomActionTimeoutMs cfg)
         then if actionRetries st \<ge> maxRoomActionRetries cfg then (LogStuckRoomExit, st\<lparr>phase := Stuck\<rparr>)
              else (SendRoomExit, st\<lparr>actionRetries := actionRetries st + 1, phaseStartTime := now\<rparr>)
         else (ActNone, st)
     | _ \<Rightarrow> (ActNone, st))"

definition lobby_text :: "byte list" where
  "lobby_text = map (\<lambda>c. of_nat (of_char c)) ''StressTest lobby chat''"

definition room_text :: "byte list" where
  "room_text = map (\<lambda>c. of_nat (of_char c)) ''StressTest room chat''"

definition AdvanceScenario :: "ScenarioConfig \<Rightarrow> int \<Rightarrow> nat \<Rightarrow> stress \<Rightarrow> stress" where
  "AdvanceScenario cfg now s p =
     (let (action, m) = Registry_Apply s (advance_state cfg now) ActNone (states p); p1 = p\<lparr>states := m\<rparr> in
      case action of
        SendLobbyChat \<Rightarrow> request s (CReqLobbyChat lobby_text) p1
      | SendRoomEnter \<Rightarrow> request s CReqRoomEnter p1
      | SendRoomChat \<Rightarrow> request s (CReqRoomChat room_text) p1
      | SendRoomExit \<Rightarrow> request s CReqRoomExit p1
      | LogStuckRoomEnter \<Rightarrow> p1\<lparr>metrics := RecordStuck (metrics p1)\<rparr>
      | LogStuckRoomExit \<Rightarrow> p1\<lparr>metrics := RecordStuck (metrics p1)\<rparr>
      | ActNone \<Rightarrow> p1)"

text \<open>The round trip time in milliseconds, when a ping was waiting for its answer.\<close>

definition Scenario_HandleResTestPacket :: "int \<Rightarrow> nat \<Rightarrow> stress \<Rightarrow> bool \<times> stress" where
  "Scenario_HandleResTestPacket now s p =
     (let (rtt, m) = Registry_Apply s (\<lambda>st. if \<not> pingInFlight st then (None, st)
            else (Some (of_int (now - pingSentTime st) / 1000000 :: rat), st\<lparr>pingInFlight := False\<rparr>)) None (states p);
          p1 = p\<lparr>states := m\<rparr>
      in (True, case rtt of Some ms \<Rightarrow> p1\<lparr>metrics := RecordRtt ms (metrics p1)\<rparr> | None \<Rightarrow> p1))"

text \<open>The decision of \<^verbatim>\<open>AdvancePing\<close>: whether to record a time-out, whether to send a ping.\<close>

definition ping_state :: "ScenarioConfig \<Rightarrow> int \<Rightarrow> ScenarioState \<Rightarrow> (bool \<times> bool) \<times> ScenarioState" where
  "ping_state cfg now st =
     (let late = (pingInFlight st \<and> now - pingSentTime st \<ge> milliseconds (pingTimeoutMs cfg));
          st1 = (if late then st\<lparr>pingInFlight := False\<rparr> else st);
          due = (\<not> pingInFlight st1 \<and> now - lastPingSentTime st1 \<ge> milliseconds (pingIntervalMs cfg))
      in ((late, due), if due then st1\<lparr>pingInFlight := True, pingSentTime := now, lastPingSentTime := now\<rparr> else st1))"

definition AdvancePing :: "ScenarioConfig \<Rightarrow> int \<Rightarrow> nat \<Rightarrow> stress \<Rightarrow> stress" where
  "AdvancePing cfg now s p =
     (let ((late, due), m) = Registry_Apply s (ping_state cfg now) (False, False) (states p);
          p1 = p\<lparr>states := m\<rparr>;
          p2 = (if late then p1\<lparr>metrics := RecordTimeout (metrics p1)\<rparr> else p1)
      in if due then request s CPing p2 else p2)"

section \<open>main.cpp\<close>

text \<open>What the factory of \<^verbatim>\<open>MakeService\<close> hangs into a session.\<close>

definition OnConnectedExtra :: "nat \<Rightarrow> stress \<Rightarrow> stress" where
  "OnConnectedExtra s p = p\<lparr>states := Registry_Register s (states p), metrics := RecordConnection (metrics p)\<rparr>"

definition OnDisconnectedExtra :: "nat \<Rightarrow> stress \<Rightarrow> stress" where
  "OnDisconnectedExtra s p = p\<lparr>states := Registry_Unregister s (states p)\<rparr>"

text \<open>The tick over all sessions.\<close>

definition stress_tick :: "ScenarioConfig \<Rightarrow> int \<Rightarrow> nat list \<Rightarrow> stress \<Rightarrow> stress" where
  "stress_tick cfg now sessions p = fold (\<lambda>s p. AdvancePing cfg now s (AdvanceScenario cfg now s p)) sessions p"

section \<open>A session nobody answers\<close>

fun ticks :: "ScenarioConfig \<Rightarrow> int list \<Rightarrow> ScenarioState \<Rightarrow> ScenarioAction list \<times> ScenarioState" where
  "ticks cfg [] st = ([], st)"
| "ticks cfg (t # ts) st = (let (a, st1) = advance_state cfg t st; (as, st2) = ticks cfg ts st1 in (a # as, st2))"

text \<open>Ticks that are at least \<open>gap\<close> apart, the first at least \<open>gap\<close> after \<open>t0\<close>.\<close>

fun spaced :: "int \<Rightarrow> int \<Rightarrow> int list \<Rightarrow> bool" where
  "spaced gap t0 [] \<longleftrightarrow> True"
| "spaced gap t0 (t # ts) \<longleftrightarrow> t0 + gap \<le> t \<and> spaced gap t ts"

abbreviation occurs :: "ScenarioAction \<Rightarrow> ScenarioAction list \<Rightarrow> int" where
  "occurs a as \<equiv> int (length (filter (\<lambda>b. b = a) as))"

text \<open>On the way into a room, with sane counters, everything that starts a wait happened before \<open>t0\<close>.\<close>

definition entering :: "ScenarioConfig \<Rightarrow> int \<Rightarrow> ScenarioState \<Rightarrow> bool" where
  "entering cfg t0 st \<longleftrightarrow> 0 \<le> maxRoomActionRetries cfg \<and> (case phase st of
       InLobby \<Rightarrow> 0 \<le> lobbyChatsSent st \<and> lobbyChatsSent st \<le> lobbyChatCount cfg \<and> lastActionTime st \<le> t0
     | AwaitingRoomEnter \<Rightarrow> 0 \<le> actionRetries st \<and> actionRetries st \<le> maxRoomActionRetries cfg \<and> phaseStartTime st \<le> t0
     | Stuck \<Rightarrow> True
     | _ \<Rightarrow> False)"

text \<open>How many ticks with an action are left, how many room requests, how many lobby chats.\<close>

definition steps_left :: "ScenarioConfig \<Rightarrow> ScenarioState \<Rightarrow> int" where
  "steps_left cfg st = (case phase st of
       InLobby \<Rightarrow> lobbyChatCount cfg - lobbyChatsSent st + maxRoomActionRetries cfg + 2
     | AwaitingRoomEnter \<Rightarrow> maxRoomActionRetries cfg - actionRetries st + 1
     | _ \<Rightarrow> 0)"

definition enters_left :: "ScenarioConfig \<Rightarrow> ScenarioState \<Rightarrow> int" where
  "enters_left cfg st = (case phase st of
       InLobby \<Rightarrow> maxRoomActionRetries cfg + 1
     | AwaitingRoomEnter \<Rightarrow> maxRoomActionRetries cfg - actionRetries st
     | _ \<Rightarrow> 0)"

definition chats_left :: "ScenarioConfig \<Rightarrow> ScenarioState \<Rightarrow> int" where
  "chats_left cfg st = (case phase st of InLobby \<Rightarrow> lobbyChatCount cfg - lobbyChatsSent st | _ \<Rightarrow> 0)"

lemmas left_defs = entering_def steps_left_def enters_left_def chats_left_def

lemma entering_tick:
  assumes "entering cfg t0 st" "t0 \<le> t" "advance_state cfg t st = (a, st')"
  shows "entering cfg t st'" "enters_left cfg st' + of_bool (a = SendRoomEnter) \<le> enters_left cfg st"
    "chats_left cfg st' + of_bool (a = SendLobbyChat) \<le> chats_left cfg st"
    "t0 + milliseconds (lobbyChatIntervalMs cfg) \<le> t \<Longrightarrow> t0 + milliseconds (roomActionTimeoutMs cfg) \<le> t \<Longrightarrow>
       steps_left cfg st' = max 0 (steps_left cfg st - 1)"
  using assms by (cases "phase st"; auto simp: advance_state_def left_defs split: if_splits)+

lemma left_nonneg: "entering cfg t st \<Longrightarrow> 0 \<le> enters_left cfg st \<and> 0 \<le> chats_left cfg st"
  by (cases "phase st") (auto simp: left_defs)

lemma ticks_bounded:
  assumes "entering cfg t0 st" "spaced 0 t0 ts" "ticks cfg ts st = (as, st')"
  shows "occurs SendRoomEnter as \<le> enters_left cfg st \<and> occurs SendLobbyChat as \<le> chats_left cfg st"
  using assms
proof (induction ts arbitrary: t0 st as)
  case Nil
  then show ?case using left_nonneg by auto
next
  case (Cons t ts)
  obtain a st1 as1 where a: "advance_state cfg t st = (a, st1)" "ticks cfg ts st1 = (as1, st')" "as = a # as1"
    using Cons.prems(3) by (auto simp: Let_def split: prod.splits)
  note et = entering_tick[OF Cons.prems(1) _ a(1)]
  have "occurs SendRoomEnter as1 \<le> enters_left cfg st1 \<and> occurs SendLobbyChat as1 \<le> chats_left cfg st1"
    using Cons.IH[of t st1 as1] et(1) Cons.prems(2) a(2) by simp
  then show ?case using et(2,3) Cons.prems(2) a(3) by (auto split: if_splits)
qed

lemma ticks_progress:
  assumes "entering cfg t0 st" "spaced gap t0 ts" "0 \<le> gap"
    and "milliseconds (lobbyChatIntervalMs cfg) \<le> gap" "milliseconds (roomActionTimeoutMs cfg) \<le> gap"
  shows "steps_left cfg (snd (ticks cfg ts st)) = max 0 (steps_left cfg st - int (length ts)) \<and> (\<exists>t. entering cfg t (snd (ticks cfg ts st)))"
  using assms(1,2)
proof (induction ts arbitrary: t0 st)
  case Nil
  then show ?case by (cases "phase st") (auto simp: left_defs)
next
  case (Cons t ts)
  obtain a st1 where a: "advance_state cfg t st = (a, st1)" by fastforce
  note et = entering_tick[OF Cons.prems(1) _ a]
  have "steps_left cfg st1 = max 0 (steps_left cfg st - 1)" "entering cfg t st1" using et(1,4) Cons.prems(2) assms(3-5) by auto
  then show ?case using Cons.IH[of t st1] Cons.prems(2) a by (auto simp: case_prod_beta Let_def)
qed



section \<open>The answer to a lost ping\<close>

text \<open>A late answer is counted for the wrong ping.  When a ping times out, the same advance sends the next one, so the
  answer to the lost ping finds a ping in flight: it is recorded as a round trip of the new ping, although the
  handler means to ignore it, and the true answer to the new ping is ignored instead.\<close>

lemma late_pong_misattributed:
  assumes "states p s = Some st" "pingInFlight st" "pingSentTime st = t0" "lastPingSentTime st = t0"
    and "t0 + milliseconds (pingTimeoutMs cfg) \<le> t1" "pingIntervalMs cfg \<le> pingTimeoutMs cfg" "t1 \<le> t2" "t2 \<le> t3"
  shows "let p1 = AdvancePing cfg t1 s p;
             p2 = snd (Scenario_HandleResTestPacket t2 s p1);
             p3 = snd (Scenario_HandleResTestPacket t3 s p2)
         in m_timeoutCount (metrics p1) = m_timeoutCount (metrics p) + 1
          \<and> m_rttSamplesMs (metrics p2) = m_rttSamplesMs (metrics p) @ [of_int (t2 - t1) / 1000000]
          \<and> metrics p3 = metrics p2"
  using assms
  by (simp add: AdvancePing_def ping_state_def Registry_Apply_def Scenario_HandleResTestPacket_def request_def RecordTimeout_def
      RecordRtt_def Let_def)

lemma late_pong_misattributed_witness:
  "let p = \<lparr>states = (\<lambda>_. Some (ScenarioState0\<lparr>pingInFlight := True\<rparr>)), metrics = MetricsAggregator0, playerIds = (\<lambda>_. 0), requests = []\<rparr>
   in m_rttSamplesMs (metrics (snd (Scenario_HandleResTestPacket 3001000000 1 (AdvancePing g_scenarioConfig 3000000000 1 p)))) = [1]"
  using late_pong_misattributed[of "\<lparr>states = (\<lambda>_. Some (ScenarioState0\<lparr>pingInFlight := True\<rparr>)), metrics = MetricsAggregator0,
      playerIds = (\<lambda>_. 0), requests = []\<rparr>" 1 "ScenarioState0\<lparr>pingInFlight := True\<rparr>" 0 g_scenarioConfig 3000000000 3001000000 3001000000]
  by (simp add: ScenarioState0_def g_scenarioConfig_def MetricsAggregator0_def Let_def)

end
