(* ===== verification/Stress.thy ===== *)
theory Stress
  imports Scenario Setting
begin

text \<open>
  \<^verbatim>\<open>DhNet_StressTest/main.cpp\<close>: the command line, the handler table, the loop that advances the scenarios, recycles
  services and reports, and the shutdown.  A service is the list of its connected sessions; connecting,
  disconnecting and receiving happen on the dispatch threads and are events of their own.  Parameters are the
  clock readings, whether a service starts, and whether the report file can be opened.
\<close>

section \<open>Command line\<close>

record StressConfig =
  c_ip :: string
  c_port :: uint16
  c_services :: int
  c_sessionsPerService :: int
  c_churnIntervalSec :: int
  c_runDurationSec :: int

definition StressConfig0 :: StressConfig where
  "StressConfig0 = \<lparr>c_ip = ''127.0.0.1'', c_port = 7777, c_services = 10, c_sessionsPerService = 100,
     c_churnIntervalSec = 30, c_runDurationSec = 0\<rparr>"

definition arg :: "string list \<Rightarrow> nat \<Rightarrow> (string \<Rightarrow> 'c \<Rightarrow> 'c) \<Rightarrow> 'c \<Rightarrow> 'c" where
  "arg argv n f cfg = (if length argv > n then f (argv ! n) cfg else cfg)"

definition parse_args :: "string list \<Rightarrow> StressConfig \<times> ScenarioConfig" where
  "parse_args argv =
     ((arg argv 1 (\<lambda>a c. c\<lparr>c_ip := a\<rparr>) \<circ> arg argv 2 (\<lambda>a c. c\<lparr>c_port := word_of_int (wtoi a)\<rparr>) \<circ> arg argv 3 (\<lambda>a c. c\<lparr>c_services := wtoi a\<rparr>)
        \<circ> arg argv 4 (\<lambda>a c. c\<lparr>c_sessionsPerService := wtoi a\<rparr>) \<circ> arg argv 5 (\<lambda>a c. c\<lparr>c_churnIntervalSec := wtoi a\<rparr>)
        \<circ> arg argv 10 (\<lambda>a c. c\<lparr>c_runDurationSec := wtoi a\<rparr>)) StressConfig0,
      (arg argv 6 (\<lambda>a c. c\<lparr>lobbyChatCount := wtoi a\<rparr>) \<circ> arg argv 7 (\<lambda>a c. c\<lparr>lobbyChatIntervalMs := wtoi a\<rparr>)
        \<circ> arg argv 8 (\<lambda>a c. c\<lparr>roomChatCount := wtoi a\<rparr>) \<circ> arg argv 9 (\<lambda>a c. c\<lparr>roomChatIntervalMs := wtoi a\<rparr>)) g_scenarioConfig)"

section \<open>Packet handlers\<close>

text \<open>The two login handlers of the game client, on the state of the stress test.\<close>

definition Stress_HandleResLoginPacket :: "byte list \<Rightarrow> nat \<Rightarrow> stress \<Rightarrow> (bool \<times> stress) outcome" where
  "Stress_HandleResLoginPacket mem s p = bindR (cstring (offset cls_ResLogin 1) mem) (\<lambda>name.
     Inr (True, p\<lparr>playerIds := (playerIds p)(s := get64 (offset cls_ResLogin 0) mem)\<rparr>))"

text \<open>A refused login closes the session; the answer says so.\<close>

datatype stress_handler = SH_ResLogin | SH_ResLoginFailed | SH_ResLobbyEnter | SH_NotiRoomEnter | SH_ResTest | SH_Ignored

definition RegisterHandlers :: "stress_handler handlers" where
  "RegisterHandlers = register_all
     [(uint (packetNum Res_Login), SH_ResLogin), (uint (packetNum Res_LoginFailed), SH_ResLoginFailed),
      (uint (packetNum Res_LobbyEnter), SH_ResLobbyEnter), (uint (packetNum Noti_RoomEnter), SH_NotiRoomEnter),
      (uint (packetNum Test), SH_ResTest), (uint (packetNum Noti_LobbyChat), SH_Ignored),
      (uint (packetNum Noti_LobbyPlayerEnter), SH_Ignored), (uint (packetNum Noti_LobbyPlayerExit), SH_Ignored),
      (uint (packetNum Noti_RoomChat), SH_Ignored), (uint (packetNum Noti_RoomExit), SH_Ignored)] []"

text \<open>The result says whether the packet was handled and whether the session stays open.\<close>

fun stress_call :: "int \<Rightarrow> byte list \<Rightarrow> nat \<Rightarrow> stress \<Rightarrow> stress_handler \<Rightarrow> ((bool \<times> bool) \<times> stress) outcome" where
  "stress_call now mem s p SH_ResLogin = bindR (Stress_HandleResLoginPacket mem s p) (\<lambda>(b, p'). Inr ((b, True), p'))"
| "stress_call now mem s p SH_ResLoginFailed = Inr ((True, False), p)"
| "stress_call now mem s p SH_ResLobbyEnter = (case Scenario_HandleResLobbyEnterPacket now s p of (b, p') \<Rightarrow> Inr ((b, True), p'))"
| "stress_call now mem s p SH_NotiRoomEnter = (case Scenario_HandleNotiRoomEnterPacket now mem s p of (b, p') \<Rightarrow> Inr ((b, True), p'))"
| "stress_call now mem s p SH_ResTest = (case Scenario_HandleResTestPacket now s p of (b, p') \<Rightarrow> Inr ((b, True), p'))"
| "stress_call now mem s p SH_Ignored = (case Scenario_HandleIgnoredBroadcastPacket p of (b, p') \<Rightarrow> Inr ((b, True), p'))"

text \<open>An unknown packet number is not handled, and the session is closed.\<close>

definition stress_Process :: "int \<Rightarrow> byte list \<Rightarrow> nat \<Rightarrow> stress \<Rightarrow> ((bool \<times> bool) \<times> stress) outcome" where
  "stress_Process now mem s p = Process (uint (m_packetNum mem)) (stress_call now mem s p) (Inr ((False, False), p)) RegisterHandlers"

section \<open>The process\<close>

record bench =
  b_process :: stress
  b_services :: "nat list list"
  b_started :: nat
  b_history :: ReportManager
  b_shuttingDown :: bool
  b_files :: "final_report option list"
  b_exited :: bool
  b_lastChurn :: int
  b_lastReport :: int
  b_startTime :: int
  b_tick :: nat

definition GracefulShutdown :: "int \<Rightarrow> bool \<Rightarrow> bench \<Rightarrow> bench" where
  "GracefulShutdown wall opens b =
     (if b_shuttingDown b then b
      else let (f, h, a) = WriteFinalReport wall opens (b_history b) (metrics (b_process b)) in
        b\<lparr>b_shuttingDown := True, b_files := b_files b @ [f], b_history := h, b_process := (b_process b)\<lparr>metrics := a\<rparr>, b_exited := True\<rparr>)"

text \<open>\<^verbatim>\<open>CTRL_C_EVENT\<close>, \<^verbatim>\<open>CTRL_BREAK_EVENT\<close> and \<^verbatim>\<open>CTRL_CLOSE_EVENT\<close> are 0, 1 and 2.\<close>

definition ConsoleHandler :: "nat \<Rightarrow> int \<Rightarrow> bool \<Rightarrow> bench \<Rightarrow> bool \<times> bench" where
  "ConsoleHandler signal wall opens b =
     (True, if signal = 0 \<or> signal = 1 \<or> signal = 2 then GracefulShutdown wall opens b else b)"

text \<open>Making and starting services; \<open>starts\<close> says whether the n-th start succeeds.\<close>

fun start_services :: "(nat \<Rightarrow> bool) \<Rightarrow> nat \<Rightarrow> bench \<Rightarrow> bench outcome" where
  "start_services starts 0 b = Inr b"
| "start_services starts (Suc n) b =
     ASSERT_CRASH (starts (b_started b))
       (start_services starts n (b\<lparr>b_started := b_started b + 1, b_services := b_services b @ [[]]\<rparr>))"

text \<open>Ending a service disconnects its sessions, and each of them leaves the registry.\<close>

fun end_services :: "nat \<Rightarrow> bench \<Rightarrow> bench" where
  "end_services 0 b = b"
| "end_services (Suc n) b = (case b_services b of
     [] \<Rightarrow> b
   | svc # rest \<Rightarrow> end_services n (b\<lparr>b_process := fold OnDisconnectedExtra svc (b_process b), b_services := rest\<rparr>))"

text \<open>From nanoseconds, towards zero.\<close>

definition seconds :: "int \<Rightarrow> int" where
  "seconds d = sgn d * (\<bar>d\<bar> div 1000000000)"

definition churn :: "StressConfig \<Rightarrow> (nat \<Rightarrow> bool) \<Rightarrow> int \<Rightarrow> bench \<Rightarrow> bench outcome" where
  "churn cfg starts nowChurn b =
     (if seconds (nowChurn - b_lastChurn b) \<ge> c_churnIntervalSec cfg
      then let b = b\<lparr>b_lastChurn := nowChurn\<rparr>; toRecycle = max 1 (length (b_services b) div 10) in
        start_services starts toRecycle (end_services toRecycle b)
      else Inr b)"

definition kReportIntervalSec :: int where "kReportIntervalSec = 10"

definition report_turn :: "int \<Rightarrow> int \<Rightarrow> bench \<Rightarrow> bench" where
  "report_turn nowReport wall b =
     (if seconds (nowReport - b_lastReport b) \<ge> kReportIntervalSec
      then let (h, a) = ReportInterval wall (b_history b) (metrics (b_process b)) in
        b\<lparr>b_lastReport := nowReport, b_history := h, b_process := (b_process b)\<lparr>metrics := a\<rparr>\<rparr>
      else b)"

text \<open>One turn of the loop of \<^verbatim>\<open>wmain\<close>: the readings of the clock before the ticks, at the churn and at the report, and
  the wall clock of the reports.\<close>

definition wmain_turn :: "StressConfig \<Rightarrow> ScenarioConfig \<Rightarrow> (nat \<Rightarrow> bool) \<Rightarrow> bool \<Rightarrow> int \<times> int \<times> int \<times> int \<Rightarrow> bench \<Rightarrow> bench outcome" where
  "wmain_turn cfg scfg starts opens t b = (case t of (now, nowChurn, nowReport, wall) \<Rightarrow>
     let b = b\<lparr>b_process := stress_tick scfg now (concat (b_services b)) (b_process b)\<rparr> in
     bindR (churn cfg starts nowChurn b) (\<lambda>b.
       let b = report_turn nowReport wall b;
           b = (if c_runDurationSec cfg > 0 \<and> seconds (nowReport - b_startTime b) \<ge> c_runDurationSec cfg
                then GracefulShutdown wall opens b else b)
       in Inr (if b_exited b then b else b\<lparr>b_tick := b_tick b + 1\<rparr>)))"

definition stress0 :: stress where
  "stress0 = \<lparr>states = (\<lambda>_. None), metrics = MetricsAggregator0, playerIds = (\<lambda>_. 0), requests = []\<rparr>"

text \<open>Up to the loop.  \<^verbatim>\<open>reserve\<close> of a negative count is a request for an impossible size.\<close>

definition wmain_start :: "StressConfig \<Rightarrow> (nat \<Rightarrow> bool) \<Rightarrow> int \<Rightarrow> bench outcome" where
  "wmain_start cfg starts now =
     (if c_services cfg < 0 then Inl (CRASH ''length_error'')
      else start_services starts (nat (c_services cfg))
        \<lparr>b_process = stress0, b_services = [], b_started = 0, b_history = [], b_shuttingDown = False, b_files = [],
         b_exited = False, b_lastChurn = now, b_lastReport = now, b_startTime = now, b_tick = 0\<rparr>)"

section \<open>Everything that happens\<close>

datatype bench_event =
    Turn "int \<times> int \<times> int \<times> int"
  | Connected nat nat
  | Disconnected nat nat
  | Packet int "byte list" nat nat
  | Signal nat int

text \<open>\<open>Connected i s\<close>: a new session \<open>s\<close> of service \<open>i\<close>; \<open>Packet now mem i s\<close>: a decrypted packet on session \<open>s\<close>.\<close>

definition drop_session :: "nat \<Rightarrow> nat \<Rightarrow> bench \<Rightarrow> bench" where
  "drop_session i s b = b\<lparr>b_process := OnDisconnectedExtra s (b_process b), b_services := (b_services b)[i := removeAll s (b_services b ! i)]\<rparr>"

definition bench_step :: "StressConfig \<Rightarrow> ScenarioConfig \<Rightarrow> (nat \<Rightarrow> bool) \<Rightarrow> bool \<Rightarrow> bench_event \<Rightarrow> bench \<Rightarrow> bench outcome" where
  "bench_step cfg scfg starts opens e b =
     (if b_exited b then Inr b
      else case e of
        Turn t \<Rightarrow> wmain_turn cfg scfg starts opens t b
      | Connected i s \<Rightarrow>
          if i < length (b_services b) \<and> s \<notin> set (concat (b_services b))
          then Inr (b\<lparr>b_process := OnConnectedExtra s (b_process b), b_services := (b_services b)[i := b_services b ! i @ [s]]\<rparr>)
          else Inr b
      | Disconnected i s \<Rightarrow>
          if i < length (b_services b) \<and> s \<in> set (b_services b ! i) then Inr (drop_session i s b) else Inr b
      | Packet now mem i s \<Rightarrow>
          if i < length (b_services b) \<and> s \<in> set (b_services b ! i)
          then bindR (stress_Process now mem s (b_process b)) (\<lambda>((handled, stays), p).
            let b = b\<lparr>b_process := p\<rparr> in Inr (if handled \<and> stays then b else drop_session i s b))
          else Inr b
      | Signal signal wall \<Rightarrow> Inr (snd (ConsoleHandler signal wall opens b)))"

fun bench_run :: "StressConfig \<Rightarrow> ScenarioConfig \<Rightarrow> (nat \<Rightarrow> bool) \<Rightarrow> bool \<Rightarrow> bench_event list \<Rightarrow> bench \<Rightarrow> bench outcome" where
  "bench_run cfg scfg starts opens [] b = Inr b"
| "bench_run cfg scfg starts opens (e # es) b = bindR (bench_step cfg scfg starts opens e b) (bench_run cfg scfg starts opens es)"

section \<open>The registry\<close>

lemma dom_Apply [simp]: "dom (snd (Registry_Apply s f d m)) = dom m"
  by (auto simp: Registry_Apply_def dom_def split: option.split prod.split)

lemma dom_Advance [simp]:
  "dom (states (AdvanceScenario cfg now s p)) = dom (states p)" "dom (states (AdvancePing cfg now s p)) = dom (states p)"
proof -
  obtain a m where "Registry_Apply s (advance_state cfg now) ActNone (states p) = (a, m)" by fastforce
  then show "dom (states (AdvanceScenario cfg now s p)) = dom (states p)"
    using dom_Apply[of s "advance_state cfg now" ActNone "states p"]
    by (cases a) (simp_all add: AdvanceScenario_def request_def)
  obtain l d m' where "Registry_Apply s (ping_state cfg now) (False, False) (states p) = ((l, d), m')" by (metis prod.exhaust)
  then show "dom (states (AdvancePing cfg now s p)) = dom (states p)"
    using dom_Apply[of s "ping_state cfg now" "(False, False)" "states p"] by (simp add: AdvancePing_def request_def Let_def)
qed

lemma dom_tick [simp]: "dom (states (stress_tick cfg now ss p)) = dom (states p)"
  unfolding stress_tick_def by (induction ss arbitrary: p) simp_all

lemma dom_Disconnected: "dom (states (fold OnDisconnectedExtra ss p)) = dom (states p) - set ss"
  by (induction ss arbitrary: p) (auto simp: OnDisconnectedExtra_def Registry_Unregister_def)

lemma map_of_RegisterHandlers:
  "map_of RegisterHandlers n = map_of [(uint (packetNum Res_Login), SH_ResLogin), (uint (packetNum Res_LoginFailed), SH_ResLoginFailed),
      (uint (packetNum Res_LobbyEnter), SH_ResLobbyEnter), (uint (packetNum Noti_RoomEnter), SH_NotiRoomEnter),
      (uint (packetNum Test), SH_ResTest), (uint (packetNum Noti_LobbyChat), SH_Ignored),
      (uint (packetNum Noti_LobbyPlayerEnter), SH_Ignored), (uint (packetNum Noti_LobbyPlayerExit), SH_Ignored),
      (uint (packetNum Noti_RoomChat), SH_Ignored), (uint (packetNum Noti_RoomExit), SH_Ignored)] n"
  by (simp add: RegisterHandlers_def map_of_register_all)

text \<open>A login answer must carry a terminated name; everything else is handled whatever it holds.\<close>

fun packet_ok :: "bench_event \<Rightarrow> bool" where
  "packet_ok (Packet now mem i s) \<longleftrightarrow> (m_packetNum mem = packetNum Res_Login \<longrightarrow> 0 \<in> set (drop (offset cls_ResLogin 1) mem))"
| "packet_ok e \<longleftrightarrow> True"

lemma stress_call_ok:
  assumes "h = SH_ResLogin \<Longrightarrow> 0 \<in> set (drop (offset cls_ResLogin 1) mem)"
  shows "\<exists>r p'. stress_call now mem s p h = Inr (r, p') \<and> dom (states p') = dom (states p)"
proof (cases h)
  case SH_ResTest
  obtain rtt m where "Registry_Apply s (\<lambda>st. if \<not> pingInFlight st then (None, st)
      else (Some (of_int (now - pingSentTime st) / 1000000 :: rat), st\<lparr>pingInFlight := False\<rparr>)) None (states p) = (rtt, m)" by fastforce
  then show ?thesis using SH_ResTest dom_Apply[of s "\<lambda>st. if \<not> pingInFlight st then (None, st)
      else (Some (of_int (now - pingSentTime st) / 1000000 :: rat), st\<lparr>pingInFlight := False\<rparr>)" None "states p"]
    by (cases rtt) (auto simp: Scenario_HandleResTestPacket_def Let_def)
qed (use assms in \<open>auto simp: Stress_HandleResLoginPacket_def cstring_def Scenario_HandleResLobbyEnterPacket_def
      Scenario_HandleNotiRoomEnterPacket_def Scenario_HandleIgnoredBroadcastPacket_def\<close>)

lemma stress_Process_ok:
  assumes "packet_ok (Packet now mem i s)"
  shows "\<exists>r p'. stress_Process now mem s p = Inr (r, p') \<and> dom (states p') = dom (states p)"
proof (cases "map_of RegisterHandlers (uint (m_packetNum mem))")
  case None
  then show ?thesis unfolding stress_Process_def Process_def by (intro exI) simp
next
  case (Some h)
  have "uint (m_packetNum mem) = uint (packetNum Res_Login)" if "h = SH_ResLogin"
    using Some that unfolding map_of_RegisterHandlers by (simp split: if_splits)
  then have "m_packetNum mem = packetNum Res_Login" if "h = SH_ResLogin"
    using that by (simp only: word_uint_eq_iff)
  then show ?thesis using Some assms stress_call_ok[of h mem now s p] by (simp add: stress_Process_def Process_def)
qed

section \<open>Services\<close>

lemma start_services_ok:
  assumes "\<And>n. starts n"
  shows "start_services starts k b = Inr (b\<lparr>b_started := b_started b + k, b_services := b_services b @ replicate k []\<rparr>)"
  by (induction k arbitrary: b) (simp_all add: assms replicate_app_Cons_same)

lemma end_services_eq:
  "end_services k b = b\<lparr>b_process := fold OnDisconnectedExtra (concat (take k (b_services b))) (b_process b),
     b_services := drop k (b_services b)\<rparr>"
proof (induction k arbitrary: b)
  case (Suc k)
  then show ?case by (cases "b_services b") simp_all
qed simp

text \<open>The registry holds exactly the sessions of the services, the number of services is the configured one, and a report
  file has been written exactly when the process has ended.\<close>

definition bench_inv :: "StressConfig \<Rightarrow> int \<Rightarrow> bench \<Rightarrow> bool" where
  "bench_inv cfg t0 b \<longleftrightarrow> dom (states (b_process b)) = set (concat (b_services b)) \<and> distinct (concat (b_services b))
   \<and> (if c_services cfg \<ge> 1 then int (length (b_services b)) = c_services cfg else length (b_services b) \<le> 1)
   \<and> b_shuttingDown b = b_exited b \<and> length (b_files b) = (if b_exited b then 1 else 0) \<and> b_startTime b = t0"

lemma inv_start:
  assumes "0 \<le> c_services cfg" "\<And>n. starts n"
  shows "\<exists>b. wmain_start cfg starts t0 = Inr b \<and> bench_inv cfg t0 b \<and> \<not> b_exited b"
  using assms by (auto simp: wmain_start_def start_services_ok bench_inv_def stress0_def)

lemma inv_tick:
  "bench_inv cfg t0 b \<Longrightarrow> bench_inv cfg t0 (b\<lparr>b_process := stress_tick scfg now ss (b_process b)\<rparr>)"
  by (auto simp: bench_inv_def)

lemma churn_sessions:
  assumes "distinct (concat xss)"
  shows "distinct (concat (drop k xss))" "set (concat xss) - set (concat (take k xss)) = set (concat (drop k xss))"
proof -
  have "concat xss = concat (take k xss) @ concat (drop k xss)"
    by (metis append_take_drop_id concat_append)
  then show "distinct (concat (drop k xss))" "set (concat xss) - set (concat (take k xss)) = set (concat (drop k xss))"
    using assms by auto
qed

lemma inv_churn:
  assumes "bench_inv cfg t0 b" "\<And>n. starts n"
  shows "\<exists>b'. churn cfg starts now b = Inr b' \<and> bench_inv cfg t0 b' \<and> b_exited b' = b_exited b"
proof (cases "seconds (now - b_lastChurn b) \<ge> c_churnIntervalSec cfg")
  case True
  define k where "k = max 1 (length (b_services b) div 10)"
  have "length (b_services b) \<ge> 1 \<Longrightarrow> k \<le> length (b_services b)" "length (b_services b) = 0 \<Longrightarrow> k = 1"
    unfolding k_def by auto
  then have len: "length (drop k (b_services b) @ replicate k []) = max 1 (length (b_services b))"
    by (cases "b_services b") auto
  have inv: "distinct (concat (b_services b))" "dom (states (b_process b)) = set (concat (b_services b))"
    and n: "b_services b = [] \<Longrightarrow> c_services cfg < 1"
    using assms(1) by (auto simp: bench_inv_def split: if_splits)
  have ss: "concat (drop k (b_services b) @ replicate k []) = concat (drop k (b_services b))" by (induction k) auto
  let ?p = "fold OnDisconnectedExtra (concat (take k (b_services b))) (b_process b)"
  let ?b = "b\<lparr>b_lastChurn := now, b_process := ?p, b_started := b_started b + k, b_services := drop k (b_services b) @ replicate k []\<rparr>"
  have "churn cfg starts now b = Inr ?b"
    using True by (simp add: churn_def Let_def start_services_ok[of starts, OF assms(2)] end_services_eq k_def)
  moreover have "dom (states ?p) = set (concat (drop k (b_services b)))"
    using churn_sessions(2)[OF inv(1)] inv(2) by (simp add: dom_Disconnected del: set_concat)
  moreover have "if c_services cfg \<ge> 1 then int (max 1 (length (b_services b))) = c_services cfg else max 1 (length (b_services b)) \<le> 1"
    using assms(1) n by (cases "b_services b") (auto simp: bench_inv_def split: if_splits)
  ultimately have "churn cfg starts now b = Inr ?b \<and> bench_inv cfg t0 ?b" using assms(1) churn_sessions(1)[OF inv(1), of k]
    by (simp add: bench_inv_def ss len del: set_concat concat_append length_append) (simp split: if_splits)
  then show ?thesis by auto
qed (use assms in \<open>simp add: churn_def\<close>)

lemma report_turn_kept:
  "bench_inv cfg t0 (report_turn r w b) = bench_inv cfg t0 b" "b_exited (report_turn r w b) = b_exited b"
  by (auto simp: report_turn_def bench_inv_def split: prod.split)

lemma inv_Graceful:
  assumes "bench_inv cfg t0 b"
  shows "bench_inv cfg t0 (GracefulShutdown w opens b) \<and> b_exited (GracefulShutdown w opens b)"
  using assms by (auto simp: GracefulShutdown_def bench_inv_def split: prod.split)

definition run_ends :: "StressConfig \<Rightarrow> int \<Rightarrow> bench_event \<Rightarrow> bool" where
  "run_ends cfg t0 e = (case e of
     Turn (now, nowChurn, nowReport, wall) \<Rightarrow> c_runDurationSec cfg > 0 \<and> seconds (nowReport - t0) \<ge> c_runDurationSec cfg
   | Signal signal wall \<Rightarrow> signal \<in> {0, 1, 2}
   | _ \<Rightarrow> False)"

lemma inv_turn:
  assumes "bench_inv cfg t0 b" "\<And>n. starts n" "\<not> b_exited b"
  shows "\<exists>b'. wmain_turn cfg scfg starts opens t b = Inr b' \<and> bench_inv cfg t0 b' \<and> b_exited b' = run_ends cfg t0 (Turn t)"
proof -
  obtain now nc nr w where t: "t = (now, nc, nr, w)" by (metis prod.exhaust)
  let ?b = "b\<lparr>b_process := stress_tick scfg now (concat (b_services b)) (b_process b)\<rparr>"
  obtain b1 where b1: "churn cfg starts nc ?b = Inr b1" "bench_inv cfg t0 b1" "b_exited b1 = b_exited b"
    using inv_churn[of cfg t0 ?b starts nc, OF inv_tick[OF assms(1)] assms(2)] by auto
  let ?r = "report_turn nr w b1"
  have r: "bench_inv cfg t0 ?r" "\<not> b_exited ?r" using b1 assms(3) by (simp_all add: report_turn_kept)
  then have t0: "b_startTime ?r = t0" by (simp add: bench_inv_def)
  have tick: "bench_inv cfg t0 (x\<lparr>b_tick := n\<rparr>) = bench_inv cfg t0 x" for x n by (simp add: bench_inv_def)
  show ?thesis using r inv_Graceful[OF r(1), of w opens]
    by (simp add: wmain_turn_def t b1(1) Let_def t0 tick run_ends_def)
qed

lemma concat_update:
  assumes "i < length xss" "distinct (concat xss)"
  shows "set (concat (xss[i := ys])) = (set (concat xss) - set (xss ! i)) \<union> set ys"
    "distinct ys \<Longrightarrow> set ys \<inter> (set (concat xss) - set (xss ! i)) = {} \<Longrightarrow> distinct (concat (xss[i := ys]))"
proof -
  have *: "concat xss = concat (take i xss) @ xss ! i @ concat (drop (Suc i) xss)"
    using assms(1) by (metis concat.simps(2) concat_append id_take_nth_drop)
  have u: "concat (xss[i := ys]) = concat (take i xss) @ ys @ concat (drop (Suc i) xss)"
    using assms(1) by (simp add: upd_conv_take_nth_drop)
  show "set (concat (xss[i := ys])) = (set (concat xss) - set (xss ! i)) \<union> set ys"
    using assms(2) unfolding u unfolding * by auto
  show "distinct (concat (xss[i := ys]))" if "distinct ys" "set ys \<inter> (set (concat xss) - set (xss ! i)) = {}"
    using assms(2) that unfolding u unfolding * by (auto simp del: set_concat)
qed

lemma concat_nth:
  assumes "i < length xss" "distinct (concat xss)"
  shows "set (xss ! i) \<subseteq> set (concat xss)" "distinct (xss ! i)"
  using nth_mem[OF assms(1)] assms(2) by (auto simp: distinct_concat_iff)

lemma inv_connected:
  assumes "bench_inv cfg t0 b" "i < length (b_services b)" "s \<notin> set (concat (b_services b))"
  shows "bench_inv cfg t0 (b\<lparr>b_process := OnConnectedExtra s (b_process b), b_services := (b_services b)[i := b_services b ! i @ [s]]\<rparr>)"
proof -
  have d: "distinct (concat (b_services b))" using assms(1) by (simp add: bench_inv_def)
  note sub = concat_nth[OF assms(2) d]
  have "dom (states (OnConnectedExtra s (b_process b))) = insert s (dom (states (b_process b)))"
    by (simp add: OnConnectedExtra_def Registry_Register_def)
  then show ?thesis using assms sub concat_update[OF assms(2) d, of "b_services b ! i @ [s]"]
    by (auto simp: bench_inv_def simp del: set_concat)
qed

lemma inv_drop:
  assumes "bench_inv cfg t0 b" "i < length (b_services b)" "s \<in> set (b_services b ! i)"
  shows "bench_inv cfg t0 (drop_session i s b)"
proof -
  have d: "distinct (concat (b_services b))" using assms(1) by (simp add: bench_inv_def)
  note sub = concat_nth[OF assms(2) d]
  have "dom (states (OnDisconnectedExtra s (b_process b))) = dom (states (b_process b)) - {s}"
    by (simp add: OnDisconnectedExtra_def Registry_Unregister_def)
  then show ?thesis using assms sub concat_update[OF assms(2) d, of "removeAll s (b_services b ! i)"]
    by (auto simp: bench_inv_def drop_session_def distinct_removeAll simp del: set_concat)
qed

lemma inv_step:
  assumes "bench_inv cfg t0 b" "\<And>n. starts n" "packet_ok e"
  shows "\<exists>b'. bench_step cfg scfg starts opens e b = Inr b' \<and> bench_inv cfg t0 b' \<and> b_exited b' = (b_exited b \<or> run_ends cfg t0 e)"
proof (cases "b_exited b")
  case False
  show ?thesis
  proof (cases e)
    case (Turn t)
    then show ?thesis using inv_turn[of cfg t0 b starts, OF assms(1,2) False] False by (simp add: bench_step_def)
  next
    case (Connected i s)
    then show ?thesis using inv_connected[OF assms(1), of i s] assms(1) False by (simp add: bench_step_def run_ends_def)
  next
    case (Disconnected i s)
    then show ?thesis using inv_drop[OF assms(1), of i s] assms(1) False
      by (simp add: bench_step_def run_ends_def drop_session_def)
  next
    case (Packet now mem i s)
    obtain h st p where p: "stress_Process now mem s (b_process b) = Inr ((h, st), p)" "dom (states p) = dom (states (b_process b))"
      using stress_Process_ok[of now mem i s "b_process b"] assms(3) Packet by (metis prod.exhaust)
    have "bench_inv cfg t0 (b\<lparr>b_process := p\<rparr>)" using assms(1) p(2) by (auto simp: bench_inv_def)
    then show ?thesis using inv_drop[of cfg t0 "b\<lparr>b_process := p\<rparr>" i s] assms(1) False Packet p(1)
      by (simp add: bench_step_def run_ends_def drop_session_def Let_def)
  next
    case (Signal g w)
    then show ?thesis using inv_Graceful[OF assms(1), of w opens] assms(1) False
      by (auto simp: bench_step_def ConsoleHandler_def run_ends_def)
  qed
qed (use assms(1) in \<open>simp add: bench_step_def\<close>)

lemma inv_run:
  assumes "bench_inv cfg t0 b" "\<And>n. starts n" "\<forall>e\<in>set es. packet_ok e"
  shows "\<exists>b'. bench_run cfg scfg starts opens es b = Inr b' \<and> bench_inv cfg t0 b'
    \<and> b_exited b' = (b_exited b \<or> (\<exists>e\<in>set es. run_ends cfg t0 e))"
  using assms(1,3)
proof (induction es arbitrary: b)
  case (Cons e es)
  obtain b1 where "bench_step cfg scfg starts opens e b = Inr b1" "bench_inv cfg t0 b1" "b_exited b1 = (b_exited b \<or> run_ends cfg t0 e)"
    using inv_step[of cfg t0 b starts e scfg opens, OF Cons.prems(1) assms(2)] Cons.prems(2) by auto
  then show ?case using Cons.IH[of b1] Cons.prems(2) by auto
qed simp

section \<open>The whole run\<close>



end
