(* ===== verification/Spec2Isabelle.thy ===== *)
theory Spec2Isabelle
  imports Guards AdminWire Diagnostics ObjectPool Teardown RoomEntry Login Web Workers Stress
begin

text \<open>
  \<^bold>\<open>DhNet\<close> is a game server for Windows on I/O completion ports, with a console client, a load generator and an
  HTTP front for administration.  This development models the program as it is written under \<^verbatim>\<open>src/\<close> and proves what the
  code means to do.

  \<^bold>\<open>How the parts work together.\<close>  \<^verbatim>\<open>ServerCore\<close> is the network layer: completions arrive from the operating system, a session
  appends the bytes to its receive buffer, cuts packets out of it and calls the application; what the application
  sends is a handle to a run of chunks of a send pool, queued and gathered into one send at a time.  \<^verbatim>\<open>DhUtil\<close> has the locks
  and the job queues: a room or a lobby is a job queue, and whoever pushes the first job runs it, or hands it on.  \<^verbatim>\<open>DhNet_Server\<close>
  is the application: after a key exchange every packet is encrypted; a login is checked by a database worker, and
  its result puts a player into a lobby; packet handlers reserve a place in a room, and post the entry as a job.
  \<^verbatim>\<open>DhNet_Client\<close> and \<^verbatim>\<open>DhNet_StressTest\<close> are the other end of the same protocol; \<^verbatim>\<open>AdminGrpcServer\<close> and \<^verbatim>\<open>DhNet_Web\<close> let an operator
  look at the world, kick players and speak to rooms.

  \<^bold>\<open>Conventions.\<close>  An object is a record and a pointer to it an index into a list of objects.  Unsigned integers are words, \<^verbatim>\<open>int32\<close>
  is an integer where it cannot overflow.  An operation that can crash or run into undefined behaviour returns an \<open>outcome\<close>
  (theory \<open>Prelude\<close>); packets are byte lists with the packed layout of the C++ classes.  Where threads meet, one
  access to shared state is one step of a relation; where a queue serialises them, a function is one job.  The operating system
  (\<open>os\<close>), OpenSSL (\<open>openssl\<close>), MySQL (\<open>mysql\<close>), the runtime of protocol buffers (\<open>protobuf\<close>), the logging library (\<open>spdlog\<close>),
  the remote procedure channel and the clock are parameters; what is assumed of them are named hypotheses
  (\<open>recv_accepted\<close>, \<open>gcm_ok\<close>, \<open>protobuf_rules\<close>, \<open>channel_ok\<close> and so on), and every such
  theorem is followed by an instance with a concrete library.

  \<^bold>\<open>Foundations.\<close>
  \<^item> \<open>Prelude\<close>: integer types, outcomes, memory, C strings, ordered maps (\<^verbatim>\<open>Types.h\<close>, \<^verbatim>\<open>Macro.h\<close> and the standard library).
  \<^item> \<open>Interfaces\<close>: the contracts as locales: an allocator of disjoint runs, a byte queue, a system with an invariant, a
    first-in-first-out queue, a gate with counted places.  They are interpreted on the send pool, the object pool and the
    database connections; the receive buffer; the lock, the job queue and the world; the global queue; rooms and lobbies.

  \<^bold>\<open>Network layer\<close> (\<^verbatim>\<open>ServerCore\<close>).
  \<^item> \<open>RecvBuffer\<close>, \<open>PacketList\<close>, \<open>SendPool\<close>: \<^verbatim>\<open>RecvBuffer\<close>, the packet classes of \<^verbatim>\<open>DhNet_Protocol\<close>, \<^verbatim>\<open>SendPool\<close> and \<^verbatim>\<open>Sender\<close>.  Shown: the
    pool never hands out a chunk twice in any sequence of requests and releases, and where its 16 bit counter wraps.
  \<^item> \<open>Session\<close>, \<open>Stream\<close>, \<open>SendPath\<close>: \<^verbatim>\<open>Session\<close>, \<^verbatim>\<open>SocketUtils\<close> and the two directions of a connection.  Shown: however the
    stream is cut into completions, the application sees exactly its packets, a malformed header ends the connection,
    and sends leave in order, once each, one operation at a time.
  \<^item> \<open>Service\<close>: \<^verbatim>\<open>Service\<close>, \<^verbatim>\<open>Listener\<close> and \<^verbatim>\<open>IocpCore\<close>: the session table, accepting and dispatching.  Shown: ending a client service
    disconnects everybody; two failure paths that go wrong.

  \<^bold>\<open>Threads\<close> (\<^verbatim>\<open>DhUtil\<close>).
  \<^item> \<open>RwLock\<close>, \<open>DeadLockProfiler\<close>: mutual exclusion in every interleaving, the unlock assertions, and that the profiler reports
    exactly the acquisition that closes a cycle.
  \<^item> \<open>Guards\<close>: \<^verbatim>\<open>ReadLockGuard\<close> and \<^verbatim>\<open>WriteLockGuard\<close> as nested blocks of many threads in a debug build.  Shown: over every interleaving
    the profiler never mistakes an unlock, and crashes exactly when the locks were taken in an order with a cycle.
  \<^item> \<open>Diagnostics\<close>: \<^verbatim>\<open>Logger.cpp\<close>, the macros of \<^verbatim>\<open>Macro.h\<close> and the watchdog experiment.  Shown: the name of the log file is fixed by the first
    use, and when a crash ends the process in bounded time.
  \<^item> \<open>JobQueue\<close>: one queue among many threads: at most one runs it, in push order, and nothing is left behind.
  \<^item> \<open>Workers\<close>: one thread among many queues: every posted job runs once, whenever the time limit strikes.
  \<^item> \<open>ObjectPool\<close>: objects are handed out to one owner at a time.

  \<^bold>\<open>Game server\<close> (\<^verbatim>\<open>DhNet_Server\<close>).
  \<^item> \<open>World\<close>: \<^verbatim>\<open>Room\<close>, \<^verbatim>\<open>Lobby\<close>, \<^verbatim>\<open>Player\<close>, their systems, the controllers and the world side of \<^verbatim>\<open>GameSession\<close>, and \<open>wstep\<close>, everything that
    can happen.  \<open>WorldProps\<close>, \<open>Roster\<close> and \<open>WorldTypes\<close> hold the invariants: capacity, who is online, no dangling
    reference; who is told what; and interleavings in which a membership goes wrong.
  \<^item> \<open>Crypto\<close>, \<open>SecureSession\<close>: password hashes, packet encryption, the key exchange and both ends of the encrypted session.
    Shown: both ends agree on a key, and nothing passes before they do.
  \<^item> \<open>Db\<close>, \<open>PacketHandler\<close>, \<open>Server\<close>: the connection pool, the login query and its workers, the handler table, and the path of
    a packet through all of it.  Shown: a login ends in the right answer; messages arrive as they were sent.
  \<^item> \<open>ServerNet\<close>, \<open>RoomEntry\<close>: the server on the network layer.  Shown: on bytes, ciphertext and completions it refines a
    server that takes requests.
  \<^item> \<open>Login\<close>: the server and the client together, from the new connection over the exchange of keys and the database to the answer.
    Shown: the login ends with a player and a client that knows its account, or with both ends closed, however the network
    cuts the packets.
  \<^item> \<open>Setting\<close>, \<open>Startup\<close>, \<open>Teardown\<close>: the environment, \<^verbatim>\<open>main\<close> of the server and of the client, and the destructors.
  \<^item> \<open>Admin\<close>, \<open>Web\<close>: \<^verbatim>\<open>AdminController\<close>, \<^verbatim>\<open>AdminGrpcServer\<close>, and the controllers, client and exception filter of \<^verbatim>\<open>DhNet_Web\<close>.  Shown: what
    an HTTP request does to the world, and its status code.
  \<^item> \<open>Wire\<close>, \<open>IpcMessages\<close>, \<open>AdminWire\<close>: the integer encodings of \<^verbatim>\<open>coded_stream.h\<close> and \<^verbatim>\<open>wire_format_lite.h\<close>, the response classes
    of \<^verbatim>\<open>dhnet.pb.h\<close> and \<^verbatim>\<open>dhnet.pb.cc\<close> with their setters, serialisers and size computations, and the controllers that fill
    them.  Shown: the size tricks agree with the encoder, a response serialises to the fields of \<^verbatim>\<open>dhnet.proto\<close> in
    as many bytes as announced, and a reader of the bytes of a listing recovers the world it was taken from.

  \<^bold>\<open>Clients.\<close>
  \<^item> \<open>Client\<close>: \<^verbatim>\<open>DhNet_Client\<close>.  Shown: on bytes it refines a client that takes messages.
  \<^item> \<open>Metrics\<close>, \<open>Scenario\<close>, \<open>Stress\<close>: \<^verbatim>\<open>DhNet_StressTest\<close>: the counters and reports, the scripted sessions, and the program around
    them.  Shown: reports account for every sample, a session without answers gives up, and a run ends with one report.

  This theory adds what takes both programs: a room request from the client's bytes to the client's state.

  \<^bold>\<open>Bounds and termination.\<close>  The receive loop, the reading of frames and the search for cycles end by a measure.  The loops of a
  worker may run forever and are partial functions; that they return is proved for a clock that advances by at most
  64 milliseconds between two readings, the length of a turn, since a slower clock can starve a turn of any
  work.  \<open>RegisterAccept\<close> recurses on the stack; its \<open>depth\<close> is the room left there, and running out of it is a
  fault.  Thread ids are assumed to fit the 16 bits the lock keeps of them, which \<open>Startup\<close> proves of the launched threads.

  \<^bold>\<open>Not modelled.\<close>  The text of log lines and console output, formatting and writing of the report file, the creation and joining of
  threads (the platform's).  Of the generated protocol code: the request classes, parsing (tables for an interpreter in the
  runtime), merging, clearing and swapping, which no source calls on a response, and the remote procedure stubs, which only pass
  functions to the library.  The other bundled headers belong to libraries whose bodies are not in the repository.  The wiring of
  the web program is the framework's; the deployment scripts, the schema and the container description are no programs of this kind.
  Memory ordering is sequential: the atomics of the code use the default order, acquire and release on a flag, and the relaxed
  order only on a counter and on the two indexes a player reports.
  Shared pointers are never dangling by construction of the model's heaps; destruction of sessions is a step of its own.
\<close>

section \<open>Both programs together\<close>

text \<open>(C1) Entering a room, from the request to the client that knows it.  A client that has logged in asks for a room, and the
  bytes of the encrypted request reach the server cut in any way, in a reachable world whose room queues are idle
  and where the player is in no room.  Then some room has a place: once its queue has run, the player is a
  member of it and in no queue, exactly the members with a live session have been sent the announcement, the
  requesting session among them; and when the encrypted announcement reaches that client, again cut in any
  way, the client takes itself to be in a room.\<close>

theorem room_entry_end_to_end:
  assumes "gcm_ok ssl" "m_cipher k = Some key" "m_handshakeDone k"
    and server: "\<And>n. d_ctx (ds n)" "\<And>n. length (stacks n) = MAX_PLAIN_PACKET_SIZE" "recv_accepted os" "rx_ready sid snet"
      "pending (m_recvBuffer (ses sid snet)) = []" "logged_in key sid p (app snet)"
    and world: "w = sv_world (fst (app snet))" "wstep\<^sup>*\<^sup>* world0 w"
      "\<forall>r < length (rooms w). room_jobs (rooms w ! r) = [] \<and> \<not> map_has (GetPlayerId p w) (room_players (rooms w ! r))"
    and client: "\<And>n. d_ctx (ds' n)" "\<And>n. length (stacks' n) = MAX_PLAIN_PACKET_SIZE" "recv_accepted os'" "rx_ready cid cnet"
      "pending (m_recvBuffer (ses cid cnet)) = []" "established key (app cnet)"
    and request: "request_frame ssl k CReqRoomEnter f" "\<forall>n \<in> set ns. 0 < n" "length f \<le> length ns"
  shows "\<exists>snet' r. receive os (server_hooks os ssl ds stacks) sid ns f snet = Inr snet'
    \<and> (let w' = run_room_job r (run_room_job r (sv_world (fst (app snet'))));
           m = Msg_NotiRoomEnter (GetPlayerId p w) (GetPlayerName p w);
           to = receivers w' (room_players (rooms w' ! r))
       in m_currentRoom (players w' ! p) = Some r \<and> map_of (room_players (rooms w' ! r)) (GetPlayerId p w) = Some p
        \<and> room_jobs (rooms w' ! r) = [] \<and> outbox w' = outbox w @ map (\<lambda>s. (s, m)) to \<and> sid \<in> set to
        \<and> (\<forall>g ns'. frame_of ssl (sv_crypt (fst (app snet)) sid) m g \<and> (\<forall>n \<in> set ns'. 0 < n) \<and> length g \<le> length ns' \<longrightarrow>
             (\<exists>cnet'. receive os' (client_hooks ssl ds' lm stacks') cid ns' g cnet = Inr cnet' \<and> g_inRoom (app cnet'))))"
proof -
  obtain sv n where a: "app snet = (sv, n)" by fastforce
  have li: "m_cipher (sv_crypt sv sid) = Some key" "m_handshakeDone (sv_crypt sv sid)" "world.connected w sid" "player_of w sid = Some p"
    using server(6) world(1) a by (simp_all add: logged_in_def)
  obtain snet' where s': "receive os (server_hooks os ssl ds stacks) sid ns f snet = Inr snet'" "app snet' = server_step sid p CReqRoomEnter (app snet)"
    using requests_followed[where ds = ds and stacks = stacks and rs = "[CReqRoomEnter]" and fs = "[f]" and ns = ns, OF assms(1-3) server] request by auto
  let ?w1 = "enter_some_room p w"
  have w1: "sv_world (fst (app snet')) = ?w1" by (simp add: s'(2) a server_step_def world(1))
  obtain r where r: "r < length (rooms ?w1)" "room_jobs (rooms ?w1 ! r) = [RoomEnter p]" "int (length (room_players (rooms ?w1 ! r))) < MAX_ROOM_PLAYER"
    "p < length (players ?w1)" "\<not> map_has (GetPlayerId p ?w1) (room_players (rooms ?w1 ! r))" "GetOwnerSession p ?w1 = Some sid"
    and fr: "outbox ?w1 = outbox w" "GetPlayerId p ?w1 = GetPlayerId p w" "GetPlayerName p ?w1 = GetPlayerName p w"
    by (rule enter_some_room_job[OF world(2) li(3,4) world(3) refl])
  note jobs = room_entry_jobs[OF r refl, unfolded fr]
  have "map_of (map_insert i p m) i = Some p" for i :: uint64 and m by (induction m) auto
  moreover have "\<exists>cnet'. receive os' (client_hooks ssl ds' lm stacks') cid ns' g cnet = Inr cnet' \<and> g_inRoom (app cnet')"
    if "frame_of ssl (sv_crypt sv sid) (Msg_NotiRoomEnter i nm) g" "\<forall>n \<in> set ns'. 0 < n" "length g \<le> length ns'" for i nm g ns'
    using messages_followed[where ds = ds' and stacks = stacks' and ms = "[Msg_NotiRoomEnter i nm]" and fs = "[g]" and ns = ns' and lm = lm,
        OF assms(1) li(1,2) client] that by (auto simp: client_step_def)
  ultimately show ?thesis using s'(1) jobs unfolding Let_def by (intro exI[of _ snet'] exI[of _ r]) (simp add: w1 a, blast)
qed

text \<open>Account 5 logs in on session 0 and asks for a room.\<close>

definition entry_net :: "world \<Rightarrow> (byte server \<times> nat) net" where
  "entry_net w = server_net\<lparr>app := (toy_server\<lparr>sv_world := w\<rparr>, 0)\<rparr>"

theorem room_entry_end_to_end_witness:
  "\<exists>w f g snet' r cnet'. play [EvConnect 0, EvLogin True 5 [98] 0] world0 = Some w
     \<and> receive (\<lambda>_. Err WSA_IO_PENDING) (server_hooks (\<lambda>_. Err WSA_IO_PENDING) toy_ssl (\<lambda>_. toy_draw 5) (\<lambda>_. replicate 1280 7)) 0
         (replicate (length f) 1) f (entry_net w) = Inr snet'
     \<and> m_currentRoom (players (run_room_job r (run_room_job r (sv_world (fst (app snet'))))) ! 0) = Some r
     \<and> receive (\<lambda>_. Err WSA_IO_PENDING) (client_hooks toy_ssl (\<lambda>_. toy_draw 5) [] (\<lambda>_. replicate 1280 7)) 0
         (replicate (length g) 1) g client_net = Inr cnet' \<and> \<not> g_inRoom (app client_net) \<and> g_inRoom (app cnet')"
proof -
  have "(case play [EvConnect 0, EvLogin True 5 [98] 0] world0 of None \<Rightarrow> False | Some w \<Rightarrow> rooms w = []
      \<and> world.connected w 0 \<and> player_of w 0 = Some 0)" by code_simp
  then obtain w where w: "play [EvConnect 0, EvLogin True 5 [98] 0] world0 = Some w" "rooms w = []" "world.connected w 0" "player_of w 0 = Some 0"
    by (auto split: option.splits)
  let ?m = "Msg_NotiRoomEnter (GetPlayerId 0 w) (GetPlayerName 0 w)"
  obtain f g where fg: "request_frame toy_ssl toy_crypt CReqRoomEnter f" "frame_of toy_ssl toy_crypt ?m g"
    using toy_request[of CReqRoomEnter] toy_frame[of ?m] by auto
  have net: "rx_ready 0 (entry_net w)" "pending (m_recvBuffer (ses 0 (entry_net w))) = []" "rx_ready 0 client_net"
    "pending (m_recvBuffer (ses 0 client_net)) = []"
    using one_session_ready by (simp_all add: rx_ready_def server_net_def entry_net_def client_net_def)
  have li: "logged_in (replicate 16 9) 0 0 (app (entry_net w))" "established (replicate 16 9) (app client_net)" "\<not> g_inRoom (app client_net)"
    "sv_crypt (fst (app (entry_net w))) 0 = toy_crypt" "sv_world (fst (app (entry_net w))) = w"
    using w(3,4) by (simp_all add: logged_in_def entry_net_def toy_server_def toy_crypt_def established_def client_net_def toy_client_def)
  have os: "recv_accepted (\<lambda>_. Err WSA_IO_PENDING)" by (simp add: recv_accepted_def)
  have draws: "d_ctx (toy_draw 5)" "length (replicate 1280 7 :: byte list) = MAX_PLAIN_PACKET_SIZE" "m_cipher toy_crypt = Some (replicate 16 9)"
    "m_handshakeDone toy_crypt" using toy_draw_ok(2)[of 5] by (simp_all add: toy_crypt_def MAX_PLAIN_PACKET_SIZE_def)
  from room_entry_end_to_end[where ds = "\<lambda>_. toy_draw 5" and stacks = "\<lambda>_. replicate 1280 7" and ds' = "\<lambda>_. toy_draw 5" and stacks' = "\<lambda>_. replicate 1280 7"
      and w = w and lm = "[]" and ns = "replicate (length f) 1", OF toy_ssl_ok(1) draws(3,4) draws(1,2) os net(1,2) li(1) li(5)[symmetric] play_reachable[OF w(1)]
      _ draws(1,2) os net(3,4) li(2) fg(1)]
  obtain snet' r where s: "receive (\<lambda>_. Err WSA_IO_PENDING) (server_hooks (\<lambda>_. Err WSA_IO_PENDING) toy_ssl (\<lambda>_. toy_draw 5) (\<lambda>_. replicate 1280 7)) 0
         (replicate (length f) 1) f (entry_net w) = Inr snet'"
    "m_currentRoom (players (run_room_job r (run_room_job r (sv_world (fst (app snet'))))) ! 0) = Some r"
    "\<forall>g ns'. frame_of toy_ssl toy_crypt ?m g \<and> (\<forall>n \<in> set ns'. 0 < n) \<and> length g \<le> length ns' \<longrightarrow>
       (\<exists>cnet'. receive (\<lambda>_. Err WSA_IO_PENDING) (client_hooks toy_ssl (\<lambda>_. toy_draw 5) [] (\<lambda>_. replicate 1280 7)) 0 ns' g client_net = Inr cnet'
          \<and> g_inRoom (app cnet'))"
    using w(2) by (auto simp: li(4) Let_def)
  then show ?thesis using w(1) fg(2) li(3) by (metis in_set_replicate length_replicate order_refl zero_less_one)
qed

end
